(* ===== verification/SI_Prelude.thy ===== *)
theory SI_Prelude
  imports Main "HOL-Library.Word"
begin

text \<open>
  Shared vocabulary of the development: the C integer types, C strings as character lists
  without their terminating NUL, the standard-library routines the sources call on them
  (\<^verbatim>\<open>isspace\<close>, \<^verbatim>\<open>isdigit\<close>, \<^verbatim>\<open>strtol\<close>, \<^verbatim>\<open>strncmp\<close> used as a prefix test), the
  \<^verbatim>\<open>struct timespec\<close> record, and generic lemmas on lists and words used by several components.
\<close>

unbundle bit_operations_syntax

type_synonym u8 = "8 word"
type_synonym u16 = "16 word"
type_synonym u32 = "32 word"
type_synonym u64 = "64 word"

section \<open>C strings\<close>

definition c_isspace :: "char \<Rightarrow> bool" where
  "c_isspace c \<longleftrightarrow> c = CHR '' '' \<or> c = CHR 0x09 \<or> c = CHR 0x0A \<or> c = CHR 0x0B \<or> c = CHR 0x0C \<or> c = CHR 0x0D"

definition char_code :: "char \<Rightarrow> nat" where
  "char_code c = of_char c"

definition c_isdigit :: "char \<Rightarrow> bool" where
  "c_isdigit c \<longleftrightarrow> 48 \<le> char_code c \<and> char_code c \<le> 57"

definition c_isalpha :: "char \<Rightarrow> bool" where
  "c_isalpha c \<longleftrightarrow> (65 \<le> char_code c \<and> char_code c \<le> 90) \<or> (97 \<le> char_code c \<and> char_code c \<le> 122)"

definition c_tolower :: "char \<Rightarrow> char" where
  "c_tolower c = (if 65 \<le> char_code c \<and> char_code c \<le> 90 then char_of (char_code c + 32) else c)"

definition digit_val :: "char \<Rightarrow> int" where
  "digit_val c = int (char_code c) - 48"

fun starts_with :: "string \<Rightarrow> string \<Rightarrow> bool" where
  "starts_with [] s = True"
| "starts_with (p # ps) [] = False"
| "starts_with (p # ps) (c # cs) = (p = c \<and> starts_with ps cs)"

lemma starts_with_iff: "starts_with p s \<longleftrightarrow> (\<exists>r. s = p @ r)"
  by (induction p s rule: starts_with.induct) auto

lemma starts_with_take: "starts_with p s \<longleftrightarrow> take (length p) s = p"
  by (induction p s rule: starts_with.induct) auto

lemma starts_with_append [simp]: "starts_with p (p @ s)"
  by (auto simp: starts_with_iff)

fun scan_digits :: "int \<Rightarrow> string \<Rightarrow> int \<times> string" where
  "scan_digits acc [] = (acc, [])"
| "scan_digits acc (c # cs) =
     (if c_isdigit c then scan_digits (acc * 10 + digit_val c) cs else (acc, c # cs))"

definition LONG_MAX :: int where "LONG_MAX = 2 ^ 63 - 1"
definition LONG_MIN :: int where "LONG_MIN = - (2 ^ 63)"
definition INT_MAX :: int where "INT_MAX = 2 ^ 31 - 1"

text \<open>\<^verbatim>\<open>strtol(s, &end, 10)\<close>: the value, saturated at the range of \<^verbatim>\<open>long\<close>, and the rest at
  \<^verbatim>\<open>end\<close>; with no digits the value is 0 and \<^verbatim>\<open>end\<close> is \<^verbatim>\<open>s\<close>.\<close>

definition strtol :: "string \<Rightarrow> int \<times> string" where
  "strtol s =
     (let s1 = dropWhile c_isspace s;
          neg = (s1 \<noteq> [] \<and> hd s1 = CHR ''-'');
          s2 = (if s1 \<noteq> [] \<and> (hd s1 = CHR ''-'' \<or> hd s1 = CHR ''+'') then tl s1 else s1)
      in if s2 \<noteq> [] \<and> c_isdigit (hd s2)
         then (let (v, r) = scan_digits 0 s2
               in (max LONG_MIN (min LONG_MAX (if neg then - v else v)), r))
         else (0, s))"

text \<open>The conversion of a \<^verbatim>\<open>long\<close> to \<^verbatim>\<open>int\<close>, with it \<^verbatim>\<open>atoi\<close>, and the decimal conversion \<^verbatim>\<open>%d\<close>.\<close>

definition c_int :: "int \<Rightarrow> int" where
  "c_int v = sint (word_of_int v :: u32)"

lemma c_int_small: "- (2 ^ 31) \<le> v \<Longrightarrow> v \<le> INT_MAX \<Longrightarrow> c_int v = v"
  by (simp add: c_int_def INT_MAX_def int_word_sint)

lemma c_int_range: "- (2 ^ 31) \<le> c_int v \<and> c_int v \<le> INT_MAX"
  using sint_ge [of "word_of_int v :: u32"] sint_lt [of "word_of_int v :: u32"] by (simp add: c_int_def INT_MAX_def)

definition atoi :: "string \<Rightarrow> int" where
  "atoi s = c_int (fst (strtol s))"

definition digit_char :: "nat \<Rightarrow> char" where
  "digit_char d = char_of (48 + d)"

fun show_nat :: "nat \<Rightarrow> string" where
  "show_nat n = (if n < 10 then [digit_char n] else show_nat (n div 10) @ [digit_char (n mod 10)])"

declare show_nat.simps [simp del]

definition show_int :: "int \<Rightarrow> string" where
  "show_int i = (if i < 0 then ''-'' @ show_nat (nat (- i)) else show_nat (nat i))"

section \<open>Time values\<close>

record timespec =
  tv_sec :: int
  tv_nsec :: int

definition ts_zero :: timespec where
  "ts_zero = \<lparr>tv_sec = 0, tv_nsec = 0\<rparr>"

text \<open>The test \<^verbatim>\<open>t.tv_sec || t.tv_nsec\<close>, by which the sources tell a set time from an unset one.\<close>

definition ts_set :: "timespec \<Rightarrow> bool" where
  "ts_set t \<longleftrightarrow> tv_sec t \<noteq> 0 \<or> tv_nsec t \<noteq> 0"

lemma ts_set_zero [simp]: "\<not> ts_set ts_zero"
  by (simp add: ts_set_def ts_zero_def)

section \<open>Lists\<close>

text \<open>The index of the first element with a property, the C idiom
  \<^verbatim>\<open>for (i = 0; i < n; i++) if (P(a[i])) return i; return -1;\<close>\<close>

fun first_index :: "('a \<Rightarrow> bool) \<Rightarrow> 'a list \<Rightarrow> nat option" where
  "first_index P [] = None"
| "first_index P (x # xs) = (if P x then Some 0 else map_option Suc (first_index P xs))"

lemma first_index_None [simp]: "first_index P xs = None \<longleftrightarrow> (\<forall>x\<in>set xs. \<not> P x)"
  by (induction xs) auto

lemma first_index_SomeD:
  "first_index P xs = Some i \<Longrightarrow> i < length xs \<and> P (xs ! i) \<and> (\<forall>j<i. \<not> P (xs ! j))"
proof (induction xs arbitrary: i)
  case Nil
  then show ?case by simp
next
  case (Cons x xs)
  show ?case
  proof (cases "P x")
    case True
    with Cons.prems show ?thesis by simp
  next
    case False
    with Cons.prems obtain k where k: "first_index P xs = Some k" "i = Suc k" by auto
    have "\<not> P ((x # xs) ! j)" if "j < i" for j
      using that k False Cons.IH [OF k(1)] by (cases j) auto
    then show ?thesis using k Cons.IH [OF k(1)] by auto
  qed
qed

lemma first_index_SomeI:
  assumes "i < length xs" "P (xs ! i)" "\<And>j. j < i \<Longrightarrow> \<not> P (xs ! j)"
  shows "first_index P xs = Some i"
  using assms
proof (induction xs arbitrary: i)
  case Nil
  then show ?case by simp
next
  case (Cons x xs)
  show ?case
  proof (cases i)
    case 0
    with Cons.prems show ?thesis by simp
  next
    case (Suc k)
    with Cons.prems have "first_index P xs = Some k"
      by (intro Cons.IH) (auto, metis Suc_mono nth_Cons_Suc)
    with Suc Cons.prems(3) [of 0] show ?thesis by simp
  qed
qed

text \<open>The swap-remove \<^verbatim>\<open>a[i] = a[--n]\<close>: the last element takes the freed slot.\<close>

definition swap_remove :: "nat \<Rightarrow> 'a list \<Rightarrow> 'a list" where
  "swap_remove i xs = butlast (xs[i := last xs])"

lemma length_swap_remove [simp]: "length (swap_remove i xs) = length xs - 1"
  by (simp add: swap_remove_def)

lemma swap_remove_at: "swap_remove (length as) (as @ x # bs) = (if bs = [] then as else as @ last bs # butlast bs)"
  by (cases bs rule: rev_cases) (simp_all add: swap_remove_def butlast_append list_update_append)

lemma swap_remove_split:
  assumes "i < length xs"
  obtains as x bs where "xs = as @ x # bs" "length as = i" "xs ! i = x"
    "swap_remove i xs = (if bs = [] then as else as @ last bs # butlast bs)"
    "set (swap_remove i xs) = set as \<union> set bs"
proof -
  define as where "as = take i xs"
  define bs where "bs = drop (Suc i) xs"
  have xs: "xs = as @ xs ! i # bs" and l: "length as = i"
    using assms id_take_nth_drop by (simp_all add: as_def bs_def)
  have "swap_remove i xs = (if bs = [] then as else as @ last bs # butlast bs)"
    using swap_remove_at [of as "xs ! i" bs] xs l by metis
  moreover have "bs \<noteq> [] \<Longrightarrow> set (last bs # butlast bs) = set bs"
    using append_butlast_last_id [of bs] by (metis Un_insert_right list.set(1,2) set_append sup_bot.right_neutral)
  ultimately show ?thesis using that [OF xs l] by auto
qed

lemma distinct_swap_remove:
  assumes "i < length xs" "distinct (map f xs)"
  shows "distinct (map f (swap_remove i xs))"
proof -
  obtain as x bs where s: "xs = as @ x # bs" "swap_remove i xs = (if bs = [] then as else as @ last bs # butlast bs)"
    using swap_remove_split [OF assms(1)] by metis
  show ?thesis using assms(2) s by (cases bs rule: rev_cases) auto
qed

lemma set_swap_remove_subset: "i < length xs \<Longrightarrow> set (swap_remove i xs) \<subseteq> set xs"
  by (erule swap_remove_split) auto

text \<open>Scanning up to a delimiter, the C idiom of \<^verbatim>\<open>strchr\<close> and \<^verbatim>\<open>while (*p && *p != c) p++\<close>.\<close>

lemma takeWhile_neq_append: "c \<notin> set xs \<Longrightarrow> takeWhile (\<lambda>x. x \<noteq> c) (xs @ c # ys) = xs"
  by (induction xs) auto

lemma dropWhile_neq_append: "c \<notin> set xs \<Longrightarrow> dropWhile (\<lambda>x. x \<noteq> c) (xs @ c # ys) = c # ys"
  by (induction xs) auto

lemma takeWhile_neq_all: "c \<notin> set xs \<Longrightarrow> takeWhile (\<lambda>x. x \<noteq> c) xs = xs"
  by (induction xs) auto

lemma dropWhile_neq_all: "c \<notin> set xs \<Longrightarrow> dropWhile (\<lambda>x. x \<noteq> c) xs = []"
  by (induction xs) auto

section \<open>Decimal numbers\<close>

lemma length_scan_digits: "length (snd (scan_digits acc s)) \<le> length s"
  by (induction acc s rule: scan_digits.induct) (auto intro: le_SucI)

lemma strtol_digit:
  assumes "p \<noteq> []" "c_isdigit (hd p)"
  shows "strtol p = (let (v, r) = scan_digits 0 p in (max LONG_MIN (min LONG_MAX v), r))"
proof -
  have "\<not> c_isspace (hd p)" "hd p \<noteq> CHR ''-''" "hd p \<noteq> CHR ''+''"
    using assms(2) by (auto simp: c_isdigit_def c_isspace_def char_code_def)
  then show ?thesis using assms by (cases p) (simp_all add: strtol_def)
qed

lemma length_strtol_digit:
  assumes "p \<noteq> []" "c_isdigit (hd p)" "strtol p = (v, r)"
  shows "length r \<le> length p"
  using assms length_scan_digits [of 0 p] by (auto simp: strtol_digit split: prod.splits)

lemma digit_val_bounds: "c_isdigit c \<Longrightarrow> 0 \<le> digit_val c \<and> digit_val c \<le> 9"
  by (simp add: c_isdigit_def digit_val_def)

lemma scan_digits_nonneg: "0 \<le> acc \<Longrightarrow> 0 \<le> fst (scan_digits acc s)"
  by (induction acc s rule: scan_digits.induct) (use digit_val_bounds in fastforce)+

lemma strtol_digit_nonneg:
  assumes "p \<noteq> []" "c_isdigit (hd p)" "strtol p = (v, r)"
  shows "0 \<le> v"
proof -
  obtain w q where sd: "scan_digits 0 p = (w, q)" by (cases "scan_digits 0 p")
  then have "0 \<le> w" using scan_digits_nonneg [of 0 p] by simp
  then show ?thesis using assms sd by (auto simp: strtol_digit LONG_MAX_def LONG_MIN_def)
qed

lemma digit_char_props:
  assumes "d < 10"
  shows "c_isdigit (digit_char d)" "digit_val (digit_char d) = int d"
proof -
  have "char_code (digit_char d) = 48 + d"
    using assms by (simp add: char_code_def digit_char_def)
  then show "c_isdigit (digit_char d)" "digit_val (digit_char d) = int d"
    using assms by (simp_all add: c_isdigit_def digit_val_def)
qed

lemma scan_digits_show_nat:
  "scan_digits 0 (show_nat n @ r) = scan_digits (int n) r"
proof (induction n arbitrary: r rule: show_nat.induct)
  case (1 n)
  show ?case
  proof (cases "n < 10")
    case True
    then show ?thesis by (simp add: show_nat.simps [of n] digit_char_props)
  next
    case False
    have "int n = int (n div 10) * 10 + int (n mod 10)" by (simp add: zmod_int zdiv_int)
    then show ?thesis using False 1 [of "digit_char (n mod 10) # r"]
      by (simp add: show_nat.simps [of n] digit_char_props)
  qed
qed

lemma hd_show_nat: "show_nat n \<noteq> [] \<and> c_isdigit (hd (show_nat n))"
proof (induction n rule: show_nat.induct)
  case (1 n)
  then show ?case by (cases "n < 10") (simp_all add: show_nat.simps [of n] digit_char_props)
qed

lemma set_show_nat: "c \<in> set (show_nat n) \<Longrightarrow> c_isdigit c"
proof (induction n arbitrary: c rule: show_nat.induct)
  case (1 n)
  then show ?case
    by (cases "n < 10") (auto simp: show_nat.simps [of n] digit_char_props)
qed

lemma strtol_show_nat:
  assumes "int n \<le> LONG_MAX" "r = [] \<or> \<not> c_isdigit (hd r)"
  shows "strtol (show_nat n @ r) = (int n, r)"
proof -
  have "scan_digits (int n) r = (int n, r)" using assms(2) by (cases r) auto
  then have "scan_digits 0 (show_nat n @ r) = (int n, r)" by (simp add: scan_digits_show_nat)
  moreover have "show_nat n @ r \<noteq> []" "c_isdigit (hd (show_nat n @ r))" using hd_show_nat [of n] by auto
  ultimately show ?thesis using assms(1) by (simp add: strtol_digit LONG_MIN_def)
qed

end
