(* ===== verification/SI_Schema.thy ===== *)
theory SI_Schema
  imports SI_Prelude
begin

text \<open>
  The weight-state machine of \<^verbatim>\<open>schema.h\<close> and \<^verbatim>\<open>schema.c\<close>: the service states, the flag vectors of
  the states 8, 9 and 6, the instance record and its step function. States, flags and weights
  keep their C widths.
\<close>

section \<open>States, thresholds and flags\<close>

abbreviation (input) STATE_FUNDAMENTAL :: u8 where "STATE_FUNDAMENTAL \<equiv> 1"
abbreviation (input) STATE_FRICTION :: u8 where "STATE_FRICTION \<equiv> 6"
abbreviation (input) STATE_SETTLED :: u8 where "STATE_SETTLED \<equiv> 7"
abbreviation (input) STATE_NEW_PROCESS :: u8 where "STATE_NEW_PROCESS \<equiv> 8"
abbreviation (input) STATE_RECOVERY :: u8 where "STATE_RECOVERY \<equiv> 9"
abbreviation (input) STATE_FULL_TRUST :: u8 where "STATE_FULL_TRUST \<equiv> 10"
abbreviation (input) STATE_PERFECT :: u8 where "STATE_PERFECT \<equiv> 88"
abbreviation (input) STATE_EXCISED :: u8 where "STATE_EXCISED \<equiv> 76"
abbreviation (input) STATE_DORMANT :: u8 where "STATE_DORMANT \<equiv> 75"

abbreviation (input) STATE_8_MAX :: u8 where "STATE_8_MAX \<equiv> 8"
abbreviation (input) STATE_9_MAX :: u8 where "STATE_9_MAX \<equiv> 12"
abbreviation (input) STATE_6_MAX :: u8 where "STATE_6_MAX \<equiv> 6"

abbreviation (input) SHIFT_THRESHOLD_8 :: u8 where "SHIFT_THRESHOLD_8 \<equiv> 5"
abbreviation (input) SHIFT_THRESHOLD_9 :: u8 where "SHIFT_THRESHOLD_9 \<equiv> 8"
abbreviation (input) SHIFT_THRESHOLD_6 :: u8 where "SHIFT_THRESHOLD_6 \<equiv> 3"

abbreviation (input) F8_HW_EXISTS :: u32 where "F8_HW_EXISTS \<equiv> 0x1"
abbreviation (input) F8_HW_RESPONDS :: u32 where "F8_HW_RESPONDS \<equiv> 0x2"
abbreviation (input) F8_DEP_PRESENT :: u32 where "F8_DEP_PRESENT \<equiv> 0x4"
abbreviation (input) F8_DEP_STATE :: u32 where "F8_DEP_STATE \<equiv> 0x8"
abbreviation (input) F8_MEM_AVAIL :: u32 where "F8_MEM_AVAIL \<equiv> 0x10"
abbreviation (input) F8_MEM_SAFE :: u32 where "F8_MEM_SAFE \<equiv> 0x20"
abbreviation (input) F8_PERM_PRESENT :: u32 where "F8_PERM_PRESENT \<equiv> 0x40"
abbreviation (input) F8_PERM_AUTH :: u32 where "F8_PERM_AUTH \<equiv> 0x80"
abbreviation (input) F8_MASK :: u32 where "F8_MASK \<equiv> 0xFF"

abbreviation (input) F9_RETRY_COUNT :: u32 where "F9_RETRY_COUNT \<equiv> 0x1"
abbreviation (input) F9_RETRY_WIN :: u32 where "F9_RETRY_WIN \<equiv> 0x2"
abbreviation (input) F9_FALL_EXISTS :: u32 where "F9_FALL_EXISTS \<equiv> 0x4"
abbreviation (input) F9_FALL_HEALTH :: u32 where "F9_FALL_HEALTH \<equiv> 0x8"
abbreviation (input) F9_MEM_FREE :: u32 where "F9_MEM_FREE \<equiv> 0x10"
abbreviation (input) F9_MEM_SUFF :: u32 where "F9_MEM_SUFF \<equiv> 0x20"
abbreviation (input) F9_ESC_PATH :: u32 where "F9_ESC_PATH \<equiv> 0x40"
abbreviation (input) F9_ESC_AUTH :: u32 where "F9_ESC_AUTH \<equiv> 0x80"
abbreviation (input) F9_TIMEOUT_WIN :: u32 where "F9_TIMEOUT_WIN \<equiv> 0x100"
abbreviation (input) F9_TIMEOUT_EXT :: u32 where "F9_TIMEOUT_EXT \<equiv> 0x200"
abbreviation (input) F9_MASK :: u32 where "F9_MASK \<equiv> 0xFFF"

abbreviation (input) F6_ERR_PATH :: u32 where "F6_ERR_PATH \<equiv> 0x1"
abbreviation (input) F6_ERR_RES :: u32 where "F6_ERR_RES \<equiv> 0x2"
abbreviation (input) F6_ESC_LIMIT :: u32 where "F6_ESC_LIMIT \<equiv> 0x10"
abbreviation (input) F6_ESC_PATTERN :: u32 where "F6_ESC_PATTERN \<equiv> 0x20"
abbreviation (input) F6_MASK :: u32 where "F6_MASK \<equiv> 0x3F"

section \<open>The instance and its step\<close>

record schema_instance_t =
  state :: u8
  weight :: u8
  target_c :: u8
  prev_state :: u8
  pid :: u32
  flags :: u32

function popcount_loop :: "u32 \<Rightarrow> u8 \<Rightarrow> u8" where
  "popcount_loop v n = (if v = 0 then n else popcount_loop (drop_bit 1 v) (n + ucast (v AND 1)))"
  by pat_completeness auto
termination
proof (relation "measure (\<lambda>(v, n). unat v)")
  show "wf (measure (\<lambda>(v :: u32, n :: u8). unat v))" by simp
  fix v :: u32 and n :: u8
  assume "v \<noteq> 0"
  then show "((drop_bit 1 v, n + ucast (v AND 1)), (v, n)) \<in> measure (\<lambda>(v, n). unat v)"
    by (simp only: in_measure prod.case unat_drop_bit_eq)
      (simp add: drop_bit_nat_def unat_gt_0)
qed

declare popcount_loop.simps [simp del]

definition popcount :: "u32 \<Rightarrow> u8" where
  "popcount v = popcount_loop v 0"

definition schema_instance_init :: "u32 \<Rightarrow> u8 \<Rightarrow> schema_instance_t" where
  "schema_instance_init p target =
     \<lparr>state = STATE_NEW_PROCESS, weight = 0, target_c = target, prev_state = STATE_SETTLED,
      pid = p, flags = 0\<rparr>"

definition schema_step :: "schema_instance_t \<Rightarrow> u32 \<Rightarrow> schema_instance_t" where
  "schema_step inst0 fl =
     (let inst = inst0\<lparr>flags := fl\<rparr> in
      if state inst = STATE_NEW_PROCESS then
        (let w = popcount (fl AND F8_MASK) in
         inst\<lparr>weight := w, prev_state := STATE_NEW_PROCESS,
              state := (if SHIFT_THRESHOLD_8 \<le> w then STATE_FULL_TRUST else STATE_RECOVERY)\<rparr>)
      else if state inst = STATE_RECOVERY then
        (let w = popcount (fl AND F9_MASK) in
         inst\<lparr>weight := w,
              state := (if SHIFT_THRESHOLD_9 \<le> w then STATE_SETTLED else STATE_FRICTION)\<rparr>)
      else if state inst = STATE_FRICTION then
        (let w = popcount (fl AND F6_MASK) in
         inst\<lparr>weight := w,
              state := (if SHIFT_THRESHOLD_6 \<le> w then STATE_RECOVERY else STATE_EXCISED)\<rparr>)
      else if state inst = STATE_FULL_TRUST then
        (if fl AND F8_MASK = F8_MASK then inst\<lparr>state := STATE_FUNDAMENTAL\<rparr>
         else if fl = 0 then inst\<lparr>state := STATE_EXCISED\<rparr>
         else inst)
      else inst)"

definition state_name :: "u8 \<Rightarrow> string" where
  "state_name s =
     (if s = STATE_FUNDAMENTAL then ''FUNDAMENTAL''
      else if s = STATE_FRICTION then ''FRICTION''
      else if s = STATE_SETTLED then ''SETTLED''
      else if s = STATE_NEW_PROCESS then ''NEW_PROCESS''
      else if s = STATE_RECOVERY then ''RECOVERY''
      else if s = STATE_FULL_TRUST then ''FULL_TRUST''
      else if s = STATE_PERFECT then ''PERFECT''
      else if s = STATE_EXCISED then ''EXCISED''
      else if s = STATE_DORMANT then ''DORMANT''
      else ''UNKNOWN'')"

section \<open>The weight is the number of set flags\<close>

lemma card_bits_Suc:
  "card {i. i < Suc n \<and> bit v i} = card {i. i < n \<and> bit (drop_bit 1 v) i} + of_bool (bit v 0)"
  for v :: "'a::semiring_bit_operations"
proof -
  have "{i. i < Suc n \<and> bit v i} =
      Suc ` {i. i < n \<and> bit (drop_bit 1 v) i} \<union> (if bit v 0 then {0} else {})"
    by (auto simp: bit_drop_bit_eq image_iff less_Suc_eq_0_disj)
  moreover have "card (Suc ` A \<union> (if b then {0} else {})) = card A + of_bool b"
    if "finite A" for A b
    using that by (simp add: card_image)
  ultimately show ?thesis by simp
qed

lemma popcount_loop_eq:
  assumes "\<And>i. n \<le> i \<Longrightarrow> \<not> bit v i"
  shows "popcount_loop v k = k + of_nat (card {i. i < n \<and> bit v i})"
  using assms
proof (induction n arbitrary: v k)
  case 0
  then have "v = 0" by (auto intro: bit_eqI)
  then show ?case by (simp add: popcount_loop.simps)
next
  case (Suc n)
  have IH: "popcount_loop (drop_bit 1 v) k' = k' + of_nat (card {i. i < n \<and> bit (drop_bit 1 v) i})" for k'
    using Suc.prems by (intro Suc.IH) (simp add: bit_drop_bit_eq)
  have one: "ucast (v AND 1) = (of_bool (bit v 0) :: u8)"
    by (simp add: and_one_eq bit_0 mod_2_eq_odd)
  show ?case
  proof (cases "v = 0")
    case True
    then show ?thesis by (simp add: popcount_loop.simps)
  next
    case False
    then show ?thesis
      by (subst popcount_loop.simps) (simp only: if_False IH one card_bits_Suc, simp)
  qed
qed

lemma popcount_eq_card: "popcount v = of_nat (card {i. bit v i})"
proof -
  have "{i. bit v i} = {i. i < 32 \<and> bit v i}"
    using bit_imp_le_length [of v] by auto
  moreover have "popcount v = of_nat (card {i. i < 32 \<and> bit v i})"
    unfolding popcount_def
    by (subst popcount_loop_eq [of 32]) (auto dest: bit_imp_le_length)
  ultimately show ?thesis by simp
qed

lemma card_bits_le: "card {i. bit v i} \<le> 32" for v :: u32
proof -
  have "{i. bit v i} \<subseteq> {..<32}" using bit_imp_le_length [of v] by auto
  then have "card {i. bit v i} \<le> card {..<32 :: nat}" by (intro card_mono) auto
  then show ?thesis by simp
qed

lemma unat_popcount: "unat (popcount v) = card {i. bit v i}"
  using card_bits_le [of v] by (simp add: popcount_eq_card unat_of_nat take_bit_nat_eq_self)

lemma unat_popcount_mask: "unat (popcount (v AND mask n)) \<le> n"
proof -
  have "{i. bit (v AND mask n) i} \<subseteq> {..<n}" by (auto simp: bit_and_iff bit_mask_iff)
  then have "card {i. bit (v AND mask n) i} \<le> card {..<n}" by (intro card_mono) auto
  then show ?thesis by (simp add: unat_popcount)
qed

lemma flag_masks:
  "F8_MASK = mask 8" "F9_MASK = mask 12" "F6_MASK = mask 6"
  by (simp_all add: mask_eq_exp_minus_1)

text \<open>The weight recorded by a step is bounded by the number of flags of the state it left.\<close>

definition weight_ok :: "schema_instance_t \<Rightarrow> bool" where
  "weight_ok inst \<longleftrightarrow> weight inst \<le> STATE_9_MAX \<and>
     state inst \<in> {STATE_NEW_PROCESS, STATE_FULL_TRUST, STATE_RECOVERY, STATE_FRICTION,
                   STATE_SETTLED, STATE_FUNDAMENTAL, STATE_EXCISED}"

lemma popcount_masks_le:
  "popcount (v AND F8_MASK) \<le> STATE_8_MAX"
  "popcount (v AND F9_MASK) \<le> STATE_9_MAX"
  "popcount (v AND F6_MASK) \<le> STATE_6_MAX"
  using unat_popcount_mask [of v 8] unat_popcount_mask [of v 12] unat_popcount_mask [of v 6]
  by (simp_all add: flag_masks word_le_nat_alt)

lemma weight_ok_init: "weight_ok (schema_instance_init p t)"
  by (simp add: weight_ok_def schema_instance_init_def)

lemma weight_ok_step: "weight_ok inst \<Longrightarrow> weight_ok (schema_step inst fl)"
  using popcount_masks_le [of fl]
  by (auto simp: weight_ok_def schema_step_def Let_def intro: order.trans)

end
