(* ===== verification/SI_Timing.thy ===== *)
theory SI_Timing
  imports SI_Prelude
begin

text \<open>
  The pure decision functions of \<^verbatim>\<open>service.h\<close>: memory reclaim and memory-pressure hysteresis,
  deadline arithmetic for the poll timeout, cgroup tiers, calendar timers, and the kernel
  command line tests. Times in milliseconds are unbounded integers except in
  \<^verbatim>\<open>pressure_step\<close>, whose unsigned subtraction is kept at 64 bits. \<^verbatim>\<open>localtime_r\<close> and
  \<^verbatim>\<open>mktime\<close> depend on the time zone database and are arguments of the calendar functions.
\<close>

section \<open>Memory\<close>

definition RECLAIM_FLOOR :: int where "RECLAIM_FLOOR = 4 * 1024 * 1024"
definition RECLAIM_CAP :: int where "RECLAIM_CAP = 128 * 1024 * 1024"

definition reclaim_target :: "int \<Rightarrow> int \<Rightarrow> int" where
  "reclaim_target current cap =
     (if current < RECLAIM_FLOOR then 0
      else let half = current div 2 in if half < cap then half else cap)"

abbreviation (input) THAW_DELAY_MS :: u64 where "THAW_DELAY_MS \<equiv> 5000"

datatype pressure = PRESSURE_NONE | PRESSURE_ENTER | PRESSURE_EXIT

definition pressure_step :: "bool \<Rightarrow> u64 \<Rightarrow> u64 \<Rightarrow> bool \<Rightarrow> bool \<times> u64 \<times> pressure" where
  "pressure_step up now_ms last_stall_ms stalled =
     (if stalled then
        (if up then (up, now_ms, PRESSURE_NONE) else (True, now_ms, PRESSURE_ENTER))
      else if up \<and> THAW_DELAY_MS \<le> now_ms - last_stall_ms then (False, last_stall_ms, PRESSURE_EXIT)
      else (up, last_stall_ms, PRESSURE_NONE))"

fun pressure_run :: "bool \<Rightarrow> u64 \<Rightarrow> (u64 \<times> bool) list \<Rightarrow> pressure list" where
  "pressure_run up lst [] = []"
| "pressure_run up lst ((now_ms, stalled) # ps) =
     (case pressure_step up now_ms lst stalled of
        (up', lst', ev) \<Rightarrow> ev # pressure_run up' lst' ps)"

section \<open>Readiness and deadlines\<close>

abbreviation (input) BUS_NAME_WAIT_SECS :: int where "BUS_NAME_WAIT_SECS \<equiv> 90"

definition ready_timer_due :: "int \<Rightarrow> int \<Rightarrow> bool \<Rightarrow> bool \<Rightarrow> bool \<Rightarrow> bool" where
  "ready_timer_due ran_s stable_secs has_bus_name has_cgroup reporter_seen =
     (if has_bus_name \<and> has_cgroup \<and> reporter_seen \<and> ran_s < BUS_NAME_WAIT_SECS then False
      else stable_secs \<le> ran_s)"

definition WAKE_NONE :: int where "WAKE_NONE = 2 ^ 63 - 1"
abbreviation (input) WAKE_CAL_CAP_MS :: int where "WAKE_CAL_CAP_MS \<equiv> 60000"

definition ts_ms_ceil :: "timespec \<Rightarrow> int" where
  "ts_ms_ceil ts = tv_sec ts * 1000 + (tv_nsec ts + 999999) div 1000000"

definition wake_min :: "int \<Rightarrow> int \<Rightarrow> int \<Rightarrow> int \<Rightarrow> int" where
  "wake_min best deadline_ms now_ms cap_ms =
     (let d0 = (if deadline_ms \<le> now_ms then 0 else deadline_ms - now_ms);
          d = (if cap_ms < d0 then cap_ms else d0)
      in if d < best then d else best)"

definition wd_pet_ms :: "int \<Rightarrow> int" where
  "wd_pet_ms timeout_s = (if 0 < timeout_s then timeout_s * 1000 div 3 else 5000)"

definition wake_timeout :: "int \<Rightarrow> bool \<Rightarrow> int \<Rightarrow> int" where
  "wake_timeout best tick tick_ms =
     (if tick \<and> tick_ms < best then tick_ms
      else if best = WAKE_NONE then -1
      else if 0x7fffffff < best then 0x7fffffff else best)"

abbreviation (input) WD_ABORT_GRACE_MS :: int where "WD_ABORT_GRACE_MS \<equiv> 90000"

definition svc_wd_due :: "timespec \<Rightarrow> timespec \<Rightarrow> int \<Rightarrow> int" where
  "svc_wd_due last_pet abort_at watchdog_sec =
     (if ts_set abort_at then ts_ms_ceil abort_at + WD_ABORT_GRACE_MS
      else ts_ms_ceil last_pet + watchdog_sec * 1000)"

section \<open>Cgroup tiers\<close>

datatype prio_t = PRIO_PERIPHERAL | PRIO_STANDARD | PRIO_CRITICAL

record cgroup_tier_t =
  cpu_weight :: int
  io_weight :: int
  cpu_idle :: int

definition cgroup_tiering :: "prio_t \<Rightarrow> cgroup_tier_t" where
  "cgroup_tiering priority =
     (case priority of
        PRIO_PERIPHERAL \<Rightarrow> \<lparr>cpu_weight = 0, io_weight = 10, cpu_idle = 1\<rparr>
      | PRIO_CRITICAL \<Rightarrow> \<lparr>cpu_weight = 1000, io_weight = 1000, cpu_idle = 0\<rparr>
      | PRIO_STANDARD \<Rightarrow> \<lparr>cpu_weight = 100, io_weight = 100, cpu_idle = 0\<rparr>)"

definition mem_high_bytes :: "int \<Rightarrow> int" where
  "mem_high_bytes mem_limit_mb =
     (if mem_limit_mb \<le> 0 then 0 else mem_limit_mb * 1024 * 1024 * 9 div 10)"

section \<open>Calendar timers\<close>

definition calendar_dow_names :: "string list" where
  "calendar_dow_names = [''sun'', ''mon'', ''tue'', ''wed'', ''thu'', ''fri'', ''sat'']"

definition calendar_dow_from_name :: "string \<Rightarrow> int" where
  "calendar_dow_from_name s =
     (if 3 < length s then -1
      else case first_index (\<lambda>n. n = map c_tolower s) calendar_dow_names of
          Some i \<Rightarrow> int i
        | None \<Rightarrow> -1)"

text \<open>The hour list before the colon: the hour mask and the text after the colon.\<close>

function calendar_hours :: "string \<Rightarrow> u32 \<Rightarrow> (u32 \<times> string) option" where
  "calendar_hours p msk =
     (if p = [] \<or> \<not> c_isdigit (hd p) then None
      else case strtol p of (h, e) \<Rightarrow>
        if 23 < h then None
        else (case e of
                [] \<Rightarrow> None
              | c # r \<Rightarrow>
                  let msk' = msk OR push_bit (nat h) 1
                  in if c = CHR '':'' then Some (msk', r)
                     else if c \<noteq> CHR '','' then None
                     else calendar_hours r msk'))"
  by pat_completeness auto
termination
proof (relation "measure (\<lambda>(p, msk). length p)", goal_cases)
  case 1
  then show ?case by simp
next
  case (2 p msk h e c r msk')
  then show ?case using length_strtol_digit [of p h e] by auto
qed

declare calendar_hours.simps [simp del]

record calendar_fields =
  cal_hour_mask :: u32
  cal_min :: int
  cal_dow :: int
  cal_dom :: int

text \<open>The optional leading token: weekday, day of month, and the bounds of the time token.\<close>

definition calendar_day :: "string \<Rightarrow> (int \<times> int) option" where
  "calendar_day tok =
     (if 16 \<le> length tok then None
      else if c_isalpha (hd tok) then
        (let dw = calendar_dow_from_name tok in if dw < 0 then None else Some (dw, -1))
      else if c_isdigit (hd tok) then
        (let (v, e) = strtol tok in if e \<noteq> [] \<or> v < 1 \<or> 31 < v then None else Some (-1, v))
      else None)"

definition calendar_prefix :: "string \<Rightarrow> (int \<times> int \<times> string \<times> string) option" where
  "calendar_prefix val =
     (let a = dropWhile c_isspace val;
          tok = takeWhile (\<lambda>x. \<not> c_isspace x) a;
          b = dropWhile (\<lambda>x. \<not> c_isspace x) a;
          c = dropWhile c_isspace b;
          d = dropWhile (\<lambda>x. \<not> c_isspace x) c;
          z = dropWhile c_isspace d
      in if a = b \<or> z \<noteq> [] then None
         else if c = d then Some (-1, -1, a, b)
         else case calendar_day tok of None \<Rightarrow> None | Some (dw, dm) \<Rightarrow> Some (dw, dm, c, d))"

definition calendar_time :: "int \<times> int \<times> string \<times> string \<Rightarrow> calendar_fields option" where
  "calendar_time = (\<lambda>(dw, dm, p, pe).
     case calendar_hours p 0 of
       None \<Rightarrow> None
     | Some (hmask, q) \<Rightarrow>
         if q = [] \<or> \<not> c_isdigit (hd q) then None
         else (let (m, e) = strtol q
               in if e \<noteq> pe \<or> 59 < m then None
                  else Some \<lparr>cal_hour_mask = hmask, cal_min = m, cal_dow = dw, cal_dom = dm\<rparr>))"

definition parse_calendar_fields :: "string \<Rightarrow> calendar_fields option" where
  "parse_calendar_fields val =
     (case calendar_prefix val of None \<Rightarrow> None | Some pre \<Rightarrow> calendar_time pre)"

definition calendar_day_matches :: "int \<Rightarrow> int \<Rightarrow> int \<Rightarrow> int \<Rightarrow> bool" where
  "calendar_day_matches dow mdom wday mday =
     (if 0 \<le> dow \<and> wday \<noteq> dow then False
      else if 1 \<le> mdom \<and> mday \<noteq> mdom then False
      else True)"

record tm =
  tm_year :: int
  tm_mon :: int
  tm_mday :: int
  tm_hour :: int
  tm_min :: int
  tm_sec :: int
  tm_wday :: int
  tm_isdst :: int

definition calendar_at :: "(int \<Rightarrow> tm) \<Rightarrow> (tm \<Rightarrow> int) \<Rightarrow> int \<Rightarrow> int \<Rightarrow> int \<Rightarrow> nat \<Rightarrow> int" where
  "calendar_at localtime mktime base mins d h =
     mktime ((localtime base)\<lparr>tm_mday := tm_mday (localtime base) + d, tm_hour := int h,
        tm_min := mins, tm_sec := 0, tm_isdst := -1\<rparr>)"

definition calendar_slots :: "u32 \<Rightarrow> nat list \<Rightarrow> (nat \<times> nat) list" where
  "calendar_slots hour_mask hours =
     concat (map (\<lambda>d. map (Pair d) (filter (bit hour_mask) hours)) [0..<401])"

definition calendar_next_after ::
  "(int \<Rightarrow> tm) \<Rightarrow> (tm \<Rightarrow> int) \<Rightarrow> u32 \<Rightarrow> int \<Rightarrow> int \<Rightarrow> int \<Rightarrow> int \<Rightarrow> int" where
  "calendar_next_after localtime mktime hour_mask mins dow mdom after =
     (case List.find (\<lambda>(d, h).
              let t = calendar_at localtime mktime after mins (int d) h; ck = localtime t
              in t \<noteq> -1 \<and> after < t \<and> calendar_day_matches dow mdom (tm_wday ck) (tm_mday ck))
            (calendar_slots hour_mask [0..<24]) of
        Some (d, h) \<Rightarrow> calendar_at localtime mktime after mins (int d) h
      | None \<Rightarrow> after + 86400)"

definition calendar_recent_at_or_before ::
  "(int \<Rightarrow> tm) \<Rightarrow> (tm \<Rightarrow> int) \<Rightarrow> u32 \<Rightarrow> int \<Rightarrow> int \<Rightarrow> int \<Rightarrow> int \<Rightarrow> int" where
  "calendar_recent_at_or_before localtime mktime hour_mask mins dow mdom now =
     (case List.find (\<lambda>(d, h).
              let t = calendar_at localtime mktime now mins (- int d) h; ck = localtime t
              in t \<noteq> -1 \<and> t \<le> now \<and> calendar_day_matches dow mdom (tm_wday ck) (tm_mday ck))
            (calendar_slots hour_mask (rev [0..<24])) of
        Some (d, h) \<Rightarrow> calendar_at localtime mktime now mins (- int d) h
      | None \<Rightarrow> 0)"

section \<open>Kernel command line\<close>

definition c_blank :: "char \<Rightarrow> bool" where
  "c_blank c \<longleftrightarrow> c = CHR '' '' \<or> c = CHR 0x09 \<or> c = CHR 0x0A"

function cmdline_word_match :: "string \<Rightarrow> string \<Rightarrow> bool" where
  "cmdline_word_match cmdline arg =
     (let p = dropWhile c_blank cmdline;
          wl = length (takeWhile (\<lambda>c. \<not> c_blank c) p);
          al = length arg
      in if wl = 0 then False
         else if (wl = al \<and> starts_with arg p) \<or>
                 (CHR ''='' \<notin> set arg \<and> al < wl \<and> p ! al = CHR ''='' \<and> starts_with arg p)
         then True
         else cmdline_word_match (drop wl p) arg)"
  by pat_completeness auto
termination
proof (relation "measure (\<lambda>(s, arg). length s)", goal_cases)
  case 1
  then show ?case by simp
next
  case (2 cmdline arg p wl al)
  have "length p \<le> length cmdline" using 2 by (simp add: length_dropWhile_le)
  moreover have "0 < wl" "wl \<le> length p" using 2 by (auto simp: length_takeWhile_le)
  ultimately show ?case by simp
qed

declare cmdline_word_match.simps [simp del]

definition rescue_cmdline :: "string \<Rightarrow> bool" where
  "rescue_cmdline cmdline =
     list_ex (cmdline_word_match cmdline)
       [''schema.rescue'', ''single'', ''s'', ''S'', ''1'', ''rescue'']"

section \<open>Properties\<close>

subsection \<open>Pressure posture\<close>

text \<open>However memory pressure comes and goes, the posture callbacks alternate: the first is an
  enter if the machine started relaxed, an exit if it started pressed, and no two in a row agree.\<close>

theorem pressure_events_alternate:
  "i < length (filter (\<lambda>e. e \<noteq> PRESSURE_NONE) (pressure_run up lst ps)) \<Longrightarrow>
   filter (\<lambda>e. e \<noteq> PRESSURE_NONE) (pressure_run up lst ps) ! i =
     (if even i = up then PRESSURE_EXIT else PRESSURE_ENTER)"
proof (induction up lst ps arbitrary: i rule: pressure_run.induct)
  case (1 up lst)
  then show ?case by simp
next
  case (2 up lst now_ms stalled ps)
  obtain up' lst' ev where st: "pressure_step up now_ms lst stalled = (up', lst', ev)"
    by (cases "pressure_step up now_ms lst stalled")
  have IH: "j < length (filter (\<lambda>e. e \<noteq> PRESSURE_NONE) (pressure_run up' lst' ps)) \<Longrightarrow>
      filter (\<lambda>e. e \<noteq> PRESSURE_NONE) (pressure_run up' lst' ps) ! j =
        (if even j = up' then PRESSURE_EXIT else PRESSURE_ENTER)" for j
    by (rule "2.IH" [OF st [symmetric] refl])
  show ?case
  proof (cases "ev = PRESSURE_NONE")
    case True
    then have "up' = up" using st by (auto simp: pressure_step_def split: if_splits)
    with True st "2.prems" IH show ?thesis by simp
  next
    case False
    then have "up' = (\<not> up)" "ev = (if up then PRESSURE_EXIT else PRESSURE_ENTER)"
      using st by (auto simp: pressure_step_def split: if_splits)
    with False st "2.prems" IH show ?thesis by (cases i) auto
  qed
qed

theorem pressure_events_alternate_witness:
  "filter (\<lambda>e. e \<noteq> PRESSURE_NONE) (pressure_run False 0 [(0, True), (10, True), (40000, False)]) ! 0 = PRESSURE_ENTER"
proof -
  have "0 < length (filter (\<lambda>e. e \<noteq> PRESSURE_NONE) (pressure_run False 0 [(0, True), (10, True), (40000, False)]))"
    by code_simp
  from pressure_events_alternate [OF this] show ?thesis by simp
qed

subsection \<open>Calendar parsing\<close>

lemma calendar_hours_bits:
  "calendar_hours p msk = Some (hm, q) \<Longrightarrow>
     (\<exists>h<24. bit hm h) \<and> (\<forall>i. bit hm i \<longrightarrow> bit msk i \<or> i < 24)"
proof (induction p msk arbitrary: hm q rule: calendar_hours.induct)
  case (1 p msk)
  from "1.prems" have p: "p \<noteq> []" "c_isdigit (hd p)"
    by (auto simp: calendar_hours.simps [of p msk] split: if_splits)
  obtain h e where st: "strtol p = (h, e)" by (cases "strtol p")
  with "1.prems" p have h: "\<not> 23 < h" by (auto simp: calendar_hours.simps [of p msk] split: if_splits)
  from "1.prems" p st h obtain c r where e: "e = c # r"
    by (auto simp: calendar_hours.simps [of p msk] split: list.splits)
  have hb: "nat h < 24" using strtol_digit_nonneg [OF p st] h by simp
  let ?m = "msk OR push_bit (nat h) 1"
  have set_h: "bit ?m (nat h)" using hb by (simp add: bit_or_iff bit_exp_iff)
  have old: "bit ?m i \<Longrightarrow> bit msk i \<or> i < 24" for i
    using hb by (auto simp: bit_or_iff bit_exp_iff)
  show ?case
  proof (cases "c = CHR '':''")
    case True
    then have "hm = ?m" using "1.prems" p st h e by (simp add: calendar_hours.simps [of p msk])
    with set_h hb old show ?thesis by blast
  next
    case False
    then have "c = CHR '',''" "calendar_hours r ?m = Some (hm, q)"
      using "1.prems" p st h e by (auto simp: calendar_hours.simps [of p msk] split: if_splits)
    then have "(\<exists>h<24. bit hm h) \<and> (\<forall>i. bit hm i \<longrightarrow> bit ?m i \<or> i < 24)"
      using "1.IH" [of h e c r ?m] p st h e False by auto
    with old show ?thesis by blast
  qed
qed

lemma calendar_dow_range: "-1 \<le> calendar_dow_from_name s \<and> calendar_dow_from_name s \<le> 6"
  by (auto simp: calendar_dow_from_name_def calendar_dow_names_def split: option.splits
      dest!: first_index_SomeD)

lemma calendar_day_range:
  assumes "calendar_day tok = Some (dw, dm)"
  shows "(dw = -1 \<or> 0 \<le> dw \<and> dw \<le> 6 \<and> dm = -1) \<and> (dm = -1 \<or> 1 \<le> dm \<and> dm \<le> 31)"
  using assms calendar_dow_range [of tok]
  by (auto simp: calendar_day_def Let_def split: if_splits prod.splits)

lemma calendar_prefix_cases:
  assumes "(if A then None else if B then Some (-1, -1, a, b)
      else case x of None \<Rightarrow> None | Some (dw, dm) \<Rightarrow> Some (dw, dm, c, d)) = Some (dw, dm, p, pe)"
  shows "(dw = (-1 :: int) \<and> dm = (-1 :: int)) \<or> x = Some (dw, dm)"
  using assms by (auto split: if_splits option.splits)

lemma calendar_prefix_range:
  assumes "calendar_prefix val = Some (dw, dm, p, pe)"
  shows "(dw = -1 \<or> 0 \<le> dw \<and> dw \<le> 6 \<and> dm = -1) \<and> (dm = -1 \<or> 1 \<le> dm \<and> dm \<le> 31)"
  using calendar_prefix_cases [OF assms [unfolded calendar_prefix_def Let_def]] calendar_day_range
  by blast

lemma calendar_time_range:
  assumes "calendar_time (dw, dm, p, pe) = Some cf"
  shows "cal_dow cf = dw \<and> cal_dom cf = dm \<and> 0 \<le> cal_min cf \<and> cal_min cf \<le> 59 \<and>
    (\<exists>h<24. bit (cal_hour_mask cf) h) \<and> (\<forall>i. bit (cal_hour_mask cf) i \<longrightarrow> i < 24)"
proof -
  from assms obtain hm q m e where *: "calendar_hours p 0 = Some (hm, q)"
    "q \<noteq> []" "c_isdigit (hd q)" "strtol q = (m, e)" "m \<le> 59"
    "cf = \<lparr>cal_hour_mask = hm, cal_min = m, cal_dow = dw, cal_dom = dm\<rparr>"
    unfolding calendar_time_def by (auto split: option.splits if_splits prod.splits)
  then show ?thesis
    using calendar_hours_bits [OF *(1)] strtol_digit_nonneg [OF *(2,3,4)] by simp
qed

subsection \<open>The next calendar instant\<close>

definition calendar_hit ::
  "(int \<Rightarrow> tm) \<Rightarrow> (tm \<Rightarrow> int) \<Rightarrow> int \<Rightarrow> int \<Rightarrow> int \<Rightarrow> int \<Rightarrow> nat \<times> nat \<Rightarrow> bool" where
  "calendar_hit localtime mktime mins dow mdom after = (\<lambda>(d, h).
     let t = calendar_at localtime mktime after mins (int d) h; ck = localtime t
     in t \<noteq> -1 \<and> after < t \<and> calendar_day_matches dow mdom (tm_wday ck) (tm_mday ck))"

lemma calendar_next_after_find:
  "calendar_next_after localtime mktime hm mins dow mdom after =
     (case List.find (calendar_hit localtime mktime mins dow mdom after) (calendar_slots hm [0..<24]) of
        Some (d, h) \<Rightarrow> calendar_at localtime mktime after mins (int d) h
      | None \<Rightarrow> after + 86400)"
  by (simp add: calendar_next_after_def calendar_hit_def)

lemma set_calendar_slots:
  "(d, h) \<in> set (calendar_slots hm hs) \<longleftrightarrow> d \<le> 400 \<and> h \<in> set hs \<and> bit hm h"
  by (auto simp: calendar_slots_def)

definition slot_lt :: "nat \<times> nat \<Rightarrow> nat \<times> nat \<Rightarrow> bool" where
  "slot_lt a b \<longleftrightarrow> fst a < fst b \<or> (fst a = fst b \<and> snd a < snd b)"

lemma sorted_slots: "sorted_wrt slot_lt (calendar_slots hm [0..<24])"
proof -
  have one: "sorted_wrt slot_lt (map (Pair d) (filter (bit hm) [0..<24]))" for d
    by (simp add: sorted_wrt_map slot_lt_def sorted_wrt_filter)
  have "sorted_wrt (<) ds \<Longrightarrow>
      sorted_wrt slot_lt (concat (map (\<lambda>d. map (Pair d) (filter (bit hm) [0..<24])) ds))" for ds
  proof (induction ds)
    case Nil
    then show ?case by simp
  next
    case (Cons d ds)
    have "slot_lt x y" if "x \<in> set (map (Pair d) (filter (bit hm) [0..<24]))"
        "y \<in> set (concat (map (\<lambda>d. map (Pair d) (filter (bit hm) [0..<24])) ds))" for x y
      using that Cons.prems by (auto simp: slot_lt_def)
    with Cons one [of d] show ?case by (simp add: sorted_wrt_append)
  qed
  then show ?thesis by (simp add: calendar_slots_def)
qed

lemma find_sorted_first:
  assumes "sorted_wrt R xs" "List.find P xs = Some x" "y \<in> set xs" "P y"
  shows "P x \<and> x \<in> set xs \<and> (y = x \<or> R x y)"
  using assms by (induction xs) (auto split: if_splits)

subsection \<open>Words of the command line\<close>

fun cwords :: "string \<Rightarrow> string \<Rightarrow> string list" where
  "cwords [] acc = (if acc = [] then [] else [rev acc])"
| "cwords (c # cs) acc =
     (if c_blank c then (if acc = [] then [] else [rev acc]) @ cwords cs [] else cwords cs (c # acc))"

lemma cwords_skip: "cwords (dropWhile c_blank s) [] = cwords s []"
  by (induction s) auto

lemma cwords_word:
  "cwords s acc =
     (let w = rev acc @ takeWhile (\<lambda>c. \<not> c_blank c) s
      in (if w = [] then [] else [w]) @ cwords (dropWhile (\<lambda>c. \<not> c_blank c) s) [])"
  by (induction s acc rule: cwords.induct) (auto simp: Let_def)

definition word_selects :: "string \<Rightarrow> string \<Rightarrow> bool" where
  "word_selects arg w \<longleftrightarrow> w = arg \<or> (CHR ''='' \<notin> set arg \<and> (\<exists>v. w = arg @ ''='' @ v))"

lemma word_selects_iff:
  assumes "w = takeWhile (\<lambda>c. \<not> c_blank c) p"
  shows "word_selects arg w \<longleftrightarrow>
    (length w = length arg \<and> starts_with arg p) \<or>
    (CHR ''='' \<notin> set arg \<and> length arg < length w \<and> p ! length arg = CHR ''='' \<and> starts_with arg p)"
    (is "?L \<longleftrightarrow> ?R")
proof -
  have tk: "take n p = take n w" if "n \<le> length w" for n
    using that assms by (metis take_all_iff takeWhile_eq_take take_take min.absorb1)
  have nth: "p ! n = w ! n" if "n < length w" for n using that assms by (simp add: takeWhile_nth)
  show ?thesis
  proof
    assume ?L
    then consider "w = arg" | v where "CHR ''='' \<notin> set arg" "w = arg @ ''='' @ v"
      unfolding word_selects_def by blast
    then show ?R
    proof cases
      case 1
      then show ?thesis using tk [of "length arg"] by (simp add: starts_with_take)
    next
      case 2
      then show ?thesis using tk [of "length arg"] nth [of "length arg"]
        by (simp add: starts_with_take nth_append)
    qed
  next
    assume ?R
    then consider "length w = length arg" "starts_with arg p"
      | "CHR ''='' \<notin> set arg" "length arg < length w" "p ! length arg = CHR ''=''" "starts_with arg p"
      by blast
    then show ?L
    proof cases
      case 1
      then show ?thesis using tk [of "length arg"] by (simp add: starts_with_take word_selects_def)
    next
      case 2
      then have "w = take (length arg) w @ w ! length arg # drop (Suc (length arg)) w"
        by (simp add: id_take_nth_drop)
      then have "w = arg @ ''='' @ drop (Suc (length arg)) w"
        using 2 tk [of "length arg"] nth [of "length arg"] by (simp add: starts_with_take)
      then show ?thesis using 2 by (auto simp: word_selects_def)
    qed
  qed
qed

lemma cmdline_word_match_rec:
  "cmdline_word_match s arg \<longleftrightarrow>
     (let p = dropWhile c_blank s; w = takeWhile (\<lambda>c. \<not> c_blank c) p
      in w \<noteq> [] \<and> (word_selects arg w \<or> cmdline_word_match (drop (length w) p) arg))"
  by (subst cmdline_word_match.simps)
    (simp only: Let_def word_selects_iff [OF refl] length_0_conv if_bool_eq_disj, blast)

text \<open>A kernel command line selects an argument exactly when one of its blank-separated words is that
  argument, or the argument followed by an equals sign and a value: never by a substring of a word.\<close>

theorem cmdline_word_match_iff:
  "cmdline_word_match s arg \<longleftrightarrow> (\<exists>w\<in>set (cwords s []). word_selects arg w)"
proof (induction s arg rule: cmdline_word_match.induct)
  case (1 s arg)
  let ?p = "dropWhile c_blank s"
  let ?w = "takeWhile (\<lambda>c. \<not> c_blank c) ?p"
  have dw: "drop (length ?w) ?p = dropWhile (\<lambda>c. \<not> c_blank c) ?p"
    by (rule dropWhile_eq_drop [symmetric])
  have cw: "cwords s [] = (if ?w = [] then [] else [?w]) @ cwords (drop (length ?w) ?p) []"
    using cwords_word [of ?p "[]"] by (simp add: cwords_skip dw)
  have emp: "cwords (drop (length ?w) ?p) [] = []" if "?w = []"
  proof -
    have "?p = []" using that hd_dropWhile [of c_blank s] by (cases ?p) auto
    then show ?thesis by (simp only: drop_Nil cwords.simps refl if_True)
  qed
  show ?case
  proof (cases "?w = []")
    case True
    then have "\<not> cmdline_word_match s arg"
      by (simp only: cmdline_word_match_rec [of s arg] Let_def simp_thms)
    moreover have "cwords s [] = []" using cw emp True by simp
    ultimately show ?thesis by simp
  next
    case False
    then have "cmdline_word_match s arg \<longleftrightarrow> word_selects arg ?w \<or> cmdline_word_match (drop (length ?w) ?p) arg"
      by (simp only: cmdline_word_match_rec [of s arg] Let_def simp_thms)
    moreover have "word_selects arg ?w \<or>
        cmdline_word_match (drop (length ?w) ?p) arg =
          (\<exists>w\<in>set (cwords (drop (length ?w) ?p) []). word_selects arg w)"
      using False "1.IH" [OF refl refl refl] word_selects_iff [OF refl, of arg ?p]
      by (simp only: length_0_conv) blast
    ultimately show ?thesis using cw False by auto
  qed
qed

theorem cmdline_word_match_iff_witness:
  "cmdline_word_match ''quiet schema.rescue=1'' ''schema.rescue'' \<and> \<not> cmdline_word_match ''norescue'' ''rescue''"
  by (simp only: cmdline_word_match_iff) (simp add: word_selects_def c_blank_def)

text \<open>C17. An \<^verbatim>\<open>on_calendar=\<close> value the parser accepts names at least one hour, only hours of a day, a
  minute of an hour, and at most one of a weekday and a day of the month, each in its range; the
  scheduler's searches never meet a field they cannot match.\<close>

theorem parse_calendar_fields_range:
  assumes "parse_calendar_fields val = Some cf"
  shows "(\<exists>h<24. bit (cal_hour_mask cf) h) \<and> (\<forall>h. bit (cal_hour_mask cf) h \<longrightarrow> h < 24) \<and>
    0 \<le> cal_min cf \<and> cal_min cf \<le> 59 \<and> (cal_dow cf = -1 \<or> cal_dom cf = -1) \<and>
    -1 \<le> cal_dow cf \<and> cal_dow cf \<le> 6 \<and> (cal_dom cf = -1 \<or> 1 \<le> cal_dom cf \<and> cal_dom cf \<le> 31)"
proof -
  from assms obtain dw dm p pe where "calendar_prefix val = Some (dw, dm, p, pe)"
      "calendar_time (dw, dm, p, pe) = Some cf"
    by (auto simp: parse_calendar_fields_def split: option.splits prod.splits)
  then show ?thesis using calendar_prefix_range [of val] calendar_time_range [of dw dm p pe cf] by auto
qed

theorem parse_calendar_fields_range_witness:
  "\<exists>cf. parse_calendar_fields ''Mon 6,18:05'' = Some cf \<and>
     (\<exists>h<24. bit (cal_hour_mask cf) h) \<and> cal_min cf \<le> 59 \<and> cal_dow cf \<le> 6"
proof -
  obtain cf where cf: "parse_calendar_fields ''Mon 6,18:05'' = Some cf"
    by (cases "parse_calendar_fields ''Mon 6,18:05''") (code_simp, simp)
  then show ?thesis using parse_calendar_fields_range [OF cf] by blast
qed

text \<open>C16. Where the C library's \<^verbatim>\<open>mktime\<close> puts later days and later hours of a day later, the next
  instant of a calendar timer is the earliest one: it lies strictly in the future, on a day the
  timer names, and no other instant of the timer within the 400 days searched comes between.\<close>

theorem calendar_next_after_earliest:
  assumes mono: "\<forall>x\<in>set (calendar_slots hm [0..<24]). \<forall>y\<in>set (calendar_slots hm [0..<24]). slot_lt x y \<longrightarrow>
      calendar_at lt mk after mins (int (fst x)) (snd x) < calendar_at lt mk after mins (int (fst y)) (snd y)"
    and d: "d \<le> 400" and h: "h < 24" "bit hm h"
    and t: "t = calendar_at lt mk after mins (int d) h" "t \<noteq> -1" "after < t"
      "calendar_day_matches dow mdom (tm_wday (lt t)) (tm_mday (lt t))"
  shows "after < calendar_next_after lt mk hm mins dow mdom after \<and>
    calendar_next_after lt mk hm mins dow mdom after \<le> t \<and>
    calendar_day_matches dow mdom (tm_wday (lt (calendar_next_after lt mk hm mins dow mdom after)))
      (tm_mday (lt (calendar_next_after lt mk hm mins dow mdom after)))"
proof -
  let ?P = "calendar_hit lt mk mins dow mdom after"
  let ?S = "calendar_slots hm [0..<24]"
  have y: "(d, h) \<in> set ?S" "?P (d, h)"
    using d h t by (simp_all add: set_calendar_slots calendar_hit_def Let_def)
  then obtain x where x: "List.find ?P ?S = Some x"
    by (cases "List.find ?P ?S") (auto simp: find_None_iff)
  obtain d' h' where x': "x = (d', h')" by (cases x)
  have f: "?P x \<and> x \<in> set ?S \<and> ((d, h) = x \<or> slot_lt x (d, h))"
    by (rule find_sorted_first [OF sorted_slots x y])
  have n: "calendar_next_after lt mk hm mins dow mdom after = calendar_at lt mk after mins (int d') h'"
    by (simp add: calendar_next_after_find x x')
  have "calendar_at lt mk after mins (int d') h' \<le> t"
    using f mono y x' t(1) by fastforce
  then show ?thesis using f unfolding n x' by (simp add: calendar_hit_def Let_def)
qed

definition flat_localtime :: "int \<Rightarrow> tm" where
  "flat_localtime t = \<lparr>tm_year = 100, tm_mon = 0, tm_mday = t div 86400 + 1, tm_hour = t mod 86400 div 3600,
     tm_min = t mod 3600 div 60, tm_sec = t mod 60, tm_wday = (t div 86400 + 6) mod 7, tm_isdst = 0\<rparr>"

definition flat_mktime :: "tm \<Rightarrow> int" where
  "flat_mktime b = (tm_mday b - 1) * 86400 + tm_hour b * 3600 + tm_min b * 60 + tm_sec b"

theorem calendar_next_after_earliest_witness:
  "0 < calendar_next_after flat_localtime flat_mktime 0x40 30 1 (-1) 0 \<and>
   calendar_next_after flat_localtime flat_mktime 0x40 30 1 (-1) 0 \<le> 196200"
proof -
  have "\<forall>x\<in>set (calendar_slots 0x40 [0..<24]). \<forall>y\<in>set (calendar_slots 0x40 [0..<24]). slot_lt x y \<longrightarrow>
      calendar_at flat_localtime flat_mktime 0 30 (int (fst x)) (snd x)
        < calendar_at flat_localtime flat_mktime 0 30 (int (fst y)) (snd y)"
    by (auto simp: set_calendar_slots slot_lt_def calendar_at_def flat_localtime_def flat_mktime_def)
  moreover have "(196200 :: int) = calendar_at flat_localtime flat_mktime 0 30 (int 2) 6"
    by (simp add: calendar_at_def flat_localtime_def flat_mktime_def)
  moreover have "calendar_day_matches 1 (-1) (tm_wday (flat_localtime 196200)) (tm_mday (flat_localtime 196200))"
    by (simp add: calendar_day_matches_def flat_localtime_def)
  ultimately show ?thesis
    using calendar_next_after_earliest [of "0x40" flat_localtime flat_mktime 0 30 2 6 196200 1 "-1"] by simp
qed

end
