(* ===== verification/SI_Lines.thy ===== *)
theory SI_Lines
  imports SI_Prelude
begin

text \<open>
  \<^verbatim>\<open>svc_dropins.h\<close>: the bounded line reader shared by the \<^verbatim>\<open>.svc\<close> and \<^verbatim>\<open>.grp\<close> parsers, the trust test
  on configuration directories, and the selection and order of drop-in files. A \<^verbatim>\<open>FILE *\<close> is the
  part of its contents not read yet; file contents carry no NUL byte.
\<close>

section \<open>The line reader\<close>

abbreviation (input) NL :: char where "NL \<equiv> CHR 0x0A"

text \<open>\<^verbatim>\<open>fgets(buf, n + 1, f)\<close>: at most \<^verbatim>\<open>n\<close> bytes, up to and including a newline.\<close>

fun c_fgets :: "nat \<Rightarrow> string \<Rightarrow> string \<times> string" where
  "c_fgets 0 s = ([], s)"
| "c_fgets (Suc n) [] = ([], [])"
| "c_fgets (Suc n) (c # cs) =
     (if c = NL then ([c], cs) else (let (b, r) = c_fgets n cs in (c # b, r)))"

datatype line_result = RL_EOF | RL_Line string | RL_Long

definition is_comment_start :: "string \<Rightarrow> bool" where
  "is_comment_start b =
     (case dropWhile (\<lambda>c. c = CHR '' '' \<or> c = CHR 0x09) b of
        [] \<Rightarrow> False
      | c # cs \<Rightarrow> c = CHR ''#'' \<or> c = CHR '';'')"

lemma c_fgets_append: "c_fgets n s = (b, r) \<Longrightarrow> s = b @ r"
  by (induction n s arbitrary: b r rule: c_fgets.induct) (auto split: if_splits prod.splits)

lemma length_c_fgets: "c_fgets n s = (b, r) \<Longrightarrow> length s = length b + length r"
  by (drule c_fgets_append) simp

function (sequential) svc_read_line :: "nat \<Rightarrow> string \<Rightarrow> line_result \<times> string" where
  "svc_read_line len s =
     (case c_fgets (len - 1) s of (buf, r) \<Rightarrow>
        if buf = [] then (RL_EOF, r)
        else if NL \<in> set buf then (RL_Line buf, r)
        else (case r of
                [] \<Rightarrow> (RL_Line buf, [])
              | c # cs \<Rightarrow>
                  if c = NL then (RL_Line buf, cs)
                  else (let rest = drop 1 (dropWhile (\<lambda>c. c \<noteq> NL) cs)
                        in if \<not> is_comment_start buf then (RL_Long, rest)
                           else svc_read_line len rest)))"
  by pat_completeness auto
termination
proof (relation "measure (\<lambda>(len, s). length s)", goal_cases)
  case 1
  then show ?case by simp
next
  case (2 len s buf r c cs rest)
  have "length (dropWhile (\<lambda>c. c \<noteq> NL) cs) \<le> length cs" by (rule length_dropWhile_le)
  then have "length rest \<le> length cs" using 2 by simp
  with 2 length_c_fgets [of "len - 1" s buf r] show ?case by (cases buf) auto
qed

declare svc_read_line.simps [simp del]

text \<open>What the callers' loop \<^verbatim>\<open>while ((r = svc_read_line(f, line, n)) != 0)\<close> sees, line by line.\<close>

lemma svc_read_line_shorter:
  "svc_read_line len s = (res, r) \<Longrightarrow> res \<noteq> RL_EOF \<Longrightarrow> length r < length s"
proof (induction len s arbitrary: res r rule: svc_read_line.induct)
  case (1 len s)
  obtain buf q where f: "c_fgets (len - 1) s = (buf, q)" by (cases "c_fgets (len - 1) s")
  have l: "length s = length buf + length q" using f by (rule length_c_fgets)
  show ?case
  proof (cases "buf = [] \<or> NL \<in> set buf \<or> q = [] \<or> hd q = NL")
    case True
    with 1 f l show ?thesis
      by (auto simp: svc_read_line.simps [of len s] split: list.splits if_splits)
  next
    case False
    then obtain c cs where q: "q = c # cs" "c \<noteq> NL" by (cases q) auto
    let ?rest = "drop 1 (dropWhile (\<lambda>c. c \<noteq> NL) cs)"
    have d: "length ?rest \<le> length cs" using length_dropWhile_le [of "\<lambda>c. c \<noteq> NL" cs] by simp
    show ?thesis
    proof (cases "is_comment_start buf")
      case True
      then have "svc_read_line len s = svc_read_line len ?rest"
        using False f q by (subst svc_read_line.simps) simp
      with 1 f q False True d l show ?thesis by fastforce
    next
      case nc: False
      then have "svc_read_line len s = (RL_Long, ?rest)"
        using False f q by (subst svc_read_line.simps) simp
      with 1 d l q show ?thesis by auto
    qed
  qed
qed

function svc_lines :: "nat \<Rightarrow> string \<Rightarrow> line_result list" where
  "svc_lines len s =
     (case svc_read_line len s of (res, r) \<Rightarrow> if res = RL_EOF then [] else res # svc_lines len r)"
  by pat_completeness auto
termination
  by (relation "measure (\<lambda>(len, s). length s)") (auto dest: svc_read_line_shorter [OF sym])

declare svc_lines.simps [simp del]

section \<open>Drop-in files\<close>

definition svc_dir_trusted :: "nat \<Rightarrow> nat \<Rightarrow> u32 \<Rightarrow> bool \<Rightarrow> bool" where
  "svc_dir_trusted euid st_uid st_mode allow_sticky \<longleftrightarrow>
     (st_uid = 0 \<or> st_uid = euid) \<and>
     (st_mode AND 0x12 = 0 \<or> (allow_sticky \<and> st_mode AND 0x200 \<noteq> 0))"

definition ends_with :: "string \<Rightarrow> string \<Rightarrow> bool" where
  "ends_with suf s \<longleftrightarrow> length suf \<le> length s \<and> drop (length s - length suf) s = suf"

definition svc_dropin_filter :: "string \<Rightarrow> bool" where
  "svc_dropin_filter d_name \<longleftrightarrow>
     (d_name = [] \<or> hd d_name \<noteq> CHR ''.'') \<and> length d_name > 5 \<and> ends_with ''.conf'' d_name"

section \<open>What the reader delivers\<close>

definition file_of :: "string list \<Rightarrow> string" where
  "file_of ls = concat (map (\<lambda>l. l @ [NL]) ls)"

definition svc_line_of :: "nat \<Rightarrow> string \<Rightarrow> line_result list" where
  "svc_line_of len l =
     (if length l < len - 1 then [RL_Line (l @ [NL])]
      else if length l = len - 1 then [RL_Line l]
      else if is_comment_start (take (len - 1) l) then []
      else [RL_Long])"

lemma c_fgets_short: "NL \<notin> set l \<Longrightarrow> length l < n \<Longrightarrow> c_fgets n (l @ NL # r) = (l @ [NL], r)"
proof (induction l arbitrary: n)
  case Nil
  then show ?case by (cases n) auto
next
  case (Cons a l)
  then show ?case by (cases n) auto
qed

lemma c_fgets_long: "NL \<notin> set l \<Longrightarrow> n \<le> length l \<Longrightarrow> c_fgets n (l @ r) = (take n l, drop n l @ r)"
proof (induction l arbitrary: n)
  case Nil
  then show ?case by simp
next
  case (Cons a l)
  then show ?case by (cases n) auto
qed

lemma svc_lines_step:
  assumes "2 \<le> len" "NL \<notin> set l"
  shows "svc_lines len (l @ NL # r) = svc_line_of len l @ svc_lines len r"
proof -
  consider (short) "length l < len - 1" | (exact) "length l = len - 1" | (long) "len - 1 < length l"
    by linarith
  then show ?thesis
  proof cases
    case short
    then have "svc_read_line len (l @ NL # r) = (RL_Line (l @ [NL]), r)"
      using assms by (subst svc_read_line.simps) (simp add: c_fgets_short)
    with short show ?thesis by (simp add: svc_lines.simps [of len "l @ NL # r"] svc_line_of_def)
  next
    case exact
    then have "svc_read_line len (l @ NL # r) = (RL_Line l, r)"
      using assms by (subst svc_read_line.simps) (auto simp: c_fgets_long)
    with exact show ?thesis by (simp add: svc_lines.simps [of len "l @ NL # r"] svc_line_of_def)
  next
    case long
    then obtain c cs where d: "drop (len - 1) l = c # cs" by (cases "drop (len - 1) l") auto
    then have nl: "c \<noteq> NL" "NL \<notin> set cs" "NL \<notin> set (take (len - 1) l)"
      using assms(2) by (metis in_set_dropD list.set_intros(1), metis in_set_dropD list.set_intros(2),
          metis in_set_takeD)
    have t: "take (len - 1) l \<noteq> []" using long assms by (cases l) auto
    have w: "drop 1 (dropWhile (\<lambda>c. c \<noteq> NL) (cs @ NL # r)) = r"
      using nl(2) by (induction cs) auto
    have "svc_read_line len (l @ NL # r) =
        (if is_comment_start (take (len - 1) l) then svc_read_line len r else (RL_Long, r))"
      using long assms d nl t w by (subst svc_read_line.simps) (simp add: c_fgets_long)
    with long show ?thesis
      by (simp add: svc_lines.simps [of len "l @ NL # r"] svc_lines.simps [of len r] svc_line_of_def)
  qed
qed

text \<open>C21. Reading a file of lines with \<^verbatim>\<open>svc_read_line\<close> and a buffer of \<^verbatim>\<open>len\<close> bytes delivers every
  line that fits, in order and whole; a line that does not fit is one error and costs no other line
  anything, unless it is a comment, which is skipped.\<close>

theorem svc_read_line_delivers:
  assumes "2 \<le> len" "\<forall>l\<in>set ls. NL \<notin> set l"
  shows "svc_lines len (file_of ls) = concat (map (svc_line_of len) ls)"
  using assms(2)
proof (induction ls)
  case Nil
  have "svc_read_line len [] = (RL_EOF, [])"
    by (subst svc_read_line.simps, cases "len - 1") auto
  then show ?case by (simp add: file_of_def svc_lines.simps [of len "[]"])
next
  case (Cons l ls)
  then show ?case using svc_lines_step [OF assms(1), of l "file_of ls"]
    by (simp add: file_of_def)
qed

theorem svc_read_line_delivers_witness:
  "svc_lines 4 (file_of [''a'', ''#long comment'', ''toolong'', ''b'']) =
     concat (map (svc_line_of 4) [''a'', ''#long comment'', ''toolong'', ''b''])"
  by (rule svc_read_line_delivers) auto

end
