(* ===== verification/SI_Group.thy ===== *)
theory SI_Group
  imports SI_Schema SI_Lines
begin

text \<open>
  Service groups (\<^verbatim>\<open>group.h\<close>, \<^verbatim>\<open>group.c\<close>): the group record, the aggregate of its members' states,
  the pass that recomputes every group, and the parser of \<^verbatim>\<open>.grp\<close> files. A group's log line is the
  value \<^verbatim>\<open>group_log\<close> prints less its time of day.
\<close>

abbreviation (input) MAX_GROUPS :: nat where "MAX_GROUPS \<equiv> 16"
abbreviation (input) MAX_MEMBERS :: nat where "MAX_MEMBERS \<equiv> 8"

record group_t =
  grp_name :: string
  grp_member_name :: "string list"
  grp_member_idx :: "int list"
  grp_member_count :: nat
  grp_state :: u8
  grp_refused :: bool

section \<open>Aggregation\<close>

fun aggregate_loop :: "int list \<Rightarrow> u8 list \<Rightarrow> bool \<Rightarrow> bool \<Rightarrow> bool \<Rightarrow> u8" where
  "aggregate_loop [] svc_states any_starting all_perfect any_settled =
     (if any_starting then STATE_NEW_PROCESS
      else if all_perfect then STATE_PERFECT
      else if any_settled then STATE_SETTLED
      else STATE_FUNDAMENTAL)"
| "aggregate_loop (idx # idxs) svc_states any_starting all_perfect any_settled =
     (if idx < 0 \<or> int (length svc_states) \<le> idx then STATE_NEW_PROCESS
      else let s = svc_states ! nat idx in
        if s = STATE_EXCISED then STATE_EXCISED
        else if s = STATE_FRICTION then STATE_FRICTION
        else if s = STATE_RECOVERY then STATE_RECOVERY
        else aggregate_loop idxs svc_states
               (any_starting \<or> s = STATE_NEW_PROCESS \<or> s = STATE_FULL_TRUST)
               (all_perfect \<and> s = STATE_PERFECT)
               (any_settled \<or> s = STATE_SETTLED))"

definition aggregate :: "int list \<Rightarrow> nat \<Rightarrow> u8 list \<Rightarrow> u8" where
  "aggregate idxs count svc_states =
     (if count = 0 then STATE_PERFECT
      else aggregate_loop (take count idxs) svc_states False True False)"

definition group_state_label :: "u8 \<Rightarrow> string" where
  "group_state_label s =
     (if s = STATE_FUNDAMENTAL then ''fundamental''
      else if s = STATE_SETTLED then ''settled''
      else if s = STATE_PERFECT then ''perfect''
      else if s = STATE_NEW_PROCESS then ''new-process''
      else if s = STATE_RECOVERY then ''recovery''
      else if s = STATE_FRICTION then ''friction''
      else if s = STATE_EXCISED then ''excised''
      else ''?'')"

type_synonym group_log_line = "string \<times> string \<times> string \<times> nat"

definition group_log :: "group_t \<Rightarrow> string \<Rightarrow> group_log_line" where
  "group_log grp event = (grp_name grp, event, group_state_label (grp_state grp), grp_member_count grp)"

definition group_update :: "u8 list \<Rightarrow> group_t \<Rightarrow> group_t \<times> group_log_line list" where
  "group_update svc_states g =
     (let g' = g\<lparr>grp_state := (if grp_refused g then STATE_EXCISED
                  else aggregate (grp_member_idx g) (grp_member_count g) svc_states)\<rparr>
      in (g', if grp_state g' \<noteq> grp_state g then [group_log g' ''state-change''] else []))"

definition groups_update :: "group_t list \<Rightarrow> u8 list \<Rightarrow> group_t list \<times> group_log_line list" where
  "groups_update gtable svc_states =
     (map (fst \<circ> group_update svc_states) gtable,
      concat (map (snd \<circ> group_update svc_states) gtable))"

section \<open>Loading\<close>

definition group_empty :: group_t where
  "group_empty = \<lparr>grp_name = [], grp_member_name = [], grp_member_idx = replicate MAX_MEMBERS (-1),
     grp_member_count = 0, grp_state = STATE_NEW_PROCESS, grp_refused = False\<rparr>"

definition group_line :: "line_result \<Rightarrow> group_t \<Rightarrow> group_t" where
  "group_line r grp =
     (case r of
        RL_Line line \<Rightarrow>
          if CHR ''='' \<notin> set line then grp
          else
            (let key = takeWhile (\<lambda>c. c \<noteq> CHR ''='') line;
                 val = takeWhile (\<lambda>c. c \<noteq> CHR 0x0D \<and> c \<noteq> NL)
                         (tl (dropWhile (\<lambda>c. c \<noteq> CHR ''='') line))
             in if key = ''name'' then grp\<lparr>grp_name := take 63 val\<rparr>
                else if key = ''member'' then
                  (if MAX_MEMBERS \<le> grp_member_count grp then grp\<lparr>grp_refused := True\<rparr>
                   else grp\<lparr>grp_member_name := grp_member_name grp @ [take 63 val],
                            grp_member_count := grp_member_count grp + 1\<rparr>)
                else grp)
      | _ \<Rightarrow> grp)"

definition group_parse :: "string \<Rightarrow> group_t" where
  "group_parse text = fold group_line (svc_lines 512 text) group_empty"

text \<open>The directory is the list of its entries in \<^verbatim>\<open>readdir\<close> order, each with its contents,
  \<^verbatim>\<open>None\<close> when \<^verbatim>\<open>fopen\<close> fails; a directory that cannot be opened is \<^verbatim>\<open>None\<close>.\<close>

fun groups_load_loop :: "(string \<times> string option) list \<Rightarrow> nat \<Rightarrow> group_t list \<Rightarrow> group_t list" where
  "groups_load_loop [] max_n table = table"
| "groups_load_loop ((d_name, contents) # ents) max_n table =
     (if length d_name < 5 \<or> \<not> ends_with ''.grp'' d_name then groups_load_loop ents max_n table
      else if max_n \<le> length table then groups_load_loop ents max_n table
      else case contents of
          None \<Rightarrow> groups_load_loop ents max_n table
        | Some text \<Rightarrow>
            let grp = group_parse text
            in groups_load_loop ents max_n (if grp_name grp = [] then table else table @ [grp]))"

definition groups_load :: "(string \<times> string option) list option \<Rightarrow> nat \<Rightarrow> group_t list" where
  "groups_load dir max_n = (case dir of None \<Rightarrow> [] | Some ents \<Rightarrow> groups_load_loop ents max_n [])"

section \<open>Properties\<close>

definition stable_state :: "u8 \<Rightarrow> bool" where
  "stable_state s \<longleftrightarrow> s = STATE_FUNDAMENTAL \<or> s = STATE_SETTLED \<or> s = STATE_PERFECT"

definition member_quiet :: "u8 list \<Rightarrow> int \<Rightarrow> bool" where
  "member_quiet sts i \<longleftrightarrow> 0 \<le> i \<and> i < int (length sts) \<and>
     sts ! nat i \<notin> {STATE_EXCISED, STATE_FRICTION, STATE_RECOVERY, STATE_NEW_PROCESS, STATE_FULL_TRUST}"

lemma aggregate_loop_Cons:
  assumes "0 \<le> i" "i < int (length sts)"
    "sts ! nat i \<notin> {STATE_EXCISED, STATE_FRICTION, STATE_RECOVERY}"
  shows "aggregate_loop (i # idxs) sts st pf se =
     aggregate_loop idxs sts
       (st \<or> sts ! nat i = STATE_NEW_PROCESS \<or> sts ! nat i = STATE_FULL_TRUST)
       (pf \<and> sts ! nat i = STATE_PERFECT) (se \<or> sts ! nat i = STATE_SETTLED)"
  using assms by (simp add: Let_def)

lemma aggregate_loop_bad:
  assumes "\<not> (0 \<le> i \<and> i < int (length sts) \<and>
      sts ! nat i \<notin> {STATE_EXCISED, STATE_FRICTION, STATE_RECOVERY})"
  shows "aggregate_loop (i # idxs) sts st pf se \<in>
      {STATE_EXCISED, STATE_FRICTION, STATE_RECOVERY, STATE_NEW_PROCESS}"
proof (cases "0 \<le> i \<and> i < int (length sts)")
  case True
  with assms have "sts ! nat i \<in> {STATE_EXCISED, STATE_FRICTION, STATE_RECOVERY}" by blast
  then show ?thesis using True by (elim insertE emptyE) (simp_all add: Let_def)
next
  case False
  then have "i < 0 \<or> int (length sts) \<le> i" by linarith
  then show ?thesis by simp
qed

lemma bad_not_stable:
  "s \<in> {STATE_EXCISED, STATE_FRICTION, STATE_RECOVERY, STATE_NEW_PROCESS} \<Longrightarrow> \<not> stable_state s"
  by (elim insertE emptyE) (simp_all add: stable_state_def)

lemma aggregate_loop_stable:
  "stable_state (aggregate_loop idxs sts st pf se) \<longleftrightarrow> \<not> st \<and> (\<forall>i\<in>set idxs. member_quiet sts i)"
proof (induction idxs arbitrary: st pf se)
  case Nil
  show ?case by (simp add: stable_state_def)
next
  case (Cons i idxs)
  show ?case
  proof (cases "0 \<le> i \<and> i < int (length sts) \<and>
      sts ! nat i \<notin> {STATE_EXCISED, STATE_FRICTION, STATE_RECOVERY}")
    case True
    have q: "member_quiet sts i \<longleftrightarrow> \<not> (sts ! nat i = STATE_NEW_PROCESS \<or> sts ! nat i = STATE_FULL_TRUST)"
      using True by (simp only: member_quiet_def insert_iff empty_iff) blast
    have "aggregate_loop (i # idxs) sts st pf se =
        aggregate_loop idxs sts
          (st \<or> sts ! nat i = STATE_NEW_PROCESS \<or> sts ! nat i = STATE_FULL_TRUST)
          (pf \<and> sts ! nat i = STATE_PERFECT) (se \<or> sts ! nat i = STATE_SETTLED)"
      using True by (intro aggregate_loop_Cons) blast+
    then show ?thesis using q by (simp only: Cons.IH list.set ball_simps) blast
  next
    case False
    then have "\<not> stable_state (aggregate_loop (i # idxs) sts st pf se)"
      by (intro bad_not_stable aggregate_loop_bad)
    moreover from False have "\<not> member_quiet sts i"
      by (simp only: member_quiet_def insert_iff) blast
    ultimately show ?thesis by simp
  qed
qed

text \<open>Well-formed groups: the member arrays hold what \<^verbatim>\<open>member_count\<close> says.\<close>

definition group_wf :: "group_t \<Rightarrow> bool" where
  "group_wf g \<longleftrightarrow> grp_member_count g = length (grp_member_name g) \<and>
     grp_member_count g \<le> MAX_MEMBERS \<and> length (grp_member_idx g) = MAX_MEMBERS \<and>
     length (grp_name g) \<le> 63 \<and> (\<forall>m\<in>set (grp_member_name g). length m \<le> 63)"

lemma group_wf_empty: "group_wf group_empty"
  by (simp add: group_wf_def group_empty_def)

lemma group_wf_line: "group_wf g \<Longrightarrow> group_wf (group_line r g)"
  by (auto simp: group_wf_def group_line_def Let_def split: line_result.splits)

lemma group_wf_fold: "group_wf g \<Longrightarrow> group_wf (fold group_line rs g)"
  by (induction rs arbitrary: g) (auto intro: group_wf_line)

lemma group_wf_parse: "group_wf (group_parse text)"
  by (simp add: group_parse_def group_wf_fold group_wf_empty)

definition groups_ok :: "nat \<Rightarrow> group_t list \<Rightarrow> bool" where
  "groups_ok max_n table \<longleftrightarrow> length table \<le> max_n \<and> (\<forall>g\<in>set table. group_wf g \<and> grp_name g \<noteq> [])"

lemma groups_ok_append:
  "groups_ok n table \<Longrightarrow> length table < n \<Longrightarrow> grp_name (group_parse t) \<noteq> [] \<Longrightarrow>
   groups_ok n (table @ [group_parse t])"
  by (simp add: groups_ok_def group_wf_parse)

lemma groups_load_loop_ok: "groups_ok n table \<Longrightarrow> groups_ok n (groups_load_loop ents n table)"
proof (induction ents n table rule: groups_load_loop.induct)
  case (1 n table)
  then show ?case by simp
next
  case (2 d_name contents ents n table)
  show ?case
  proof (cases "length d_name < 5 \<or> \<not> ends_with ''.grp'' d_name \<or> n \<le> length table")
    case True
    with 2 show ?thesis by (cases "length d_name < 5 \<or> \<not> ends_with ''.grp'' d_name") simp_all
  next
    case False
    with 2 show ?thesis
      by (cases contents) (simp_all add: Let_def groups_ok_append)
  qed
qed



text \<open>Loading the group directory never writes past the table or past a group's member array:
  at most \<^verbatim>\<open>max_n\<close> groups, each named, with as many member names as it counts, at most
  \<^verbatim>\<open>MAX_MEMBERS\<close> of them, and every name within its 64-byte field.\<close>

theorem groups_load_within_arrays:
  "length (groups_load dir n) \<le> n \<and>
   list_all (\<lambda>g. grp_name g \<noteq> [] \<and> length (grp_name g) \<le> 63 \<and>
     grp_member_count g = length (grp_member_name g) \<and> grp_member_count g \<le> MAX_MEMBERS \<and>
     list_all (\<lambda>m. length m \<le> 63) (grp_member_name g)) (groups_load dir n)"
proof -
  have "groups_ok n (groups_load dir n)"
    using groups_load_loop_ok [of n "[]"]
    by (cases dir) (simp_all add: groups_load_def groups_ok_def)
  then show ?thesis by (auto simp: groups_ok_def group_wf_def list_all_iff)
qed

end
