(* ===== verification/SI_Service.thy ===== *)
theory SI_Service
  imports SI_Schema SI_Timing SI_Group
begin

text \<open>
  The service record of \<^verbatim>\<open>service.h\<close> and the operations of \<^verbatim>\<open>service.c\<close> PID 1 runs on it: flag
  probes, fallback and standby lookup, \<^verbatim>\<open>condition=\<close> checks, dependency readiness, sockets,
  cgroup limits and the parent's half of a spawn.

  \<^verbatim>\<open>service_t\<close> is a record in two parts: \<^verbatim>\<open>svc_config\<close> holds what the \<^verbatim>\<open>.svc\<close> parser sets, the
  extension what the engine changes while it runs. What the kernel answers is a record
  \<^verbatim>\<open>sysenv\<close> given to each operation; one operation sees one clock instant. What an operation
  does to the outside world is a list of \<^verbatim>\<open>effect\<close> values in program order. A pointer into the
  service table is an index.
\<close>

section \<open>Constants\<close>

abbreviation (input) MAX_SERVICES :: nat where "MAX_SERVICES \<equiv> 128"
abbreviation (input) MAX_DEPS :: nat where "MAX_DEPS \<equiv> 8"
abbreviation (input) COOLDOWN_SECS :: int where "COOLDOWN_SECS \<equiv> 5"
abbreviation (input) RESTART_RESET_SECS :: int where "RESTART_RESET_SECS \<equiv> 300"
abbreviation (input) CARD_TIMEOUT_SECS :: int where "CARD_TIMEOUT_SECS \<equiv> 30"
abbreviation (input) ONESHOT_START_TIMEOUT :: int where "ONESHOT_START_TIMEOUT \<equiv> 90"
abbreviation (input) MEM_MIN_KB :: int where "MEM_MIN_KB \<equiv> 8192"

text \<open>\<^verbatim>\<open>SVC_*\<close> flags by bit position.\<close>

abbreviation (input) SVC_ONESHOT :: nat where "SVC_ONESHOT \<equiv> 0"
abbreviation (input) SVC_NEEDS_ROOT :: nat where "SVC_NEEDS_ROOT \<equiv> 1"
abbreviation (input) SVC_CRITICAL :: nat where "SVC_CRITICAL \<equiv> 2"
abbreviation (input) SVC_NO_RESTART :: nat where "SVC_NO_RESTART \<equiv> 3"
abbreviation (input) SVC_TIMER :: nat where "SVC_TIMER \<equiv> 4"
abbreviation (input) SVC_TIMER_CALENDAR :: nat where "SVC_TIMER_CALENDAR \<equiv> 5"
abbreviation (input) SVC_TIMER_PERSIST :: nat where "SVC_TIMER_PERSIST \<equiv> 6"
abbreviation (input) SVC_NO_NEW_PRIVS :: nat where "SVC_NO_NEW_PRIVS \<equiv> 7"
abbreviation (input) SVC_STOP_FIRST :: nat where "SVC_STOP_FIRST \<equiv> 8"
abbreviation (input) SVC_MAIN_PID_NOTIFY :: nat where "SVC_MAIN_PID_NOTIFY \<equiv> 9"

datatype excise_reason_t =
    EXC_NONE | EXC_BREAKER | EXC_START_TIMEOUT | EXC_MAIN_PID_TIMEOUT | EXC_EXIT_CODE
  | EXC_SIGNAL | EXC_CORE_DUMP | EXC_READINESS_LOST | EXC_NO_CGROUP | EXC_LISTEN_FAIL
  | EXC_FUSE | EXC_PROBE | EXC_BIND

datatype ready_how = READY_UNSET | READY_NOTIFY | READY_BUS | READY_PATH | READY_TIMER | READY_EXIT
  | READY_PIDFILE | READY_SOCKET | READY_CONDITION

datatype partition_t = PART_MEMBER | PART_ROOT | PART_ISOLATED

section \<open>The service record\<close>

text \<open>What the parser stores for the forked child alone. \<^verbatim>\<open>argv[0]\<close> is the service's \<^verbatim>\<open>exec\<close>, so
  \<^verbatim>\<open>argv\<close> holds the rest; the read-write bit of a landlock path is beside the path; a list of TCP
  ports is \<^verbatim>\<open>None\<close> where the source has the count -1. \<^verbatim>\<open>hard_*\<close> are by bit: 0 no-new-privs, 1
  private \<^verbatim>\<open>/tmp\<close>, 2 protect-system, 3 protect-home.\<close>

record rlimit_t =
  rl_res :: string
  rl_cur :: u64
  rl_max :: u64

record svc_child_t =
  argv :: "string list"
  envp :: "string list"
  env_file :: "string list"
  expand_args :: bool
  exec_pre :: "string list"
  socket_mode :: int
  socket_user :: string
  socket_group :: string
  run_uid :: u32
  run_gid :: u32
  run_user :: string
  rlim :: "rlimit_t list"
  working_dir :: string
  oom_score_adj :: "int option"
  cap_keep_mask :: u64
  cap_restrict :: bool
  cap_ambient_mask :: u64
  ns_private_tmp :: bool
  ns_protect_system :: u8
  ns_protect_home :: bool
  rw_path :: "string list"
  landlock :: "(string \<times> bool) list"
  landlock_bind :: "u16 list option"
  landlock_connect :: "u16 list option"
  hard_set :: u8
  hard_default :: u8
  hard_dropped :: u8

record svc_config =
  svc_name :: string
  svc_instance :: string
  svc_exec :: string
  svc_child :: svc_child_t
  exec_stop :: "string list"
  exec_stop_post :: "string list"
  cards :: "string list"
  listen :: "string list"
  listen_lazy :: bool
  cond :: "string list"
  dep_name :: "string list"
  max_restarts :: int
  stable_secs :: int
  ready_path :: string
  pid_file :: string
  verify_memory_max :: string
  verify_cpu_max :: string
  verify_pids_max :: string
  wait_socket :: string
  priority :: prio_t
  fuse :: bool
  fuse_cmd :: string
  failsafe_cmd :: string
  failsafe_timeout_ms :: int
  ready_poll_hz :: int
  notify :: bool
  fdstore_max :: int
  ready_bus_name :: string
  no_excise :: bool
  watchdog_timeout_ms :: int
  watchdog_sec :: int
  cpu_limit_pct :: int
  mem_limit_mb :: int
  cpuset :: string
  cpuset_partition :: partition_t
  allowed_slot_min :: int
  allowed_slot_max :: int
  content_hash :: u32
  restart_sec :: int
  no_restart_cfg :: bool
  bind_name :: string
  start_timeout_sec :: int
  stop_timeout_sec :: int
  timer_boot_sec :: int
  timer_interval_sec :: int
  timer_cal_hours :: u32
  timer_cal_min :: int
  timer_cal_dow :: int
  timer_cal_dom :: int

record service_t = svc_config +
  svc_flags :: u32
  dep_idx :: "int list"
  grp_dep_idx :: "int list"
  inst :: schema_instance_t
  child_pid :: int
  last_pid :: int
  restart_count :: int
  stop_pid :: int
  stop_phase :: int
  stop_start :: timespec
  main_pid :: int
  main_wait :: bool
  main_wait_due :: timespec
  main_rejected :: int
  card_next :: nat
  card_pid :: int
  card_start :: timespec
  fallback_live :: bool
  standby_up :: bool
  listen_fd :: "int list"
  listen_open :: nat
  listen_hold :: bool
  last_start :: int
  start_time :: int
  sock_waiting :: bool
  fork_state :: int
  fork_wait :: timespec
  ready_check_ticks :: int
  ready_path_verified :: bool
  ready_stale_dev :: u64
  ready_stale_ino :: u64
  ready_stale_ctime :: timespec
  ready_watched :: int
  notify_ready :: bool
  notify_status :: string
  ctl_killed :: bool
  failsafe_pid :: int
  failsafe_start :: timespec
  last_pet :: timespec
  wd_armed_sec :: int
  wd_abort_at :: timespec
  is_frozen :: bool
  stable_time :: timespec
  exit_status :: int
  term_signal :: int
  core_dumped :: bool
  has_exited :: bool
  cgroup_path :: string
  dormant_until :: timespec
  restart_at :: timespec
  dormant_count :: u8
  circuit_broken :: bool
  excise_reason :: excise_reason_t
  bind_held :: bool
  bind_was_up :: bool
  bind_seen_spawn :: timespec
  bind_held_since :: timespec
  bind_died_at :: timespec
  bind_saved_restarts :: int
  bind_saved_dormant :: u8
  spawn_time_mono :: timespec
  boot_spawn :: timespec
  boot_ready :: timespec
  boot_how :: ready_how
  timer_next :: timespec
  timer_catchup_wait :: bool

abbreviation svc_state :: "service_t \<Rightarrow> u8" where
  "svc_state s \<equiv> state (inst s)"

definition set_state :: "u8 \<Rightarrow> service_t \<Rightarrow> service_t" where
  "set_state st s = s\<lparr>inst := (inst s)\<lparr>state := st\<rparr>\<rparr>"

abbreviation has_flag :: "service_t \<Rightarrow> nat \<Rightarrow> bool" where
  "has_flag s k \<equiv> bit (svc_flags s) k"

definition add_flag :: "nat \<Rightarrow> service_t \<Rightarrow> service_t" where
  "add_flag k s = s\<lparr>svc_flags := set_bit k (svc_flags s)\<rparr>"

definition clear_flag :: "nat \<Rightarrow> service_t \<Rightarrow> service_t" where
  "clear_flag k s = s\<lparr>svc_flags := unset_bit k (svc_flags s)\<rparr>"

text \<open>A service before its file is read.\<close>

abbreviation (input) MAX_RESTARTS :: int where "MAX_RESTARTS \<equiv> 5"
abbreviation (input) STABLE_SECS :: int where "STABLE_SECS \<equiv> 10"

definition svc_child_init :: svc_child_t where
  "svc_child_init =
     \<lparr>argv = [], envp = [], env_file = [], expand_args = False, exec_pre = [], socket_mode = 0,
      socket_user = [], socket_group = [], run_uid = 0, run_gid = 0, run_user = [], rlim = [],
      working_dir = [], oom_score_adj = None, cap_keep_mask = 0, cap_restrict = False,
      cap_ambient_mask = 0, ns_private_tmp = False, ns_protect_system = 0, ns_protect_home = False,
      rw_path = [], landlock = [], landlock_bind = None, landlock_connect = None, hard_set = 0,
      hard_default = 0, hard_dropped = 0\<rparr>"

definition svc_init_defaults :: service_t where
  "svc_init_defaults =
     \<lparr>svc_name = [], svc_instance = [], svc_exec = [], svc_child = svc_child_init, exec_stop = [],
      exec_stop_post = [], cards = [], listen = [], listen_lazy = False, cond = [],
      dep_name = replicate MAX_DEPS [], max_restarts = MAX_RESTARTS, stable_secs = STABLE_SECS,
      ready_path = [], pid_file = [], verify_memory_max = [], verify_cpu_max = [],
      verify_pids_max = [], wait_socket = [], priority = PRIO_STANDARD, fuse = False, fuse_cmd = [],
      failsafe_cmd = [], failsafe_timeout_ms = 0, ready_poll_hz = 0, notify = False, fdstore_max = 0,
      ready_bus_name = [], no_excise = False, watchdog_timeout_ms = 0, watchdog_sec = 0,
      cpu_limit_pct = 0, mem_limit_mb = 0, cpuset = [], cpuset_partition = PART_MEMBER,
      allowed_slot_min = -1, allowed_slot_max = -1, content_hash = 0, restart_sec = 0,
      no_restart_cfg = False, bind_name = [], start_timeout_sec = -1, stop_timeout_sec = 0,
      timer_boot_sec = 0, timer_interval_sec = 0, timer_cal_hours = 0, timer_cal_min = 0,
      timer_cal_dow = -1, timer_cal_dom = -1,
      svc_flags = 0, dep_idx = replicate MAX_DEPS (-1), grp_dep_idx = replicate MAX_DEPS (-1),
      inst = schema_instance_init 0 STATE_PERFECT, child_pid = 0, last_pid = 0, restart_count = 0,
      stop_pid = 0, stop_phase = 0, stop_start = ts_zero, main_pid = 0, main_wait = False,
      main_wait_due = ts_zero, main_rejected = 0, card_next = 0, card_pid = 0, card_start = ts_zero,
      fallback_live = False, standby_up = False, listen_fd = [], listen_open = 0,
      listen_hold = False, last_start = 0, start_time = 0, sock_waiting = False, fork_state = 0,
      fork_wait = ts_zero, ready_check_ticks = 0, ready_path_verified = False, ready_stale_dev = 0,
      ready_stale_ino = 0, ready_stale_ctime = ts_zero, ready_watched = 0, notify_ready = False,
      notify_status = [], ctl_killed = False, failsafe_pid = 0, failsafe_start = ts_zero,
      last_pet = ts_zero, wd_armed_sec = 0, wd_abort_at = ts_zero, is_frozen = False,
      stable_time = ts_zero, exit_status = 0, term_signal = 0, core_dumped = False,
      has_exited = False, cgroup_path = [], dormant_until = ts_zero, restart_at = ts_zero,
      dormant_count = 0, circuit_broken = False, excise_reason = EXC_NONE, bind_held = False,
      bind_was_up = False, bind_seen_spawn = ts_zero, bind_held_since = ts_zero,
      bind_died_at = ts_zero, bind_saved_restarts = 0, bind_saved_dormant = 0,
      spawn_time_mono = ts_zero, boot_spawn = ts_zero, boot_ready = ts_zero,
      boot_how = READY_UNSET, timer_next = ts_zero, timer_catchup_wait = False\<rparr>"

section \<open>The outside world\<close>

record file_stat =
  st_dev :: u64
  st_ino :: u64
  st_ctim :: timespec
  st_isdir :: bool
  st_isreg :: bool
  st_islnk :: bool
  st_size :: int

text \<open>The programs PID 1 forks, for the process id \<^verbatim>\<open>fork\<close> returns.\<close>

datatype fork_kind = FkService | FkCard | FkStop int | FkFailsafe | FkFuse

text \<open>What \<^verbatim>\<open>waitpid\<close> reports without \<^verbatim>\<open>WUNTRACED\<close>: \<^verbatim>\<open>WIFEXITED\<close> with its code, or \<^verbatim>\<open>WIFSIGNALED\<close>
  with the signal and \<^verbatim>\<open>WCOREDUMP\<close>.\<close>

datatype wait_status = Exited int | Signaled int bool

text \<open>What \<^verbatim>\<open>service_open_trusted\<close> answers: the contents, \<^verbatim>\<open>EPERM\<close>, or another error.\<close>

datatype trusted_open = TOpen string | TRefused | TError

record engine_paths_t =
  ep_ctl_sock :: string
  ep_run_dir :: string
  ep_notify_sock :: string
  ep_shm_name :: string
  ep_timer_stamp_dir :: string
  ep_svc_dir :: string
  ep_ctl_fallback :: string
  ep_env_fallback :: string
  ep_svc_fallback :: string
  ep_tag :: string

record sysenv =
  sys_mono :: timespec
  sys_real :: timespec
  sys_euid :: nat
  sys_getenv :: "string \<Rightarrow> string option"
  sys_file :: "string \<Rightarrow> string option"
  sys_dir :: "string \<Rightarrow> string list option"
  sys_stat :: "string \<Rightarrow> file_stat option"
  sys_lstat :: "string \<Rightarrow> file_stat option"
  sys_access_x :: "string \<Rightarrow> bool"
  sys_glob :: "string \<Rightarrow> bool"
  sys_mount_root :: "string \<Rightarrow> bool"
  sys_fs_rw :: "string \<Rightarrow> bool"
  sys_pipe_ok :: bool
  sys_fork :: "fork_kind \<Rightarrow> string \<Rightarrow> int"
  sys_listen_one :: "string \<Rightarrow> string \<Rightarrow> int"
  sys_cgroup_root :: string
  sys_cgroup_join :: "string \<Rightarrow> bool"
  sys_limits_match :: "string \<Rightarrow> string option"
  sys_cg_children :: "string \<Rightarrow> bool"
  sys_cg_kill_ok :: "string \<Rightarrow> bool"
  sys_alive :: "int \<Rightarrow> bool"
  sys_parent :: "int \<Rightarrow> int"
  sys_self :: int
  sys_wait :: "int \<Rightarrow> wait_status option"
  sys_wait_gone :: "int \<Rightarrow> bool"
  sys_wait_term :: "int \<Rightarrow> wait_status option"
  sys_wait_kill :: "int \<Rightarrow> wait_status option"
  sys_wait_block :: "int \<Rightarrow> bool"
  sys_socket_accepts :: "string \<Rightarrow> bool"
  sys_inotify_add :: "string \<Rightarrow> bool"
  sys_localtime :: "int \<Rightarrow> tm"
  sys_mktime :: "tm \<Rightarrow> int"
  sys_trusted :: "string \<Rightarrow> trusted_open"
  sys_paths :: engine_paths_t

abbreviation sys_exists :: "sysenv \<Rightarrow> string \<Rightarrow> bool" where
  "sys_exists env p \<equiv> sys_stat env p \<noteq> None"

datatype effect =
    Log string string u8 u8 int
  | Warn string
  | Kill int int
  | Waitpid int
  | CgKill string
  | CgRmdir string
  | CgWrite string string string
  | CloseFd int
  | RunFork fork_kind string int
  | WriteFile string string
  | SetEnv string string

abbreviation (input) SIGABRT :: int where "SIGABRT \<equiv> 6"
abbreviation (input) SIGKILL :: int where "SIGKILL \<equiv> 9"
abbreviation (input) SIGTERM :: int where "SIGTERM \<equiv> 15"
abbreviation (input) SIGCONT :: int where "SIGCONT \<equiv> 18"

definition service_log :: "service_t \<Rightarrow> string \<Rightarrow> effect" where
  "service_log svc event =
     Log (svc_name svc) event (svc_state svc) (weight (inst svc)) (child_pid svc)"

section \<open>Retry hold\<close>

definition svc_hold_retry :: "service_t \<Rightarrow> timespec \<Rightarrow> service_t" where
  "svc_hold_retry svc now =
     svc\<lparr>restart_at := \<lparr>tv_sec = (if 0 < restart_sec svc then tv_sec now + restart_sec svc else 0),
                        tv_nsec = (if 0 < restart_sec svc then tv_nsec now else 0)\<rparr>\<rparr>"

definition svc_retry_held :: "service_t \<Rightarrow> timespec \<Rightarrow> bool" where
  "svc_retry_held svc now \<longleftrightarrow>
     tv_sec (restart_at svc) \<noteq> 0 \<and>
     (tv_sec now < tv_sec (restart_at svc) \<or>
      (tv_sec now = tv_sec (restart_at svc) \<and> tv_nsec now < tv_nsec (restart_at svc)))"

definition svc_clamp_hold :: "service_t \<Rightarrow> timespec \<Rightarrow> service_t" where
  "svc_clamp_hold svc now =
     (if \<not> svc_retry_held svc now then svc
      else if restart_sec svc \<le> 0 \<or> tv_sec now + restart_sec svc < tv_sec (restart_at svc)
      then svc_hold_retry svc now
      else svc)"

definition service_listen_waiting :: "service_t \<Rightarrow> bool" where
  "service_listen_waiting svc \<longleftrightarrow>
     listen_open svc \<noteq> 0 \<and> child_pid svc = 0 \<and> svc_state svc = STATE_PERFECT"

definition service_verifies_limits :: "service_t \<Rightarrow> bool" where
  "service_verifies_limits s \<longleftrightarrow>
     verify_memory_max s \<noteq> [] \<or> verify_cpu_max s \<noteq> [] \<or> verify_pids_max s \<noteq> []"

definition ts_lt :: "timespec \<Rightarrow> timespec \<Rightarrow> bool" where
  "ts_lt a b \<longleftrightarrow> tv_sec a < tv_sec b \<or> (tv_sec a = tv_sec b \<and> tv_nsec a < tv_nsec b)"

text \<open>A held retry is released no later than \<^verbatim>\<open>restart_sec\<close> after the death it follows, and a
  clamp only ever moves the release earlier.\<close>

lemma svc_retry_held_after_hold:
  assumes "0 < restart_sec svc" "0 \<le> tv_sec now"
  shows "svc_retry_held (svc_hold_retry svc now) t \<longleftrightarrow>
    ts_lt t \<lparr>tv_sec = tv_sec now + restart_sec svc, tv_nsec = tv_nsec now\<rparr>"
  using assms by (auto simp: svc_retry_held_def svc_hold_retry_def ts_lt_def)

lemma svc_clamp_hold_bound:
  assumes "svc_retry_held (svc_clamp_hold svc now) now" "0 \<le> tv_nsec now"
  shows "0 < restart_sec svc \<and> tv_sec (restart_at (svc_clamp_hold svc now)) \<le> tv_sec now + restart_sec svc"
  using assms by (auto simp: svc_clamp_hold_def svc_hold_retry_def svc_retry_held_def split: if_splits)

end
