(* ===== verification/SI_Example.thy ===== *)
theory SI_Example
  imports SI_Service
begin

text \<open>
  A host that answers every question plainly, and a service table on it: the concrete inputs at
  which the properties of the other theories are instantiated. Nothing here models code.
\<close>

definition plain_file :: file_stat where
  "plain_file = \<lparr>st_dev = 1, st_ino = 2, st_ctim = \<lparr>tv_sec = 1, tv_nsec = 0\<rparr>, st_isdir = False,
     st_isreg = True, st_islnk = False, st_size = 1\<rparr>"

definition plain_paths :: engine_paths_t where
  "plain_paths = \<lparr>ep_ctl_sock = ''/run/c'', ep_run_dir = ''/run'', ep_notify_sock = ''/run/n'',
     ep_shm_name = ''/s'', ep_timer_stamp_dir = ''/t'', ep_svc_dir = ''/e'', ep_ctl_fallback = [],
     ep_env_fallback = [], ep_svc_fallback = [], ep_tag = ''i''\<rparr>"

definition plain_tm :: tm where
  "plain_tm = \<lparr>tm_year = 100, tm_mon = 0, tm_mday = 1, tm_hour = 0, tm_min = 0, tm_sec = 0,
     tm_wday = 6, tm_isdst = -1\<rparr>"

text \<open>100 seconds after boot; every path exists, every fork returns 50.\<close>

definition plain_env :: sysenv where
  "plain_env = \<lparr>sys_mono = \<lparr>tv_sec = 100, tv_nsec = 0\<rparr>, sys_real = \<lparr>tv_sec = 1000, tv_nsec = 0\<rparr>,
     sys_euid = 0, sys_getenv = (\<lambda>_. None), sys_file = (\<lambda>_. None), sys_dir = (\<lambda>_. None),
     sys_stat = (\<lambda>_. Some plain_file), sys_lstat = (\<lambda>_. Some plain_file),
     sys_access_x = (\<lambda>_. True), sys_glob = (\<lambda>_. True), sys_mount_root = (\<lambda>_. False),
     sys_fs_rw = (\<lambda>_. True), sys_pipe_ok = True, sys_fork = (\<lambda>_ _. 50),
     sys_listen_one = (\<lambda>_ _. 9), sys_cgroup_root = [], sys_cgroup_join = (\<lambda>_. True),
     sys_limits_match = (\<lambda>_. None), sys_cg_children = (\<lambda>_. False), sys_cg_kill_ok = (\<lambda>_. True),
     sys_alive = (\<lambda>_. True), sys_parent = (\<lambda>_. 1), sys_self = 1, sys_wait = (\<lambda>_. None),
     sys_wait_gone = (\<lambda>_. False), sys_wait_term = (\<lambda>_. None), sys_wait_kill = (\<lambda>_. None),
     sys_wait_block = (\<lambda>_. True), sys_socket_accepts = (\<lambda>_. True), sys_inotify_add = (\<lambda>_. True),
     sys_localtime = (\<lambda>_. plain_tm), sys_mktime = (\<lambda>_. 0), sys_trusted = (\<lambda>_. TError),
     sys_paths = plain_paths\<rparr>"

definition plain_svc :: service_t where
  "plain_svc = svc_init_defaults\<lparr>svc_name := ''a'', svc_exec := ''/bin/a''\<rparr>"

end
