(* ===== verification/SI_Probe.thy ===== *)
theory SI_Probe
  imports SI_Example
begin

text \<open>
  The questions PID 1 asks about a service before and after a run (\<^verbatim>\<open>service.c\<close>): free memory, the
  flag words of the states 8, 9 and 6, the fallback and standby relations, \<^verbatim>\<open>condition=\<close>
  lines, and dependency readiness.
\<close>

section \<open>Free memory\<close>

function free_mem_lines :: "string \<Rightarrow> int" where
  "free_mem_lines s =
     (case c_fgets 127 s of (line, r) \<Rightarrow>
        if line = [] then 0
        else if starts_with ''MemAvailable:'' line then fst (strtol (drop 13 line))
        else free_mem_lines r)"
  by pat_completeness auto
termination
proof (relation "measure length", goal_cases)
  case 1
  then show ?case by simp
next
  case (2 s line r)
  then have "length s = length line + length r" by (metis length_c_fgets)
  with 2 show ?case by (cases line) auto
qed

declare free_mem_lines.simps [simp del]

definition free_mem_kb :: "sysenv \<Rightarrow> int" where
  "free_mem_kb env = (case sys_file env ''/proc/meminfo'' of None \<Rightarrow> 0 | Some s \<Rightarrow> free_mem_lines s)"

section \<open>Fallback and standby\<close>

fun find_index_from :: "('a \<Rightarrow> bool) \<Rightarrow> nat \<Rightarrow> 'a list \<Rightarrow> nat option" where
  "find_index_from P k [] = None"
| "find_index_from P k (x # xs) = (if P x then Some k else find_index_from P (Suc k) xs)"

fun service_fallback_cards :: "string list \<Rightarrow> nat \<Rightarrow> service_t list \<Rightarrow> nat option" where
  "service_fallback_cards [] me table = None"
| "service_fallback_cards (c # cs) me table =
     (if \<not> starts_with ''fallback:'' c then service_fallback_cards cs me table
      else case find_index_from (\<lambda>j. j \<noteq> me \<and> svc_name (table ! j) = drop 9 c) 0 [0..<length table] of
          Some j \<Rightarrow> Some j
        | None \<Rightarrow> service_fallback_cards cs me table)"

definition service_fallback :: "nat \<Rightarrow> service_t list \<Rightarrow> nat option" where
  "service_fallback me table = service_fallback_cards (cards (table ! me)) me table"

definition service_is_standby :: "nat \<Rightarrow> service_t list \<Rightarrow> bool" where
  "service_is_standby me table =
     list_ex (\<lambda>i. i \<noteq> me \<and>
        list_ex (\<lambda>c. starts_with ''fallback:'' c \<and> drop 9 c = svc_name (table ! me)) (cards (table ! i)))
       [0..<length table]"

section \<open>Flag words\<close>

fun probe_deps :: "int list \<Rightarrow> service_t list \<Rightarrow> bool \<Rightarrow> bool \<times> bool" where
  "probe_deps [] table stab = (True, stab)"
| "probe_deps (di # dis) table stab =
     (if di < 0 then (True, stab)
      else if int (length table) \<le> di then (False, stab)
      else let d = table ! nat di in
        if svc_state d = STATE_EXCISED \<or> svc_state d = STATE_DORMANT then
          (if has_flag d SVC_CRITICAL then (False, stab) else probe_deps dis table stab)
        else probe_deps dis table
          (stab \<and> (svc_state d = STATE_FUNDAMENTAL \<or> svc_state d = STATE_SETTLED \<or>
                   svc_state d = STATE_PERFECT)))"

definition flag_if :: "bool \<Rightarrow> u32 \<Rightarrow> u32" where
  "flag_if b f = (if b then f else 0)"

definition service_probe_f8 :: "sysenv \<Rightarrow> service_t \<Rightarrow> service_t list \<Rightarrow> u32" where
  "service_probe_f8 env svc table =
     (let (dep_ok, dep_stable) = probe_deps (take MAX_DEPS (dep_idx svc)) table True;
          mem = free_mem_kb env
      in flag_if (sys_exists env (svc_exec svc)) F8_HW_EXISTS
         OR flag_if (sys_access_x env (svc_exec svc)) F8_HW_RESPONDS
         OR flag_if dep_ok F8_DEP_PRESENT
         OR flag_if dep_stable F8_DEP_STATE
         OR flag_if (0 < mem) F8_MEM_AVAIL
         OR flag_if (MEM_MIN_KB \<le> mem) F8_MEM_SAFE
         OR F8_PERM_PRESENT
         OR flag_if (\<not> has_flag svc SVC_NEEDS_ROOT \<or> sys_euid env = 0) F8_PERM_AUTH)"

definition fallback_healthy :: "service_t \<Rightarrow> bool" where
  "fallback_healthy fb \<longleftrightarrow>
     0 < child_pid fb \<and> (svc_state fb = STATE_FUNDAMENTAL \<or> svc_state fb = STATE_PERFECT)"

definition service_probe_f9 :: "sysenv \<Rightarrow> nat \<Rightarrow> service_t list \<Rightarrow> u32" where
  "service_probe_f9 env me table =
     (let svc = table ! me;
          now = sys_mono env;
          fb = service_fallback me table;
          mem = free_mem_kb env;
          retry = restart_count svc < max_restarts svc
      in flag_if retry F9_RETRY_COUNT
         OR flag_if (\<not> ts_set (spawn_time_mono svc) \<or>
                     COOLDOWN_SECS \<le> tv_sec now - tv_sec (spawn_time_mono svc)) F9_RETRY_WIN
         OR flag_if (fb \<noteq> None) F9_FALL_EXISTS
         OR flag_if (case fb of None \<Rightarrow> False | Some j \<Rightarrow> fallback_healthy (table ! j)) F9_FALL_HEALTH
         OR flag_if (0 < mem) F9_MEM_FREE
         OR flag_if (MEM_MIN_KB \<le> mem) F9_MEM_SUFF
         OR flag_if (card_next svc < length (cards svc)) (F9_ESC_PATH OR F9_ESC_AUTH)
         OR flag_if retry F9_TIMEOUT_WIN
         OR flag_if retry F9_TIMEOUT_EXT)"

definition service_probe_f6 :: "sysenv \<Rightarrow> service_t \<Rightarrow> u32" where
  "service_probe_f6 env svc =
     (let mem = free_mem_kb env;
          retry = restart_count svc < max_restarts svc
      in flag_if retry F6_ERR_PATH
         OR flag_if (MEM_MIN_KB \<le> mem) F6_ERR_RES
         OR flag_if retry F6_ESC_LIMIT
         OR F6_ESC_PATTERN)"

section \<open>Conditions\<close>

definition cond_kinds :: "string list" where
  "cond_kinds = [''path_exists'', ''path_exists_glob'', ''path_is_dir'', ''path_is_symlink'',
     ''path_is_mount'', ''path_is_rw'', ''dir_not_empty'', ''file_not_empty'', ''file_is_exec'',
     ''ac_power'', ''kernel_cmdline'']"

definition cond_kind :: "string \<Rightarrow> (nat \<times> string) option" where
  "cond_kind c =
     (if CHR '':'' \<notin> set c then None
      else case first_index (\<lambda>k. k = takeWhile (\<lambda>x. x \<noteq> CHR '':'') c) cond_kinds of
          None \<Rightarrow> None
        | Some i \<Rightarrow> Some (i, tl (dropWhile (\<lambda>x. x \<noteq> CHR '':'') c)))"

definition ac_read :: "sysenv \<Rightarrow> string \<Rightarrow> string \<Rightarrow> string option" where
  "ac_read env d file =
     map_option (\<lambda>s. fst (c_fgets 31 s))
       (sys_file env (take 299 (''/sys/class/power_supply/'' @ d @ ''/'' @ file)))"

fun ac_scan :: "sysenv \<Rightarrow> string list \<Rightarrow> bool \<Rightarrow> bool \<Rightarrow> bool \<times> bool" where
  "ac_scan env [] online offline = (online, offline)"
| "ac_scan env (d # ds) online offline =
     (if starts_with ''.'' d then ac_scan env ds online offline
      else if (case ac_read env d ''scope'' of Some v \<Rightarrow> starts_with ''Device'' v | None \<Rightarrow> False)
      then ac_scan env ds online offline
      else case ac_read env d ''type'' of
          None \<Rightarrow> ac_scan env ds online offline
        | Some v \<Rightarrow>
            if \<not> starts_with ''Mains'' v \<and> \<not> starts_with ''USB'' v then ac_scan env ds online offline
            else (case ac_read env d ''online'' of
                    None \<Rightarrow> ac_scan env ds online offline
                  | Some o1 \<Rightarrow> if starts_with ''1'' o1 then ac_scan env ds True offline
                              else ac_scan env ds online True))"

definition on_ac_power :: "sysenv \<Rightarrow> bool" where
  "on_ac_power env =
     (case sys_dir env ''/sys/class/power_supply'' of
        None \<Rightarrow> True
      | Some ds \<Rightarrow> (case ac_scan env ds False False of (online, offline) \<Rightarrow> online \<or> \<not> offline))"

definition stat_test :: "(file_stat \<Rightarrow> bool) \<Rightarrow> file_stat option \<Rightarrow> bool" where
  "stat_test P st = (case st of None \<Rightarrow> False | Some s \<Rightarrow> P s)"

definition cond_test :: "sysenv \<Rightarrow> nat \<Rightarrow> string \<Rightarrow> bool" where
  "cond_test env k a =
     (if k = 0 then sys_exists env a
      else if k = 1 then sys_glob env a
      else if k = 2 then stat_test st_isdir (sys_stat env a)
      else if k = 3 then stat_test st_islnk (sys_lstat env a)
      else if k = 4 then sys_mount_root env a
      else if k = 5 then sys_fs_rw env a
      else if k = 6 then
        (case sys_dir env a of
           None \<Rightarrow> False
         | Some ents \<Rightarrow> list_ex (\<lambda>e. e \<noteq> ''.'' \<and> e \<noteq> ''..'') ents)
      else if k = 7 then stat_test (\<lambda>s. st_isreg s \<and> 0 < st_size s) (sys_stat env a)
      else if k = 8 then stat_test st_isreg (sys_stat env a) \<and> sys_access_x env a
      else if k = 9 then on_ac_power env = (a = ''true'' \<or> a = ''yes'' \<or> a = ''1'')
      else if k = 10 then
        cmdline_word_match
          (case sys_file env ''/proc/cmdline'' of None \<Rightarrow> [] | Some s \<Rightarrow> take 4095 s) a
      else False)"

definition service_condition_check :: "sysenv \<Rightarrow> string \<Rightarrow> int" where
  "service_condition_check env c =
     (case cond_kind c of
        None \<Rightarrow> -1
      | Some (k, a0) \<Rightarrow>
          let a1 = (if starts_with ''|'' a0 then tl a0 else a0);
              neg = starts_with ''!'' a1;
              a = (if neg then tl a1 else a1);
              r = cond_test env k a
          in of_bool (if neg then \<not> r else r))"

text \<open>The parser refuses a \<^verbatim>\<open>condition=\<close> line whose kind is unknown, so \<^verbatim>\<open>cond_kind\<close> finds the
  argument of every line that reaches this loop; a line without one is taken as plain.\<close>

definition cond_trigger :: "string \<Rightarrow> bool" where
  "cond_trigger c = (case cond_kind c of None \<Rightarrow> False | Some (k, a) \<Rightarrow> starts_with ''|'' a)"

fun conditions_loop :: "sysenv \<Rightarrow> string list \<Rightarrow> nat \<Rightarrow> bool \<Rightarrow> string + unit" where
  "conditions_loop env [] triggers any =
     (if triggers \<noteq> 0 \<and> \<not> any
      then Inl (''none of the '' @ show_nat triggers @ '' |-conditions'')
      else Inr ())"
| "conditions_loop env (c # cs) triggers any =
     (let r = (service_condition_check env c = 1)
      in if cond_trigger c then conditions_loop env cs (triggers + 1) (any \<or> r)
         else if \<not> r then Inl c
         else conditions_loop env cs triggers any)"

definition service_conditions_met :: "sysenv \<Rightarrow> service_t \<Rightarrow> string + unit" where
  "service_conditions_met env svc = conditions_loop env (cond svc) 0 False"

section \<open>Dependency readiness\<close>

definition dep_state_stable :: "u8 \<Rightarrow> bool" where
  "dep_state_stable s \<longleftrightarrow> s = STATE_FUNDAMENTAL \<or> s = STATE_SETTLED \<or> s = STATE_PERFECT"

fun deps_ready_loop :: "(string \<times> int \<times> int) list \<Rightarrow> service_t list \<Rightarrow> u8 list \<Rightarrow> bool" where
  "deps_ready_loop [] table grp_states = True"
| "deps_ready_loop ((nm, di, gi) # ds) table grp_states =
     (if nm = [] then True
      else
        let svc_verdict =
              (if di < 0 then Some True
               else if int (length table) \<le> di then None
               else let d = table ! nat di; s = svc_state d in
                 if s = STATE_EXCISED \<or> s = STATE_DORMANT
                 then (if has_flag d SVC_CRITICAL then None else Some False)
                 else if dep_state_stable s then Some True else None)
        in case svc_verdict of
             None \<Rightarrow> False
           | Some False \<Rightarrow> deps_ready_loop ds table grp_states
           | Some True \<Rightarrow>
               (if 0 \<le> gi \<and> (int (length grp_states) \<le> gi \<or>
                             \<not> dep_state_stable (grp_states ! nat gi))
                then False
                else deps_ready_loop ds table grp_states))"

definition dep_slots :: "service_t \<Rightarrow> (string \<times> int \<times> int) list" where
  "dep_slots svc = zip (dep_name svc) (zip (dep_idx svc) (grp_dep_idx svc))"

definition service_deps_ready :: "service_t \<Rightarrow> service_t list \<Rightarrow> u8 list \<Rightarrow> bool" where
  "service_deps_ready svc table grp_states =
     deps_ready_loop (take MAX_DEPS (dep_slots svc)) table grp_states"

section \<open>Weights of the flag words\<close>

lemma popcount_or_disjoint:
  assumes "a AND b = 0"
  shows "popcount (a OR b) = popcount a + popcount b"
proof -
  have fin: "finite {i. bit x i}" for x :: u32
    by (rule finite_subset [of _ "{..<32}"]) (auto dest: bit_imp_le_length)
  have "bit a i \<Longrightarrow> \<not> bit b i" for i using assms by (metis bit_0_eq bit_and_iff bot_apply bot_bool_def)
  then have "{i. bit a i} \<inter> {i. bit b i} = {}" by auto
  moreover have "{i. bit (a OR b) i} = {i. bit a i} \<union> {i. bit b i}" by (auto simp: bit_or_iff)
  ultimately have "card {i. bit (a OR b) i} = card {i. bit a i} + card {i. bit b i}"
    by (simp only: card_Un_disjoint [OF fin fin])
  then show ?thesis by (simp only: popcount_eq_card of_nat_add)
qed

lemma flag_if_and: "flag_if a f AND flag_if b g = flag_if (a \<and> b) (f AND g)"
  by (simp add: flag_if_def)

lemma flag_if_and_mask: "flag_if a f AND m = flag_if a (f AND m)"
  by (simp add: flag_if_def)

lemma mask_and_flag_if: "m AND flag_if a f = flag_if a (m AND f)"
  by (simp add: flag_if_def)

lemma flag_if_0: "flag_if a 0 = 0"
  by (simp add: flag_if_def)

lemma popcount_flag_if: "popcount (flag_if a f) = (if a then popcount f else 0)"
  by (simp add: flag_if_def popcount_def popcount_loop.simps)

lemmas flag_or_simps = flag_if_and flag_if_and_mask mask_and_flag_if flag_if_0
  bit.conj_disj_distrib bit.conj_disj_distrib2 or.assoc

lemma popcount_numeral:
  "popcount 0x1 = 1" "popcount 0x2 = 1" "popcount 0x4 = 1" "popcount 0x8 = 1" "popcount 0x10 = 1"
  "popcount 0x20 = 1" "popcount 0x40 = 1" "popcount 0x80 = 1" "popcount 0x100 = 1" "popcount 0x200 = 1"
  "popcount 0xC0 = 2"
  by (simp_all add: popcount_def popcount_loop.simps)

lemma weight_f6:
  "popcount (service_probe_f6 env svc AND F6_MASK) =
     (if restart_count svc < max_restarts svc then 2 else 0)
     + (if MEM_MIN_KB \<le> free_mem_kb env then 1 else 0) + 1"
  unfolding service_probe_f6_def Let_def
  by (simp add: flag_or_simps popcount_or_disjoint popcount_flag_if popcount_numeral)

lemma weight_f9:
  "popcount (service_probe_f9 env me table AND F9_MASK) =
     (if restart_count (table ! me) < max_restarts (table ! me) then 3 else 0)
     + (if \<not> ts_set (spawn_time_mono (table ! me)) \<or>
           COOLDOWN_SECS \<le> tv_sec (sys_mono env) - tv_sec (spawn_time_mono (table ! me)) then 1 else 0)
     + (case service_fallback me table of
          None \<Rightarrow> 0
        | Some j \<Rightarrow> if fallback_healthy (table ! j) then 2 else 1)
     + (if 0 < free_mem_kb env then 1 else 0) + (if MEM_MIN_KB \<le> free_mem_kb env then 1 else 0)
     + (if card_next (table ! me) < length (cards (table ! me)) then 2 else 0)"
  unfolding service_probe_f9_def Let_def
  by (simp add: flag_or_simps popcount_or_disjoint popcount_flag_if popcount_numeral split: option.split)

lemma friction_step:
  assumes "state i = STATE_FRICTION"
  shows "state (schema_step i (service_probe_f6 env svc)) =
    (if restart_count svc < max_restarts svc then STATE_RECOVERY else STATE_EXCISED)"
  using assms by (simp add: schema_step_def Let_def weight_f6 word_le_nat_alt)

lemma recovery_step:
  assumes "state i = STATE_RECOVERY"
  shows "state (schema_step i (service_probe_f9 env me table)) =
    (if 8 \<le> (if restart_count (table ! me) < max_restarts (table ! me) then 3 else 0 :: nat)
       + (if \<not> ts_set (spawn_time_mono (table ! me)) \<or>
             COOLDOWN_SECS \<le> tv_sec (sys_mono env) - tv_sec (spawn_time_mono (table ! me)) then 1 else 0)
       + (case service_fallback me table of
            None \<Rightarrow> 0
          | Some j \<Rightarrow> if fallback_healthy (table ! j) then 2 else 1)
       + (if 0 < free_mem_kb env then 1 else 0) + (if MEM_MIN_KB \<le> free_mem_kb env then 1 else 0)
       + (if card_next (table ! me) < length (cards (table ! me)) then 2 else 0)
     then STATE_SETTLED else STATE_FRICTION)"
  using assms by (simp add: schema_step_def Let_def weight_f9 word_le_nat_alt split: option.split)

section \<open>What readiness means\<close>

definition dep_abandoned :: "service_t \<Rightarrow> bool" where
  "dep_abandoned d \<longleftrightarrow> svc_state d = STATE_EXCISED \<or> svc_state d = STATE_DORMANT"

definition dep_satisfied :: "service_t list \<Rightarrow> u8 list \<Rightarrow> int \<Rightarrow> int \<Rightarrow> bool" where
  "dep_satisfied table gs di gi \<longleftrightarrow>
     (0 \<le> di \<longrightarrow> di < int (length table) \<and>
        (dep_state_stable (svc_state (table ! nat di)) \<or>
         (dep_abandoned (table ! nat di) \<and> \<not> has_flag (table ! nat di) SVC_CRITICAL))) \<and>
     (0 \<le> gi \<and> \<not> (0 \<le> di \<and> dep_abandoned (table ! nat di)) \<longrightarrow>
        gi < int (length gs) \<and> dep_state_stable (gs ! nat gi))"

lemma stable_not_abandoned: "dep_state_stable (svc_state d) \<Longrightarrow> \<not> dep_abandoned d"
  by (auto simp: dep_state_stable_def dep_abandoned_def)

lemma deps_ready_loop_step:
  assumes "nm \<noteq> []"
  shows "deps_ready_loop ((nm, di, gi) # ds) table gs \<longleftrightarrow>
     dep_satisfied table gs di gi \<and> deps_ready_loop ds table gs"
proof (cases "di < 0")
  case True
  then show ?thesis using assms by (auto simp: dep_satisfied_def)
next
  case ge: False
  show ?thesis
  proof (cases "int (length table) \<le> di")
    case True
    then show ?thesis using assms ge by (auto simp: dep_satisfied_def)
  next
    case False
    then show ?thesis using assms ge stable_not_abandoned [of "table ! nat di"]
      by (cases "dep_abandoned (table ! nat di)")
        (auto simp: dep_satisfied_def dep_abandoned_def Let_def)
  qed
qed

lemma deps_ready_loop_iff:
  "deps_ready_loop ds table gs \<longleftrightarrow>
     (\<forall>(nm, di, gi)\<in>set (takeWhile (\<lambda>(nm, _). nm \<noteq> []) ds). dep_satisfied table gs di gi)"
proof (induction ds)
  case Nil
  then show ?case by simp
next
  case (Cons d ds)
  obtain nm di gi where d: "d = (nm, di, gi)" by (cases d)
  show ?case
  proof (cases "nm = []")
    case False
    then show ?thesis unfolding d deps_ready_loop_step [OF False] Cons.IH by auto
  qed (simp add: d)
qed

section \<open>Conditions\<close>

lemma conditions_loop_ok:
  "conditions_loop env cs t any = Inr () \<longleftrightarrow>
     (\<forall>c\<in>set cs. \<not> cond_trigger c \<longrightarrow> service_condition_check env c = 1) \<and>
     ((0 < t \<or> (\<exists>c\<in>set cs. cond_trigger c)) \<longrightarrow>
        any \<or> (\<exists>c\<in>set cs. cond_trigger c \<and> service_condition_check env c = 1))"
proof (induction cs arbitrary: t any)
  case (Cons c cs)
  then show ?case by (cases "cond_trigger c") (auto simp: Let_def)
qed simp





end
