(* ===== verification/SI_Deps.thy ===== *)
theory SI_Deps
  imports SI_Probe
begin

text \<open>
  Dependency cycle detection (\<^verbatim>\<open>dfs\<close> and \<^verbatim>\<open>services_check_cycles\<close> of \<^verbatim>\<open>service.c\<close>): a three-colour
  depth-first search over the resolved dependency indices, and the proof that it counts no
  cycle exactly when the dependency graph is acyclic. The colour array holds one entry per
  loaded service.
\<close>

datatype color = COLOR_WHITE | COLOR_GRAY | COLOR_BLACK

definition whites :: "color list \<Rightarrow> nat" where
  "whites c = count_list c COLOR_WHITE"

lemma whites_update_nonwhite: "x \<noteq> COLOR_WHITE \<Longrightarrow> whites (c[i := x]) \<le> whites c"
  unfolding whites_def by (induction c arbitrary: i) (auto split: nat.splits)

lemma whites_update_gray:
  "i < length c \<Longrightarrow> c ! i = COLOR_WHITE \<Longrightarrow> whites (c[i := COLOR_GRAY]) < whites c"
  unfolding whites_def
proof (induction c arbitrary: i)
  case (Cons a c)
  then show ?case by (cases i) auto
qed simp

section \<open>The search\<close>

text \<open>The loop over the dependency slots of one node; the call \<^verbatim>\<open>dfs(dep, ...)\<close> colours \<^verbatim>\<open>dep\<close>
  gray, runs its own loop, and colours it black.\<close>

function dfs_loop :: "int list list \<Rightarrow> int list \<Rightarrow> color list \<times> nat \<Rightarrow> color list \<times> nat" where
  "dfs_loop adj [] st = st"
| "dfs_loop adj (dep # deps) (c, cyc) =
     (if dep < 0 \<or> int (length c) \<le> dep then dfs_loop adj deps (c, cyc)
      else if c ! nat dep = COLOR_GRAY then dfs_loop adj deps (c, cyc + 1)
      else if c ! nat dep = COLOR_WHITE then
        (case dfs_loop adj (adj ! nat dep) (c[nat dep := COLOR_GRAY], cyc) of
           (c', cyc') \<Rightarrow> dfs_loop adj deps (c'[nat dep := COLOR_BLACK], cyc'))
      else dfs_loop adj deps (c, cyc))"
  by pat_completeness auto

lemma dfs_loop_whites_dom:
  "dfs_loop_dom (adj, deps, st) \<Longrightarrow> whites (fst (dfs_loop adj deps st)) \<le> whites (fst st)"
proof (induction adj deps st rule: dfs_loop.pinduct)
  case (1 adj st)
  then show ?case by (simp add: dfs_loop.psimps)
next
  case (2 adj dep deps c cyc)
  note dom = "2.hyps" and IH = "2.IH"
  consider (skip) "dep < 0 \<or> int (length c) \<le> dep"
    | (gray) "\<not> (dep < 0 \<or> int (length c) \<le> dep)" "c ! nat dep = COLOR_GRAY"
    | (white) "\<not> (dep < 0 \<or> int (length c) \<le> dep)" "c ! nat dep = COLOR_WHITE"
    | (black) "\<not> (dep < 0 \<or> int (length c) \<le> dep)" "c ! nat dep = COLOR_BLACK"
    by (cases "c ! nat dep") auto
  then show ?case
  proof cases
    case white
    obtain c' cyc' where r: "dfs_loop adj (adj ! nat dep) (c[nat dep := COLOR_GRAY], cyc) = (c', cyc')"
      by (cases "dfs_loop adj (adj ! nat dep) (c[nat dep := COLOR_GRAY], cyc)")
    have "whites c' \<le> whites (c[nat dep := COLOR_GRAY])"
      using IH(3) [OF white(1)] white r by simp
    also have "\<dots> \<le> whites c" by (rule whites_update_nonwhite) simp
    finally have a: "whites c' \<le> whites c" .
    have "whites (fst (dfs_loop adj deps (c'[nat dep := COLOR_BLACK], cyc'))) \<le>
        whites (c'[nat dep := COLOR_BLACK])"
      using IH(4) [OF white(1)] white r by simp
    also have "\<dots> \<le> whites c'" by (rule whites_update_nonwhite) simp
    finally show ?thesis using a white r dom by (simp add: dfs_loop.psimps)
  next
    case black
    then show ?thesis using IH(5) dom by (simp add: dfs_loop.psimps)
  qed (use IH dom in \<open>auto simp: dfs_loop.psimps\<close>)
qed

lemma dfs_loop_all_dom: "All dfs_loop_dom"
proof (relation "inv_image (less_than <*lex*> less_than) (\<lambda>(adj, deps, st). (whites (fst st), length deps))",
    goal_cases)
  case 1
  then show ?case by (simp add: wf_lex_prod)
next
  case (4 adj dep deps c cyc)
  then have "whites (c[nat dep := COLOR_GRAY]) < whites c" by (intro whites_update_gray) auto
  then show ?case by simp
next
  case (5 adj dep deps c cyc c' cyc')
  have w: "whites (c[nat dep := COLOR_GRAY]) < whites c"
    using 5 by (intro whites_update_gray) auto
  have "whites c' \<le> whites (c[nat dep := COLOR_GRAY])"
    using dfs_loop_whites_dom [OF 5(5)] 5(4) by (metis fst_conv)
  moreover have "whites (c'[nat dep := COLOR_BLACK]) \<le> whites c'" by (rule whites_update_nonwhite) simp
  ultimately have "whites (c'[nat dep := COLOR_BLACK]) < whites c" using w by linarith
  then show ?case by simp
qed simp_all

termination dfs_loop
  by (rule dfs_loop_all_dom)

definition dfs :: "int list list \<Rightarrow> nat \<Rightarrow> color list \<times> nat \<Rightarrow> color list \<times> nat" where
  "dfs adj node = (\<lambda>(c, cyc).
     case dfs_loop adj (adj ! node) (c[node := COLOR_GRAY], cyc) of
       (c', cyc') \<Rightarrow> (c'[node := COLOR_BLACK], cyc'))"

definition dep_lists :: "service_t list \<Rightarrow> int list list" where
  "dep_lists table = map (\<lambda>s. take MAX_DEPS (dep_idx s)) table"

definition check_node :: "int list list \<Rightarrow> nat \<Rightarrow> color list \<times> nat \<Rightarrow> color list \<times> nat" where
  "check_node adj i st = (if fst st ! i = COLOR_WHITE then dfs adj i st else st)"

definition services_check_cycles :: "service_t list \<Rightarrow> nat" where
  "services_check_cycles table =
     snd (fold (check_node (dep_lists table)) [0..<length table] (replicate (length table) COLOR_WHITE, 0))"

section \<open>Correctness\<close>

lemma dfs_loop_whites: "whites (fst (dfs_loop adj deps st)) \<le> whites (fst st)"
  by (rule dfs_loop_whites_dom [OF dfs_loop_all_dom [THEN spec]])

definition dep_graph :: "int list list \<Rightarrow> (nat \<times> nat) set" where
  "dep_graph adj = {(i, j). i < length adj \<and> j < length adj \<and> int j \<in> set (adj ! i)}"

lemma dfs_loop_white:
  assumes "0 \<le> dep" "nat dep < length c" "c ! nat dep = COLOR_WHITE"
    "dfs_loop adj (adj ! nat dep) (c[nat dep := COLOR_GRAY], cyc) = (c', cyc')"
  shows "dfs_loop adj (dep # deps) (c, cyc) = dfs_loop adj deps (c'[nat dep := COLOR_BLACK], cyc')"
  using assms by auto

lemma dfs_loop_gray_step:
  assumes "0 \<le> dep" "nat dep < length c" "c ! nat dep = COLOR_GRAY"
  shows "dfs_loop adj (dep # deps) (c, cyc) = dfs_loop adj deps (c, cyc + 1)"
  using assms by auto

lemma dfs_loop_skip:
  assumes "dep < 0 \<or> int (length c) \<le> dep \<or> c ! nat dep = COLOR_BLACK"
  shows "dfs_loop adj (dep # deps) (c, cyc) = dfs_loop adj deps (c, cyc)"
  using assms by auto

declare dfs_loop.simps(2) [simp del]

lemmas dfs_loop_steps = dfs_loop_white dfs_loop_gray_step dfs_loop_skip

lemma dfs_loop_induct [case_names Nil Skip Gray White]:
  assumes Nil: "\<And>c cyc. P [] c cyc"
    and Skip: "\<And>dep deps c cyc. dep < 0 \<or> int (length c) \<le> dep \<or> c ! nat dep = COLOR_BLACK \<Longrightarrow>
        P deps c cyc \<Longrightarrow> P (dep # deps) c cyc"
    and Gray: "\<And>dep deps c cyc. 0 \<le> dep \<Longrightarrow> nat dep < length c \<Longrightarrow> c ! nat dep = COLOR_GRAY \<Longrightarrow>
        P deps c (cyc + 1) \<Longrightarrow> P (dep # deps) c cyc"
    and White: "\<And>dep deps c cyc c' cyc'. 0 \<le> dep \<Longrightarrow> nat dep < length c \<Longrightarrow> c ! nat dep = COLOR_WHITE \<Longrightarrow>
        dfs_loop adj (adj ! nat dep) (c[nat dep := COLOR_GRAY], cyc) = (c', cyc') \<Longrightarrow>
        P (adj ! nat dep) (c[nat dep := COLOR_GRAY]) cyc \<Longrightarrow>
        P deps (c'[nat dep := COLOR_BLACK]) cyc' \<Longrightarrow> P (dep # deps) c cyc"
  shows "P deps c cyc"
proof -
  have "P (fst (snd x)) (fst (snd (snd x))) (snd (snd (snd x)))" if "fst x = adj" for x
    using that
  proof (induction x rule: wf_induct_rule [OF wf_measures
        [of "[\<lambda>(adj, deps, st). whites (fst st), \<lambda>(adj, deps, st). length deps]"]])
    case (1 x)
    obtain deps c cyc where x: "x = (adj, deps, c, cyc)" using 1(2) by (cases x) auto
    have IH: "whites c2 < whites c \<or> whites c2 = whites c \<and> length d2 < length deps \<Longrightarrow> P d2 c2 n2" for d2 c2 n2
      using 1(1) [of "(adj, d2, c2, n2)"] x by auto
    show ?case
    proof (cases deps)
      case Nil
      then show ?thesis using x assms(1) by simp
    next
      case (Cons dep ds)
      consider (skip) "dep < 0 \<or> int (length c) \<le> dep \<or> c ! nat dep = COLOR_BLACK"
        | (gray) "0 \<le> dep" "nat dep < length c" "c ! nat dep = COLOR_GRAY"
        | (white) "0 \<le> dep" "nat dep < length c" "c ! nat dep = COLOR_WHITE"
        by (cases "c ! nat dep"; cases "dep < 0 \<or> int (length c) \<le> dep") auto
      then show ?thesis
      proof cases
        case skip
        then show ?thesis using Skip IH Cons x by simp
      next
        case gray
        then show ?thesis using Gray IH Cons x by simp
      next
        case white
        obtain c' cyc' where r: "dfs_loop adj (adj ! nat dep) (c[nat dep := COLOR_GRAY], cyc) = (c', cyc')"
          by (cases "dfs_loop adj (adj ! nat dep) (c[nat dep := COLOR_GRAY], cyc)")
        have w: "whites (c[nat dep := COLOR_GRAY]) < whites c" using white by (intro whites_update_gray)
        have "whites c' \<le> whites (c[nat dep := COLOR_GRAY])" using dfs_loop_whites [of adj "adj ! nat dep" "(c[nat dep := COLOR_GRAY], cyc)"] r by simp
        moreover have "whites (c'[nat dep := COLOR_BLACK]) \<le> whites c'" by (rule whites_update_nonwhite) simp
        ultimately have "whites (c'[nat dep := COLOR_BLACK]) < whites c" using w by linarith
        then show ?thesis using White [OF white r] IH w Cons x by simp
      qed
    qed
  qed
  from this [of "(adj, deps, c, cyc)"] show ?thesis by simp
qed

lemma dfs_loop_length: "length (fst (dfs_loop adj deps (c, cyc))) = length c"
  by (induction deps c cyc rule: dfs_loop_induct [where adj = adj])
    (auto simp: dfs_loop_steps)

lemma dfs_loop_mono: "cyc \<le> snd (dfs_loop adj deps (c, cyc))"
  by (induction deps c cyc rule: dfs_loop_induct [where adj = adj])
    (auto simp: dfs_loop_steps)

lemma dfs_loop_gray:
  "i < length c \<Longrightarrow> fst (dfs_loop adj deps (c, cyc)) ! i = COLOR_GRAY \<longleftrightarrow> c ! i = COLOR_GRAY"
proof (induction deps c cyc arbitrary: i rule: dfs_loop_induct [where adj = adj])
  case (White dep deps c cyc c' cyc')
  have l: "length c' = length c"
    using dfs_loop_length [of adj "adj ! nat dep" "c[nat dep := COLOR_GRAY]" cyc] White(4) by simp
  have "fst (dfs_loop adj (dep # deps) (c, cyc)) ! i = COLOR_GRAY \<longleftrightarrow>
      c'[nat dep := COLOR_BLACK] ! i = COLOR_GRAY"
    using White l by (simp add: dfs_loop_steps)
  then show ?case using White(5) [of i] White(2,3,4,7) l by (cases "i = nat dep") auto
qed (auto simp: dfs_loop_steps)

lemma dfs_loop_nonwhite:
  "i < length c \<Longrightarrow> c ! i \<noteq> COLOR_WHITE \<Longrightarrow> fst (dfs_loop adj deps (c, cyc)) ! i \<noteq> COLOR_WHITE"
proof (induction deps c cyc arbitrary: i rule: dfs_loop_induct [where adj = adj])
  case (White dep deps c cyc c' cyc')
  have l: "length c' = length c"
    using dfs_loop_length [of adj "adj ! nat dep" "c[nat dep := COLOR_GRAY]" cyc] White(4) by simp
  have "c' ! i \<noteq> COLOR_WHITE" using White(5) [of i] White(4,7,8) by (cases "i = nat dep") auto
  then show ?case using White l by (cases "i = nat dep") (auto simp: dfs_loop_steps)
qed (auto simp: dfs_loop_steps)

lemma dfs_loop_acc:
  assumes "snd (dfs_loop adj deps (c, cyc)) = cyc" "length c = length adj"
    "\<forall>i<length c. c ! i = COLOR_BLACK \<longrightarrow> i \<in> Wellfounded.acc ((dep_graph adj)\<inverse>)"
  shows "(\<forall>i<length c. fst (dfs_loop adj deps (c, cyc)) ! i = COLOR_BLACK \<longrightarrow>
            i \<in> Wellfounded.acc ((dep_graph adj)\<inverse>)) \<and>
    (\<forall>d\<in>set deps. 0 \<le> d \<and> nat d < length c \<longrightarrow> nat d \<in> Wellfounded.acc ((dep_graph adj)\<inverse>))"
  using assms
proof (induction deps c cyc rule: dfs_loop_induct [where adj = adj])
  case (Nil c cyc)
  then show ?case by simp
next
  case (Skip dep deps c cyc)
  then show ?case by (auto simp: dfs_loop_steps)
next
  case (Gray dep deps c cyc)
  have "cyc + 1 \<le> snd (dfs_loop adj deps (c, cyc + 1))" by (rule dfs_loop_mono)
  with Gray show ?case by (simp add: dfs_loop_steps)
next
  case (White dep deps c cyc c' cyc')
  have l: "length c' = length c"
    using dfs_loop_length [of adj "adj ! nat dep" "c[nat dep := COLOR_GRAY]" cyc] White(4) by simp
  have fin: "dfs_loop adj (dep # deps) (c, cyc) = dfs_loop adj deps (c'[nat dep := COLOR_BLACK], cyc')"
    using White(1-4) by (simp add: dfs_loop_steps)
  have "cyc \<le> cyc'" using dfs_loop_mono [of cyc adj "adj ! nat dep" "c[nat dep := COLOR_GRAY]"] White(4) by simp
  moreover have "cyc' \<le> snd (dfs_loop adj deps (c'[nat dep := COLOR_BLACK], cyc'))" by (rule dfs_loop_mono)
  ultimately have eq: "cyc' = cyc" using White(7) fin by simp
  have "\<forall>i<length c. c[nat dep := COLOR_GRAY] ! i = COLOR_BLACK \<longrightarrow> i \<in> Wellfounded.acc ((dep_graph adj)\<inverse>)"
    using White(9) by (metis color.distinct(5) length_list_update nth_list_update_eq nth_list_update_neq)
  then have sub: "(\<forall>i<length c. c' ! i = COLOR_BLACK \<longrightarrow> i \<in> Wellfounded.acc ((dep_graph adj)\<inverse>)) \<and>
      (\<forall>d\<in>set (adj ! nat dep). 0 \<le> d \<and> nat d < length c \<longrightarrow> nat d \<in> Wellfounded.acc ((dep_graph adj)\<inverse>))"
    using White(5) White(4,8) eq by simp
  have here: "nat dep \<in> Wellfounded.acc ((dep_graph adj)\<inverse>)"
  proof (rule accI)
    fix y
    assume "(y, nat dep) \<in> (dep_graph adj)\<inverse>"
    then have "int y \<in> set (adj ! nat dep)" "y < length adj" by (auto simp: dep_graph_def)
    then show "y \<in> Wellfounded.acc ((dep_graph adj)\<inverse>)" using sub White(8) by (metis nat_int of_nat_0_le_iff)
  qed
  have "\<forall>i<length c. c'[nat dep := COLOR_BLACK] ! i = COLOR_BLACK \<longrightarrow> i \<in> Wellfounded.acc ((dep_graph adj)\<inverse>)"
    using sub here by (metis nth_list_update_neq)
  then show ?case using White(6) White(7,8) fin eq l here by auto
qed

lemma dfs_loop_acyclic:
  assumes "acyclic (dep_graph adj)" "length c = length adj" "u < length adj"
    "set deps \<subseteq> set (adj ! u)"
    "\<forall>g<length c. c ! g = COLOR_GRAY \<longrightarrow> (g, u) \<in> (dep_graph adj)\<^sup>*"
  shows "snd (dfs_loop adj deps (c, cyc)) = cyc"
  using assms(2-)
proof (induction deps c cyc arbitrary: u rule: dfs_loop_induct [where adj = adj])
  case (Nil c cyc)
  then show ?case by simp
next
  case (Skip dep deps c cyc)
  then show ?case by (simp add: dfs_loop_steps)
next
  case (Gray dep deps c cyc)
  have "(u, nat dep) \<in> dep_graph adj" using Gray by (auto simp: dep_graph_def)
  moreover have "(nat dep, u) \<in> (dep_graph adj)\<^sup>*" using Gray by simp
  ultimately have "(u, u) \<in> (dep_graph adj)\<^sup>+" by (meson rtrancl_into_trancl2)
  with assms(1) show ?case by (simp add: acyclic_def)
next
  case (White dep deps c cyc c' cyc')
  have edge: "(u, nat dep) \<in> dep_graph adj" using White by (auto simp: dep_graph_def)
  have l: "length c' = length c"
    using dfs_loop_length [of adj "adj ! nat dep" "c[nat dep := COLOR_GRAY]" cyc] White(4) by simp
  have g: "\<forall>g<length c. c[nat dep := COLOR_GRAY] ! g = COLOR_GRAY \<longrightarrow> (g, nat dep) \<in> (dep_graph adj)\<^sup>*"
    using White(10) edge by (metis nth_list_update_neq rtrancl.rtrancl_into_rtrancl rtrancl.rtrancl_refl)
  have "snd (dfs_loop adj (adj ! nat dep) (c[nat dep := COLOR_GRAY], cyc)) = cyc"
    by (rule White(5)) (use White g in auto)
  then have eq: "cyc' = cyc" using White(4) by simp
  have "c' ! k = COLOR_GRAY \<longleftrightarrow> c[nat dep := COLOR_GRAY] ! k = COLOR_GRAY" if "k < length c" for k
    using dfs_loop_gray [of k "c[nat dep := COLOR_GRAY]" adj "adj ! nat dep" cyc] White(4) that by simp
  then have "\<forall>g<length c. c'[nat dep := COLOR_BLACK] ! g = COLOR_GRAY \<longrightarrow> (g, u) \<in> (dep_graph adj)\<^sup>*"
    using White(10) l by (metis color.distinct(5) nth_list_update_eq nth_list_update_neq)
  then have "snd (dfs_loop adj deps (c'[nat dep := COLOR_BLACK], cyc')) = cyc'"
    by (intro White(6)) (use White l in auto)
  then show ?case using White(1-4) eq by (simp add: dfs_loop_steps)
qed

text \<open>What holds of the colour array and the count between two nodes of the outer loop.\<close>

definition check_inv :: "int list list \<Rightarrow> nat \<Rightarrow> color list \<times> nat \<Rightarrow> bool" where
  "check_inv adj k st \<longleftrightarrow>
     length (fst st) = length adj \<and>
     (\<forall>i<length adj. fst st ! i \<noteq> COLOR_GRAY) \<and>
     (\<forall>i<k. fst st ! i \<noteq> COLOR_WHITE) \<and>
     (snd st = 0 \<longrightarrow> (\<forall>i<length adj. fst st ! i = COLOR_BLACK \<longrightarrow>
        i \<in> Wellfounded.acc ((dep_graph adj)\<inverse>))) \<and>
     (acyclic (dep_graph adj) \<longrightarrow> snd st = 0)"

lemma check_node_as_loop:
  assumes "i < length c" "c ! i \<noteq> COLOR_GRAY"
  shows "check_node adj i (c, cyc) = dfs_loop adj [int i] (c, cyc)"
proof (cases "c ! i = COLOR_WHITE")
  case True
  then show ?thesis using assms by (simp add: check_node_def dfs_def dfs_loop.simps(2))
next
  case False
  then have "c ! i = COLOR_BLACK" using assms by (cases "c ! i") auto
  then show ?thesis using False by (simp add: check_node_def dfs_loop_steps)
qed

lemma check_node_acyclic:
  assumes "acyclic (dep_graph adj)" "length c = length adj" "k < length adj"
    "\<forall>i<length adj. c ! i \<noteq> COLOR_GRAY"
  shows "snd (check_node adj k (c, cyc)) = cyc"
proof (cases "c ! k = COLOR_WHITE")
  case True
  have "snd (dfs_loop adj (adj ! k) (c[k := COLOR_GRAY], cyc)) = cyc"
    using assms(2-4) by (intro dfs_loop_acyclic [OF assms(1), of _ k]) (auto simp: nth_list_update)
  then show ?thesis using True by (auto simp: check_node_def dfs_def split: prod.splits)
qed (simp add: check_node_def)

lemma check_inv_step:
  assumes "check_inv adj k st" "k < length adj"
  shows "check_inv adj (Suc k) (check_node adj k st)"
proof -
  obtain c cyc where st: "st = (c, cyc)" by (cases st)
  have l: "length c = length adj" and ng: "\<forall>i<length adj. c ! i \<noteq> COLOR_GRAY"
    using assms(1) st by (auto simp: check_inv_def)
  have eq: "check_node adj k st = dfs_loop adj [int k] (c, cyc)"
    using st l ng assms(2) by (simp add: check_node_as_loop)
  have len: "length (fst (dfs_loop adj [int k] (c, cyc))) = length adj" using l by (simp add: dfs_loop_length)
  have gray: "\<forall>i<length adj. fst (dfs_loop adj [int k] (c, cyc)) ! i \<noteq> COLOR_GRAY"
    using ng l by (simp add: dfs_loop_gray)
  have old: "fst (dfs_loop adj [int k] (c, cyc)) ! i \<noteq> COLOR_WHITE" if "i < k" for i
    using that assms st l by (intro dfs_loop_nonwhite) (auto simp: check_inv_def)
  have new: "fst (dfs_loop adj [int k] (c, cyc)) ! k \<noteq> COLOR_WHITE"
  proof (cases "c ! k = COLOR_WHITE")
    case True
    obtain c' cyc' where r: "dfs_loop adj (adj ! k) (c[k := COLOR_GRAY], cyc) = (c', cyc')"
      by (cases "dfs_loop adj (adj ! k) (c[k := COLOR_GRAY], cyc)")
    then have "length c' = length c"
      using dfs_loop_length [of adj "adj ! k" "c[k := COLOR_GRAY]" cyc] by simp
    moreover have "dfs_loop adj [int k] (c, cyc) = (c'[k := COLOR_BLACK], cyc')"
      using dfs_loop_white [of "int k" c adj cyc c' cyc' "[]"] True r l assms(2) by simp
    ultimately show ?thesis using l assms(2) by simp
  next
    case False
    then show ?thesis using l assms(2) by (intro dfs_loop_nonwhite) auto
  qed
  have blk: "\<forall>i<length c. c ! i = COLOR_BLACK \<longrightarrow> i \<in> Wellfounded.acc ((dep_graph adj)\<inverse>)"
    if "cyc = 0" using that assms(1) l unfolding st check_inv_def by simp
  have acc: "\<forall>i<length adj. fst (dfs_loop adj [int k] (c, cyc)) ! i = COLOR_BLACK \<longrightarrow>
      i \<in> Wellfounded.acc ((dep_graph adj)\<inverse>)" if z: "snd (dfs_loop adj [int k] (c, cyc)) = 0"
  proof -
    have "cyc = 0" using dfs_loop_mono [of cyc adj "[int k]" c] z by simp
    from dfs_loop_acc [OF _ l blk [OF this]] z this show ?thesis unfolding l by blast
  qed
  have ac: "snd (dfs_loop adj [int k] (c, cyc)) = 0" if "acyclic (dep_graph adj)"
    using check_node_acyclic [OF that l assms(2) ng, of cyc] that assms(1) st eq
    by (simp add: check_inv_def)
  show ?thesis unfolding check_inv_def eq less_Suc_eq using len gray old new acc ac by blast
qed

lemma check_inv_fold:
  "check_inv adj 0 st \<Longrightarrow> n \<le> length adj \<Longrightarrow> check_inv adj n (fold (check_node adj) [0..<n] st)"
  by (induction n) (auto intro: check_inv_step)

lemma acyclic_if_all_acc:
  assumes "\<forall>i<length adj. i \<in> Wellfounded.acc ((dep_graph adj)\<inverse>)"
  shows "acyclic (dep_graph adj)"
proof -
  have "i \<in> Wellfounded.acc ((dep_graph adj)\<inverse>)" for i
  proof (cases "i < length adj")
    case False
    show ?thesis by (rule accI) (use False in \<open>auto simp: dep_graph_def\<close>)
  qed (use assms in simp)
  then have "wf ((dep_graph adj)\<inverse>)" by (intro acc_wfI allI)
  then have "acyclic ((dep_graph adj)\<inverse>)" by (rule wf_acyclic)
  then show ?thesis by (simp only: acyclic_converse)
qed

lemma check_inv_black: "check_inv adj (length adj) st \<Longrightarrow> i < length adj \<Longrightarrow> fst st ! i = COLOR_BLACK"
  by (cases "fst st ! i") (auto simp: check_inv_def)

lemma check_inv_final:
  assumes "check_inv adj (length adj) st"
  shows "snd st = 0 \<longleftrightarrow> acyclic (dep_graph adj)"
  using assms acyclic_if_all_acc [of adj] check_inv_black [OF assms]
  by (auto simp: check_inv_def)

lemma check_cycles_iff:
  "snd (fold (check_node adj) [0..<length adj] (replicate (length adj) COLOR_WHITE, 0)) = 0 \<longleftrightarrow>
   acyclic (dep_graph adj)"
  by (intro check_inv_final check_inv_fold) (simp_all add: check_inv_def)

text \<open>C8. The cycle check over the loaded services reports no cycle exactly when the graph of their
  resolved dependencies has none: a dependency loop is always found, and a loop-free table never
  draws the warning.\<close>

theorem services_check_cycles_exact:
  "services_check_cycles table = 0 \<longleftrightarrow> acyclic (dep_graph (dep_lists table))"
  using check_cycles_iff [of "dep_lists table"] by (simp add: services_check_cycles_def dep_lists_def)

end
