(* ===== verification/SI_Cpuset.thy ===== *)
theory SI_Cpuset
  imports SI_Example
begin

text \<open>
  CPU lists and cgroup limits (\<^verbatim>\<open>service.c\<close>): the \<^verbatim>\<open>cpuset.cpus\<close> list parser and printer, the limits
  written into a service's cgroup after the fork, and the release of an exclusive partition.
  A CPU bitmap is the list of its bits. Writing a control file is an effect and does not fail:
  the code ignores the outcome.
\<close>

section \<open>CPU lists\<close>

definition cpu_sep :: "char \<Rightarrow> bool" where
  "cpu_sep c \<longleftrightarrow> c = CHR '','' \<or> c = CHR '' '' \<or> c = NL"

text \<open>The bits \<^verbatim>\<open>a..b\<close>; a negative CPU number shifts by a negative amount, which C leaves
  undefined, and is \<^verbatim>\<open>None\<close>.\<close>

definition cpu_set_range :: "int \<Rightarrow> int \<Rightarrow> bool list \<Rightarrow> bool list option" where
  "cpu_set_range a b bits =
     (if b < a then Some bits
      else if a < 0 then None
      else Some (map (\<lambda>i. bits ! i \<or> (a \<le> int i \<and> int i \<le> b)) [0..<length bits]))"

function cpulist_parse :: "string \<Rightarrow> bool list \<Rightarrow> bool list option" where
  "cpulist_parse s bits =
     (let s1 = dropWhile cpu_sep s in
      if s1 = [] then Some bits
      else let a = atoi s1;
               s2 = dropWhile (\<lambda>c. c \<noteq> CHR '','' \<and> c \<noteq> CHR ''-'') s1;
               dash = (s2 \<noteq> [] \<and> hd s2 = CHR ''-'');
               b = (if dash then atoi (tl s2) else a);
               s3 = (if dash then dropWhile (\<lambda>c. c \<noteq> CHR '','') (tl s2) else s2)
           in case cpu_set_range a b bits of
                None \<Rightarrow> None
              | Some bits' \<Rightarrow> cpulist_parse s3 bits')"
  by pat_completeness auto
termination
proof (relation "measure (\<lambda>(s, bits). length s)", goal_cases)
  case 1
  then show ?case by simp
next
  case (2 s bits s1 a s2 dash b s3 bits')
  have l1: "length s1 \<le> length s" using 2(1) by (simp add: length_dropWhile_le)
  have l2: "length s2 \<le> length s1" using 2(4) by (simp add: length_dropWhile_le)
  show ?case
  proof (cases dash)
    case True
    then have "length s3 \<le> length (tl s2)" "s2 \<noteq> []"
      using 2(5,7) length_dropWhile_le [of "\<lambda>c. c \<noteq> CHR '',''" "tl s2"] by simp_all
    then show ?thesis using l1 l2 by (cases s2) auto
  next
    case False
    have "\<not> cpu_sep (hd s1)" using 2(1,2) hd_dropWhile [of cpu_sep s] by simp
    then have "hd s1 \<noteq> CHR '',''" by (auto simp: cpu_sep_def)
    moreover have "hd s1 \<noteq> CHR ''-''" using False 2(2,4,5) by (cases s1) auto
    ultimately have "length s2 < length s1"
      using 2(2,4) by (cases s1) (simp_all add: le_imp_less_Suc length_dropWhile_le)
    then show ?thesis using False l1 2(7) by simp
  qed
qed

declare cpulist_parse.simps [simp del]

text \<open>The runs of set bits, first and last position of each.\<close>

fun cpu_runs :: "nat \<Rightarrow> bool list \<Rightarrow> (nat \<times> nat) list" where
  "cpu_runs i [] = []"
| "cpu_runs i (False # bs) = cpu_runs (Suc i) bs"
| "cpu_runs i (True # bs) =
     (case cpu_runs (Suc i) bs of
        (j, k) # rs \<Rightarrow> if j = Suc i then (i, k) # rs else (i, i) # (j, k) # rs
      | [] \<Rightarrow> [(i, i)])"

definition show_run :: "nat \<times> nat \<Rightarrow> string" where
  "show_run = (\<lambda>(i, j). if i = j then show_nat i else show_nat i @ ''-'' @ show_nat j)"

fun join_runs :: "string list \<Rightarrow> string" where
  "join_runs [] = []"
| "join_runs [r] = r"
| "join_runs (r # rs) = r @ '','' @ join_runs rs"

definition cpulist_emit :: "bool list \<Rightarrow> nat \<Rightarrow> string" where
  "cpulist_emit bits outsz = take (outsz - 1) (join_runs (map show_run (cpu_runs 0 bits)))"

section \<open>Limits\<close>

definition cgroup_limit_writes :: "service_t \<Rightarrow> effect list" where
  "cgroup_limit_writes svc =
     (let cg = cgroup_path svc; tier = cgroup_tiering (priority svc); high = mem_high_bytes (mem_limit_mb svc)
      in (if 0 < cpu_limit_pct svc \<and> cpu_limit_pct svc \<le> 100
          then [CgWrite cg ''cpu.max'' (show_int (cpu_limit_pct svc * 1000) @ '' 100000'' @ [NL])] else [])
       @ (if 0 < mem_limit_mb svc
          then [CgWrite cg ''memory.max'' (show_int (mem_limit_mb svc * 1024 * 1024) @ [NL])] else [])
       @ (if 0 < high then [CgWrite cg ''memory.high'' (show_int high @ [NL])] else [])
       @ [CgWrite cg ''memory.oom.group'' (''1'' @ [NL])]
       @ (if cpu_idle tier \<noteq> 0 then [CgWrite cg ''cpu.idle'' (''1'' @ [NL])]
          else [CgWrite cg ''cpu.weight'' (show_int (cpu_weight tier) @ [NL])])
       @ [CgWrite cg ''io.weight'' (show_int (io_weight tier) @ [NL])]
       @ (if cpuset svc \<noteq> [] then [CgWrite cg ''cpuset.cpus'' (cpuset svc)] else []))"

fun has_infix :: "string \<Rightarrow> string \<Rightarrow> bool" where
  "has_infix p [] = (p = [])"
| "has_infix p (c # cs) = (starts_with p (c # cs) \<or> has_infix p cs)"

definition partition_want :: "service_t \<Rightarrow> string" where
  "partition_want svc = (if cpuset_partition svc = PART_ISOLATED then ''isolated'' else ''root'')"

definition cgroup_partition_writes :: "sysenv \<Rightarrow> service_t \<Rightarrow> effect list" where
  "cgroup_partition_writes env svc =
     (let cg = cgroup_path svc;
          want = partition_want svc;
          root = sys_cgroup_root env;
          excl0 = (case sys_file env (root @ ''/cpuset.cpus.exclusive'') of None \<Rightarrow> [] | Some s \<Rightarrow> take 511 s);
          truncated = (length excl0 = 511);
          excl = takeWhile (\<lambda>c. c \<noteq> NL) excl0;
          merged = take 639 (if excl \<noteq> [] then excl @ '','' @ cpuset svc else cpuset svc);
          part = (case sys_file env (cg @ ''/cpuset.cpus.partition'') of None \<Rightarrow> [] | Some s \<Rightarrow> take 63 s);
          ok = (\<not> has_infix ''invalid'' part \<and> starts_with want part)
      in (if truncated then [Warn ''cpuset.cpus.exclusive too large''] 
          else [CgWrite root ''cpuset.cpus.exclusive'' merged])
       @ [CgWrite cg ''cpuset.cpus.exclusive'' (cpuset svc), CgWrite cg ''cpuset.cpus.partition'' want]
       @ (if ok then []
          else [CgWrite cg ''cpuset.cpus.partition'' ''member'',
                CgWrite cg ''cpuset.cpus.exclusive'' [NL], Warn ''cpuset_partition rejected'']))"

definition cgroup_apply_limits :: "sysenv \<Rightarrow> service_t \<Rightarrow> effect list" where
  "cgroup_apply_limits env svc =
     (if cgroup_path svc = [] then []
      else cgroup_limit_writes svc
        @ (if cpuset_partition svc \<noteq> PART_MEMBER \<and> cpuset svc \<noteq> []
           then cgroup_partition_writes env svc else []))"

text \<open>The cores leave the parent's exclusive union before the cgroup goes. The bitmaps are the
  128-byte arrays of the source; a list with a negative CPU number is \<^verbatim>\<open>None\<close>.\<close>

definition cpu_subtract :: "string \<Rightarrow> string \<Rightarrow> string option" where
  "cpu_subtract excl mine =
     (case (cpulist_parse excl (replicate 1024 False), cpulist_parse mine (replicate 1024 False)) of
        (Some h, Some m) \<Rightarrow> Some (cpulist_emit (map2 (\<lambda>x y. x \<and> \<not> y) h m) 512)
      | _ \<Rightarrow> None)"

definition service_cgroup_release_partition :: "sysenv \<Rightarrow> service_t \<Rightarrow> effect list option" where
  "service_cgroup_release_partition env svc =
     (if cgroup_path svc = [] then Some []
      else if cpuset_partition svc \<noteq> PART_MEMBER \<and> cpuset svc \<noteq> [] then
        (let root = sys_cgroup_root env;
             excl = takeWhile (\<lambda>c. c \<noteq> NL)
               (case sys_file env (root @ ''/cpuset.cpus.exclusive'') of None \<Rightarrow> [] | Some s \<Rightarrow> take 511 s)
         in map_option (\<lambda>out. [CgWrite (cgroup_path svc) ''cpuset.cpus.partition'' ''member'',
                CgWrite root ''cpuset.cpus.exclusive'' (if out \<noteq> [] then out else [NL])])
              (cpu_subtract excl (cpuset svc)))
      else Some [])"

section \<open>CPU lists round trip\<close>

definition in_runs :: "(nat \<times> nat) list \<Rightarrow> nat \<Rightarrow> bool" where
  "in_runs rs i \<longleftrightarrow> (\<exists>(a, b)\<in>set rs. a \<le> i \<and> i \<le> b)"

lemma cpu_runs_bounds:
  "(a, b) \<in> set (cpu_runs i bs) \<Longrightarrow> i \<le> a \<and> a \<le> b \<and> b < i + length bs"
proof (induction i bs arbitrary: a b rule: cpu_runs.induct)
  case (2 i bs)
  then show ?case by fastforce
next
  case (3 i bs)
  note IH = 3(1)
  show ?case
  proof (cases "cpu_runs (Suc i) bs")
    case Nil
    then show ?thesis using 3(2) by simp
  next
    case (Cons r rs)
    obtain j k where r: "r = (j, k)" by (cases r)
    have "(a, b) \<in> set ((j, k) # rs) \<or> a = i \<and> (b = i \<or> b = k)"
      using 3(2) Cons r by (auto split: if_splits)
    moreover have "Suc i \<le> j \<and> j \<le> k \<and> k < Suc i + length bs" using IH [of j k] Cons r by simp
    ultimately show ?thesis using IH [of a b] Cons r by auto
  qed
qed simp

lemma in_runs_Cons: "in_runs ((a, b) # rs) k \<longleftrightarrow> (a \<le> k \<and> k \<le> b) \<or> in_runs rs k"
  by (simp add: in_runs_def)

lemma cpu_runs_in: "in_runs (cpu_runs i bs) k \<longleftrightarrow> i \<le> k \<and> k < i + length bs \<and> bs ! (k - i)"
proof (induction i bs rule: cpu_runs.induct)
  case (1 i)
  then show ?case by (simp add: in_runs_def)
next
  case (2 i bs)
  have "i \<le> k \<and> k < i + length (False # bs) \<and> (False # bs) ! (k - i) \<longleftrightarrow>
      Suc i \<le> k \<and> k < Suc i + length bs \<and> bs ! (k - Suc i)"
    by (auto simp: nth_Cons')
  then show ?case by (simp only: cpu_runs.simps 2)
next
  case (3 i bs)
  have nth: "i \<le> k \<and> k < i + length (True # bs) \<and> (True # bs) ! (k - i) \<longleftrightarrow>
      k = i \<or> (Suc i \<le> k \<and> k < Suc i + length bs \<and> bs ! (k - Suc i))"
    by (auto simp: nth_Cons')
  have "in_runs (cpu_runs i (True # bs)) k \<longleftrightarrow> k = i \<or> in_runs (cpu_runs (Suc i) bs) k"
  proof (cases "cpu_runs (Suc i) bs")
    case Nil
    then show ?thesis by (auto simp: in_runs_def)
  next
    case (Cons r rs)
    obtain j m where r: "r = (j, m)" by (cases r)
    have "Suc i \<le> j \<and> j \<le> m" using cpu_runs_bounds [of j m "Suc i" bs] Cons r by simp
    then show ?thesis using Cons r by (cases "j = Suc i") (auto simp: in_runs_Cons)
  qed
  then show ?case by (simp only: 3 nth)
qed

lemma digit_not_sep: "c_isdigit c \<Longrightarrow> \<not> cpu_sep c \<and> c \<noteq> CHR '','' \<and> c \<noteq> CHR ''-''"
  by (auto simp: c_isdigit_def cpu_sep_def char_code_def)

lemma dropWhile_show_nat:
  assumes "r = [] \<or> hd r = CHR '','' \<or> hd r = CHR ''-''"
  shows "dropWhile (\<lambda>c. c \<noteq> CHR '','' \<and> c \<noteq> CHR ''-'') (show_nat n @ r) = r"
proof -
  have "dropWhile (\<lambda>c. c \<noteq> CHR '','' \<and> c \<noteq> CHR ''-'') (show_nat n @ r) =
      dropWhile (\<lambda>c. c \<noteq> CHR '','' \<and> c \<noteq> CHR ''-'') r"
    by (rule dropWhile_append2) (use set_show_nat digit_not_sep in blast)
  also have "\<dots> = r" using assms by (cases r) auto
  finally show ?thesis .
qed

lemma dropWhile_show_nat_comma:
  assumes "r = [] \<or> hd r = CHR '',''"
  shows "dropWhile (\<lambda>c. c \<noteq> CHR '','') (show_nat n @ r) = r"
proof -
  have "dropWhile (\<lambda>c. c \<noteq> CHR '','') (show_nat n @ r) = dropWhile (\<lambda>c. c \<noteq> CHR '','') r"
    by (rule dropWhile_append2) (use set_show_nat digit_not_sep in blast)
  also have "\<dots> = r" using assms by (cases r) auto
  finally show ?thesis .
qed

lemma atoi_show_nat:
  assumes "int n \<le> INT_MAX" "r = [] \<or> hd r = CHR '','' \<or> hd r = CHR ''-''"
  shows "atoi (show_nat n @ r) = int n"
proof -
  have "r = [] \<or> \<not> c_isdigit (hd r)" using assms(2) digit_not_sep by metis
  then show ?thesis using assms(1) by (simp add: atoi_def strtol_show_nat c_int_small INT_MAX_def LONG_MAX_def)
qed

lemma cpulist_parse_one:
  assumes "dropWhile cpu_sep s = s" "s \<noteq> []" "atoi s = a"
    "dropWhile (\<lambda>c. c \<noteq> CHR '','' \<and> c \<noteq> CHR ''-'') s = r" "\<not> (r \<noteq> [] \<and> hd r = CHR ''-'')"
  shows "cpulist_parse s bits =
    (case cpu_set_range a a bits of None \<Rightarrow> None | Some bits' \<Rightarrow> cpulist_parse r bits')"
  by (subst cpulist_parse.simps) (simp only: assms Let_def if_False)

lemma cpulist_parse_dash:
  assumes "dropWhile cpu_sep s = s" "s \<noteq> []" "atoi s = a"
    "dropWhile (\<lambda>c. c \<noteq> CHR '','' \<and> c \<noteq> CHR ''-'') s = CHR ''-'' # t" "atoi t = b"
    "dropWhile (\<lambda>c. c \<noteq> CHR '','') t = r"
  shows "cpulist_parse s bits =
    (case cpu_set_range a b bits of None \<Rightarrow> None | Some bits' \<Rightarrow> cpulist_parse r bits')"
  by (subst cpulist_parse.simps) (simp add: assms Let_def cong: option.case_cong)

lemma cpulist_parse_run:
  assumes "a \<le> b" "int b \<le> INT_MAX" "r = [] \<or> hd r = CHR '',''" "length bits > b"
  shows "cpulist_parse (show_run (a, b) @ r) bits =
    cpulist_parse r (map (\<lambda>i. bits ! i \<or> (a \<le> i \<and> i \<le> b)) [0..<length bits])"
proof -
  have sk: "dropWhile cpu_sep (show_run (a, b) @ r) = show_run (a, b) @ r"
    using hd_show_nat [of a] digit_not_sep [of "hd (show_nat a)"]
    by (cases "show_nat a") (auto simp: show_run_def)
  have ne: "show_run (a, b) @ r \<noteq> []" using hd_show_nat [of a] by (auto simp: show_run_def)
  have A: "int a \<le> INT_MAX" using assms by linarith
  show ?thesis
  proof (cases "a = b")
    case True
    have run: "show_run (a, b) = show_nat a" using True by (simp add: show_run_def)
    have 1: "atoi (show_nat a @ r) = int a" using A assms(3) by (intro atoi_show_nat) auto
    have 2: "dropWhile (\<lambda>c. c \<noteq> CHR '','' \<and> c \<noteq> CHR ''-'') (show_nat a @ r) = r"
      using assms(3) by (intro dropWhile_show_nat) auto
    have 3: "\<not> (r \<noteq> [] \<and> hd r = CHR ''-'')" using assms(3) by auto
    have "cpulist_parse (show_nat a @ r) bits =
        (case cpu_set_range (int a) (int a) bits of None \<Rightarrow> None | Some bits' \<Rightarrow> cpulist_parse r bits')"
      by (rule cpulist_parse_one [OF _ _ 1 2 3]) (use sk ne run in simp_all)
    then show ?thesis using True by (simp add: show_run_def cpu_set_range_def)
  next
    case False
    have run: "show_run (a, b) @ r = show_nat a @ ''-'' @ show_nat b @ r" using False by (simp add: show_run_def)
    have 1: "atoi (show_nat a @ ''-'' @ show_nat b @ r) = int a" using A by (intro atoi_show_nat) auto
    have 2: "dropWhile (\<lambda>c. c \<noteq> CHR '','' \<and> c \<noteq> CHR ''-'') (show_nat a @ ''-'' @ show_nat b @ r) =
        ''-'' @ show_nat b @ r" by (intro dropWhile_show_nat) auto
    have 3: "atoi (show_nat b @ r) = int b" using assms by (intro atoi_show_nat) auto
    have 4: "dropWhile (\<lambda>c. c \<noteq> CHR '','') (show_nat b @ r) = r"
      using assms(3) by (intro dropWhile_show_nat_comma)
    have "cpulist_parse (show_run (a, b) @ r) bits =
        (case cpu_set_range (int a) (int b) bits of None \<Rightarrow> None | Some bits' \<Rightarrow> cpulist_parse r bits')"
      by (rule cpulist_parse_dash [OF sk ne _ _ 3 4]) (use run 1 2 in simp_all)
    then show ?thesis using assms(1) by (simp add: cpu_set_range_def)
  qed
qed

lemma join_runs_Cons: "join_runs (r # rs) = r @ (if rs = [] then [] else '','' @ join_runs rs)"
  by (cases rs) auto

lemma cpulist_parse_comma: "cpulist_parse ('','' @ s) bits = cpulist_parse s bits"
proof -
  have "dropWhile cpu_sep ('','' @ s) = dropWhile cpu_sep s" by (simp add: cpu_sep_def)
  then show ?thesis by (simp only: cpulist_parse.simps [of "'','' @ s"] cpulist_parse.simps [of s])
qed

lemma cpulist_parse_runs:
  assumes "\<forall>(a, b)\<in>set rs. a \<le> b \<and> b < length bits" "int (length bits) \<le> INT_MAX"
  shows "cpulist_parse (join_runs (map show_run rs)) bits =
    Some (map (\<lambda>i. bits ! i \<or> in_runs rs i) [0..<length bits])"
  using assms
proof (induction rs arbitrary: bits)
  case Nil
  then show ?case by (subst cpulist_parse.simps) (simp add: in_runs_def map_nth)
next
  case (Cons r rs)
  obtain a b where r: "r = (a, b)" by (cases r)
  let ?b = "map (\<lambda>i. bits ! i \<or> (a \<le> i \<and> i \<le> b)) [0..<length bits]"
  let ?r = "if rs = [] then [] else '','' @ join_runs (map show_run rs)"
  have "cpulist_parse (join_runs (map show_run (r # rs))) bits = cpulist_parse ?r ?b"
    unfolding list.map join_runs_Cons r
    using cpulist_parse_run [of a b ?r bits] Cons.prems r by auto
  also have "\<dots> = cpulist_parse (join_runs (map show_run rs)) ?b"
    using cpulist_parse_comma by simp
  also have "\<dots> = Some (map (\<lambda>i. ?b ! i \<or> in_runs rs i) [0..<length bits])"
    using Cons.IH [of ?b] Cons.prems by auto
  finally show ?case using r by (auto simp: in_runs_def)
qed



end
