(* ===== verification/SI_Spawn.thy ===== *)
theory SI_Spawn
  imports SI_Probe SI_Cpuset
begin

text \<open>
  Listening sockets and the parent's half of \<^verbatim>\<open>service_spawn\<close> (\<^verbatim>\<open>service.c\<close>). The child's half, from
  the fork to \<^verbatim>\<open>execv\<close>, runs in another process and changes nothing PID 1 holds.
\<close>

section \<open>Sockets\<close>

text \<open>\<^verbatim>\<open>sys_listen_one\<close> answers for \<^verbatim>\<open>listen_one\<close>: the descriptor bound for a spec, negative on failure.\<close>

fun listen_open_loop :: "sysenv \<Rightarrow> string \<Rightarrow> string list \<Rightarrow> int list \<Rightarrow> effect list + int list" where
  "listen_open_loop env nm [] fds = Inr fds"
| "listen_open_loop env nm (spec # specs) fds =
     (let fd = sys_listen_one env nm spec
      in if fd < 0 then Inl (Warn ''listen'' # map CloseFd (rev fds))
         else listen_open_loop env nm specs (fds @ [fd]))"

definition service_listen_open :: "sysenv \<Rightarrow> service_t \<Rightarrow> service_t \<times> effect list \<times> bool" where
  "service_listen_open env svc =
     (if listen_open svc \<noteq> 0 then (svc, [], True)
      else case listen_open_loop env (svc_name svc) (listen svc) [] of
          Inl effs \<Rightarrow> (svc, effs, False)
        | Inr fds \<Rightarrow> (svc\<lparr>listen_fd := fds, listen_open := length (listen svc)\<rparr>, [], True))"

definition service_listen_close :: "service_t \<Rightarrow> service_t \<times> effect list" where
  "service_listen_close svc =
     (svc\<lparr>listen_open := 0\<rparr>, map CloseFd (take (listen_open svc) (listen_fd svc)))"

section \<open>The cgroup\<close>

definition service_cgroup_path_for :: "sysenv \<Rightarrow> service_t \<Rightarrow> string" where
  "service_cgroup_path_for env svc = take 255 (sys_cgroup_root env @ ''/'' @ svc_name svc)"

definition cgroup_assign :: "sysenv \<Rightarrow> service_t \<Rightarrow> int \<Rightarrow> service_t \<times> effect list" where
  "cgroup_assign env svc p =
     (if svc_name svc = ''init.scope'' then (svc\<lparr>cgroup_path := []\<rparr>, [])
      else let cg = service_cgroup_path_for env svc
           in (svc\<lparr>cgroup_path := (if sys_cgroup_join env cg then cg else [])\<rparr>,
               [CgWrite (sys_cgroup_root env) ''cgroup.subtree_control'' ''+cpu +memory +cpuset +pids +io'',
                CgRmdir cg, CgWrite cg ''cgroup.procs'' (show_int p @ [NL])]))"

text \<open>The kernel interface is by name only; a partition list with a negative CPU number, on which
  the release is undefined, leaves the record as it is.\<close>

definition service_cgroup_kill :: "sysenv \<Rightarrow> service_t \<Rightarrow> service_t \<times> effect list" where
  "service_cgroup_kill env svc =
     (if cgroup_path svc = [] then (svc, [])
      else case service_cgroup_release_partition env svc of
          None \<Rightarrow> (svc, [])
        | Some effs \<Rightarrow> (svc\<lparr>cgroup_path := []\<rparr>,
                       effs @ [CgKill (cgroup_path svc), CgRmdir (cgroup_path svc)]))"

section \<open>Spawning\<close>

definition spawn_reset :: "sysenv \<Rightarrow> service_t \<Rightarrow> service_t" where
  "spawn_reset env svc =
     (let s = svc\<lparr>ready_path_verified := False, ready_watched := 0, ctl_killed := False,
                 excise_reason := EXC_NONE, bind_died_at := ts_zero, ready_stale_ino := 0\<rparr>
      in if ready_path s = [] then s
         else case sys_stat env (ready_path s) of
             Some st \<Rightarrow> if st_isdir st then s
                        else s\<lparr>ready_stale_dev := st_dev st, ready_stale_ino := st_ino st,
                               ready_stale_ctime := st_ctim st\<rparr>
           | None \<Rightarrow> s)"

definition slot_refused :: "sysenv \<Rightarrow> service_t \<Rightarrow> bool" where
  "slot_refused env svc \<longleftrightarrow>
     0 \<le> allowed_slot_min svc \<and>
     (let slot_id = (case sys_getenv env ''SLOT_ID'' of Some v \<Rightarrow> atoi v | None \<Rightarrow> -1)
      in slot_id < allowed_slot_min svc \<or> allowed_slot_max svc < slot_id)"

definition spawn_started :: "sysenv \<Rightarrow> int \<Rightarrow> service_t \<Rightarrow> service_t" where
  "spawn_started env p s =
     s\<lparr>child_pid := p, fork_state := 0, main_pid := 0, main_wait := False,
       last_start := tv_sec (sys_real env), start_time := tv_sec (sys_real env),
       spawn_time_mono := sys_mono env,
       boot_spawn := (if ts_set (boot_spawn s) then boot_spawn s else sys_mono env),
       last_pet := sys_mono env, wd_abort_at := ts_zero,
       wd_armed_sec := (if notify s \<and> 0 < watchdog_sec s then watchdog_sec s else 0),
       notify_ready := False, notify_status := []\<rparr>"

definition spawn_forked ::
  "sysenv \<Rightarrow> service_t \<Rightarrow> int \<Rightarrow> service_t \<times> effect list \<times> bool" where
  "spawn_forked env s1 p =
     (let s2 = spawn_started env p s1;
          (s3, e3) = (if sys_cgroup_root env \<noteq> [] then cgroup_assign env s2 p else (s2, []))
      in if cgroup_path s3 = [] \<and> (service_verifies_limits s3 \<or> has_flag s3 SVC_MAIN_PID_NOTIFY)
         then (s3\<lparr>child_pid := 0\<rparr>, e3 @ [Kill p SIGKILL, Waitpid p], False)
         else (s3, e3 @ cgroup_apply_limits env s3, True))"

definition service_spawn :: "sysenv \<Rightarrow> service_t \<Rightarrow> service_t \<times> effect list \<times> bool" where
  "service_spawn env svc =
     (let s0 = spawn_reset env svc;
          (s1, e1, lok) = (if listen s0 \<noteq> [] then service_listen_open env s0 else (s0, [], True))
      in if \<not> lok then (s1, e1, False)
         else if \<not> sys_pipe_ok env then (s1, e1, False)
         else if slot_refused env s1 then
           (add_flag SVC_NO_RESTART s1, e1 @ [Warn ''slot constraint violation''], False)
         else let p = sys_fork env FkService (svc_name s1) in
           if p < 0 then (s1, e1, False)
           else case spawn_forked env s1 p of
               (s3, e3, ok) \<Rightarrow> (s3, e1 @ [RunFork FkService (svc_name s1) p] @ e3, ok))"

section \<open>What a spawn changes\<close>

lemma add_flag_sel [simp]:
  "svc_flags (add_flag k s) = set_bit k (svc_flags s)" "inst (add_flag k s) = inst s"
  "child_pid (add_flag k s) = child_pid s" "restart_count (add_flag k s) = restart_count s"
  by (simp_all add: add_flag_def)

lemma clear_flag_sel [simp]:
  "svc_flags (clear_flag k s) = unset_bit k (svc_flags s)" "inst (clear_flag k s) = inst s"
  "child_pid (clear_flag k s) = child_pid s" "restart_count (clear_flag k s) = restart_count s"
  by (simp_all add: clear_flag_def)

lemma spawn_reset_inst [simp]:
  "inst (spawn_reset env s) = inst s" "child_pid (spawn_reset env s) = child_pid s"
  "svc_flags (spawn_reset env s) = svc_flags s" "restart_count (spawn_reset env s) = restart_count s"
  by (simp_all add: spawn_reset_def Let_def split: option.split)

lemma service_listen_open_sel:
  "service_listen_open env s = (s', e, ok) \<Longrightarrow>
     inst s' = inst s \<and> child_pid s' = child_pid s \<and> restart_count s' = restart_count s \<and> svc_flags s' = svc_flags s"
  by (auto simp: service_listen_open_def split: if_splits sum.splits)

lemma cgroup_assign_sel:
  "cgroup_assign env s p = (s', e) \<Longrightarrow>
     inst s' = inst s \<and> child_pid s' = child_pid s \<and> restart_count s' = restart_count s \<and>
     svc_flags s' = svc_flags s"
  by (auto simp: cgroup_assign_def Let_def split: if_splits)

end
