(* ===== verification/SI_Evict.thy ===== *)
theory SI_Evict
  imports SI_Spawn
begin

text \<open>
  The eviction table (\<^verbatim>\<open>engine.c\<close>, \<^verbatim>\<open>eviction_t\<close> of \<^verbatim>\<open>reexec_state.h\<close>): processes and cgroups of
  services that left the configuration, or whose killed tree could not be removed yet, until
  the kernel has let go of them. Each operation returns the table and what it did outside.
\<close>

abbreviation (input) MAX_EVICTIONS :: nat where "MAX_EVICTIONS \<equiv> 16"
abbreviation (input) EVICT_GRACE_SECS :: int where "EVICT_GRACE_SECS \<equiv> 3"
abbreviation (input) EVICT_KILL_WAIT_SECS :: int where "EVICT_KILL_WAIT_SECS \<equiv> 5"
abbreviation (input) EVICT_STUCK_RECHECK_SECS :: int where "EVICT_STUCK_RECHECK_SECS \<equiv> 60"

record eviction_t =
  ev_pid :: int
  ev_cgroup :: string
  ev_deadline :: int
  ev_reaped :: bool
  ev_killed :: int

definition mono_sec :: "sysenv \<Rightarrow> int" where
  "mono_sec env = tv_sec (sys_mono env)"

text \<open>A \<^verbatim>\<open>cgroup.events\<close> file that cannot be read is one that does not exist.\<close>

function populated_lines :: "string \<Rightarrow> int" where
  "populated_lines s =
     (case c_fgets 63 s of (line, r) \<Rightarrow>
        if line = [] then 1
        else if starts_with ''populated'' line \<and> snd (strtol (drop 9 line)) \<noteq> drop 9 line
        then fst (strtol (drop 9 line))
        else populated_lines r)"
  by pat_completeness auto
termination
proof (relation "measure length", goal_cases)
  case 1
  then show ?case by simp
next
  case (2 s line r)
  then have "length s = length line + length r" by (metis length_c_fgets)
  with 2 show ?case by (cases line) auto
qed

declare populated_lines.simps [simp del]

definition cgroup_populated :: "sysenv \<Rightarrow> string \<Rightarrow> bool" where
  "cgroup_populated env cg =
     (case sys_file env (cg @ ''/cgroup.events'') of None \<Rightarrow> False | Some s \<Rightarrow> populated_lines s \<noteq> 0)"

definition eviction_add_as ::
  "sysenv \<Rightarrow> int \<Rightarrow> string \<Rightarrow> bool \<Rightarrow> int \<Rightarrow> int \<Rightarrow> eviction_t list \<Rightarrow> eviction_t list" where
  "eviction_add_as env p cg reaped killed grace evs =
     (if MAX_EVICTIONS \<le> length evs then evs
      else evs @ [\<lparr>ev_pid = p, ev_cgroup = take 255 cg, ev_deadline = mono_sec env + grace,
                   ev_reaped = reaped, ev_killed = killed\<rparr>])"

definition eviction_add :: "sysenv \<Rightarrow> int \<Rightarrow> string \<Rightarrow> eviction_t list \<Rightarrow> eviction_t list" where
  "eviction_add env p cg evs = eviction_add_as env p cg False 0 EVICT_GRACE_SECS evs"

function eviction_forget_from :: "string \<Rightarrow> nat \<Rightarrow> eviction_t list \<Rightarrow> eviction_t list" where
  "eviction_forget_from cg i evs =
     (if i < length evs then
        (if ev_pid (evs ! i) = 0 \<and> ev_cgroup (evs ! i) = cg
         then eviction_forget_from cg i (swap_remove i evs)
         else eviction_forget_from cg (Suc i) evs)
      else evs)"
  by pat_completeness auto
termination by (relation "measure (\<lambda>(cg, i, evs). length evs - i)") auto

declare eviction_forget_from.simps [simp del]

definition eviction_forget :: "string \<Rightarrow> eviction_t list \<Rightarrow> eviction_t list" where
  "eviction_forget cg evs = eviction_forget_from cg 0 evs"

definition svc_cgroup_kill_tree ::
  "sysenv \<Rightarrow> service_t \<Rightarrow> eviction_t list \<Rightarrow> service_t \<times> eviction_t list \<times> effect list" where
  "svc_cgroup_kill_tree env svc evs =
     (let cg = cgroup_path svc; (svc', effs) = service_cgroup_kill env svc
      in (svc',
          if cg \<noteq> [] \<and> sys_exists env cg
          then eviction_add_as env 0 cg True 1 1 (eviction_forget cg evs) else evs,
          effs))"

definition eviction_drop :: "nat \<Rightarrow> eviction_t list \<Rightarrow> eviction_t list \<times> effect list" where
  "eviction_drop i evs =
     (swap_remove i evs, if ev_cgroup (evs ! i) \<noteq> [] then [CgRmdir (ev_cgroup (evs ! i))] else [])"

section \<open>A child was reaped\<close>

fun eviction_mark_from :: "int \<Rightarrow> nat \<Rightarrow> eviction_t list \<Rightarrow> nat option" where
  "eviction_mark_from p i [] = None"
| "eviction_mark_from p i (e # es) =
     (if ev_pid e \<noteq> p \<or> ev_reaped e then eviction_mark_from p (Suc i) es else Some i)"

function eviction_sweep_empty ::
  "sysenv \<Rightarrow> nat \<Rightarrow> eviction_t list \<Rightarrow> effect list \<Rightarrow> eviction_t list \<times> effect list" where
  "eviction_sweep_empty env i evs effs =
     (if i < length evs then
        (if ev_cgroup (evs ! i) \<noteq> [] \<and> (ev_reaped (evs ! i) \<or> ev_killed (evs ! i) \<noteq> 0) \<and>
            \<not> cgroup_populated env (ev_cgroup (evs ! i))
         then (case eviction_drop i evs of (evs', e) \<Rightarrow> eviction_sweep_empty env i evs' (effs @ e))
         else eviction_sweep_empty env (Suc i) evs effs)
      else (evs, effs))"
  by pat_completeness auto
termination
  by (relation "measure (\<lambda>(env, i, evs, effs). length evs - i)") (auto simp: eviction_drop_def)

declare eviction_sweep_empty.simps [simp del]

definition eviction_reaped :: "sysenv \<Rightarrow> int \<Rightarrow> eviction_t list \<Rightarrow> eviction_t list \<times> effect list" where
  "eviction_reaped env p evs =
     (let (evs1, e1) =
            (case eviction_mark_from p 0 evs of
               None \<Rightarrow> (evs, [])
             | Some i \<Rightarrow> if ev_cgroup (evs ! i) \<noteq> [] then (evs[i := (evs ! i)\<lparr>ev_reaped := True\<rparr>], [])
                         else eviction_drop i evs)
      in eviction_sweep_empty env 0 evs1 e1)"

section \<open>A reload brought a name back\<close>

function eviction_readded_from ::
  "sysenv \<Rightarrow> service_t list \<Rightarrow> nat \<Rightarrow> eviction_t list \<Rightarrow> effect list \<Rightarrow> eviction_t list \<times> effect list" where
  "eviction_readded_from env svcs i evs effs =
     (if i < length evs then
        (if \<not> list_ex (\<lambda>s. child_pid s = 0 \<and> ev_cgroup (evs ! i) \<noteq> [] \<and>
                          ev_cgroup (evs ! i) = service_cgroup_path_for env s) svcs
         then eviction_readded_from env svcs (Suc i) evs effs
         else case eviction_drop i evs of (evs', e) \<Rightarrow>
           eviction_readded_from env svcs i evs'
             (effs @ (if cgroup_populated env (ev_cgroup (evs ! i)) \<and> sys_cg_kill_ok env (ev_cgroup (evs ! i))
                      then [CgKill (ev_cgroup (evs ! i))] else []) @ e))
      else (evs, effs))"
  by pat_completeness auto
termination
  by (relation "measure (\<lambda>(env, svcs, i, evs, effs). length evs - i)") (auto simp: eviction_drop_def)

declare eviction_readded_from.simps [simp del]

definition eviction_readded ::
  "sysenv \<Rightarrow> service_t list \<Rightarrow> eviction_t list \<Rightarrow> eviction_t list \<times> effect list" where
  "eviction_readded env svcs evs = eviction_readded_from env svcs 0 evs []"

section \<open>The sweep of every pass\<close>

datatype evict_step = EvKeep eviction_t "effect list" | EvDrop "effect list"

definition eviction_step :: "sysenv \<Rightarrow> int \<Rightarrow> eviction_t \<Rightarrow> evict_step" where
  "eviction_step env now e =
     (if now < ev_deadline e then EvKeep e []
      else let live = (if ev_cgroup e \<noteq> [] then cgroup_populated env (ev_cgroup e) else True) in
        if ev_killed e \<noteq> 0 then
          (if \<not> live then EvDrop []
           else EvKeep (e\<lparr>ev_killed := 2, ev_deadline := now + EVICT_STUCK_RECHECK_SECS\<rparr>)
                  (if ev_killed e = 1 then [Warn ''still populated after SIGKILL''] else []))
        else if \<not> live then EvDrop []
        else
          let cgk = (ev_cgroup e \<noteq> [] \<and> sys_cg_kill_ok env (ev_cgroup e));
              direct = (\<not> cgk \<and> \<not> ev_reaped e \<and> 0 < ev_pid e);
              killed = (cgk \<or> direct);
              effs = (if cgk then [CgKill (ev_cgroup e)] else [])
                @ (if direct then [Kill (- ev_pid e) SIGKILL, Kill (ev_pid e) SIGKILL] else [])
                @ (if killed then [Warn ''eviction grace expired''] else [])
          in if killed \<and> ev_cgroup e \<noteq> []
             then EvKeep (e\<lparr>ev_killed := 1, ev_deadline := now + EVICT_KILL_WAIT_SECS\<rparr>) effs
             else EvDrop effs)"

function eviction_tick_from ::
  "sysenv \<Rightarrow> int \<Rightarrow> nat \<Rightarrow> eviction_t list \<Rightarrow> effect list \<Rightarrow> eviction_t list \<times> effect list" where
  "eviction_tick_from env now i evs effs =
     (if i < length evs then
        (case eviction_step env now (evs ! i) of
           EvKeep e' es \<Rightarrow> eviction_tick_from env now (Suc i) (evs[i := e']) (effs @ es)
         | EvDrop es \<Rightarrow> (case eviction_drop i evs of (evs', d) \<Rightarrow>
             eviction_tick_from env now i evs' (effs @ es @ d)))
      else (evs, effs))"
  by pat_completeness auto
termination
  by (relation "measure (\<lambda>(env, now, i, evs, effs). length evs - i)") (auto simp: eviction_drop_def)

declare eviction_tick_from.simps [simp del]

definition eviction_tick :: "sysenv \<Rightarrow> eviction_t list \<Rightarrow> eviction_t list \<times> effect list" where
  "eviction_tick env evs = eviction_tick_from env (mono_sec env) 0 evs []"

section \<open>Properties\<close>

lemma nth_swap_remove:
  assumes "i < length xs" "k < length xs - 1"
  shows "swap_remove i xs ! k = (if k = i then last xs else xs ! k)"
  using assms by (simp add: swap_remove_def nth_butlast)

lemma swap_remove_above:
  assumes "i < length xs" "\<forall>k<length xs. i \<le> k \<longrightarrow> P (xs ! k)"
  shows "\<forall>k<length (swap_remove i xs). i \<le> k \<longrightarrow> P (swap_remove i xs ! k)"
proof (intro allI impI)
  fix k
  assume "k < length (swap_remove i xs)" "i \<le> k"
  moreover have "last xs = xs ! (length xs - 1)" using assms(1) by (intro last_conv_nth) auto
  ultimately show "P (swap_remove i xs ! k)"
    using assms by (simp add: nth_swap_remove)
qed

subsection \<open>The table is bounded\<close>

lemma length_eviction_forget_from: "length (eviction_forget_from cg i evs) \<le> length evs"
proof (induction cg i evs rule: eviction_forget_from.induct)
  case (1 cg i evs)
  then show ?case by (subst eviction_forget_from.simps) (auto intro: order.trans)
qed

lemma length_eviction_sweep_empty: "length (fst (eviction_sweep_empty env i evs effs)) \<le> length evs"
proof (induction env i evs effs rule: eviction_sweep_empty.induct)
  case (1 env i evs effs)
  then show ?case
    by (subst eviction_sweep_empty.simps) (auto simp: eviction_drop_def intro: order.trans)
qed

lemma length_eviction_readded_from:
  "length (fst (eviction_readded_from env svcs i evs effs)) \<le> length evs"
proof (induction env svcs i evs effs rule: eviction_readded_from.induct)
  case (1 env svcs i evs effs)
  then show ?case
    by (subst eviction_readded_from.simps) (auto simp: eviction_drop_def intro: order.trans)
qed

lemma length_eviction_tick_from:
  "length (fst (eviction_tick_from env now i evs effs)) \<le> length evs"
proof (induction env now i evs effs rule: eviction_tick_from.induct)
  case (1 env now i evs effs)
  show ?case
  proof (cases "i < length evs")
    case True
    show ?thesis
    proof (cases "eviction_step env now (evs ! i)")
      case (EvKeep e' es)
      then show ?thesis using True 1(1) [OF True EvKeep] by (subst eviction_tick_from.simps) simp
    next
      case (EvDrop es)
      obtain evs' d where d: "eviction_drop i evs = (evs', d)" by (cases "eviction_drop i evs")
      then have "length evs' \<le> length evs" by (auto simp: eviction_drop_def)
      with 1(2) [OF True EvDrop d [symmetric]] show ?thesis
        using True EvDrop d by (subst eviction_tick_from.simps) simp
    qed
  qed (simp add: eviction_tick_from.simps [of env now i evs effs])
qed

lemma length_eviction_reaped: "length (fst (eviction_reaped env p evs)) \<le> length evs"
  by (auto simp: eviction_reaped_def eviction_drop_def split: option.split
      intro: order.trans [OF length_eviction_sweep_empty])

lemma length_eviction_add_as:
  "length evs \<le> MAX_EVICTIONS \<Longrightarrow> length (eviction_add_as env p cg r k g evs) \<le> MAX_EVICTIONS"
  by (simp add: eviction_add_as_def)

lemma length_svc_cgroup_kill_tree:
  "length evs \<le> MAX_EVICTIONS \<Longrightarrow>
   length (fst (snd (svc_cgroup_kill_tree env svc evs))) \<le> MAX_EVICTIONS"
  using length_eviction_forget_from [of "cgroup_path svc" 0 evs]
  by (auto simp: svc_cgroup_kill_tree_def Let_def eviction_forget_def split: prod.splits
      intro!: length_eviction_add_as)

subsection \<open>Whom the sweep signals\<close>

definition sweep_kill_ok :: "int \<Rightarrow> eviction_t set \<Rightarrow> effect \<Rightarrow> bool" where
  "sweep_kill_ok now S ef \<longleftrightarrow>
     (case ef of
        Kill p sg \<Rightarrow> (\<exists>e\<in>S. \<not> ev_reaped e \<and> 0 < ev_pid e \<and> ev_deadline e \<le> now \<and> ev_killed e = 0 \<and>
                       (p = ev_pid e \<or> p = - ev_pid e))
      | CgKill cg \<Rightarrow> (\<exists>e\<in>S. ev_cgroup e = cg \<and> cg \<noteq> [] \<and> ev_deadline e \<le> now \<and> ev_killed e = 0)
      | _ \<Rightarrow> True)"

lemma eviction_step_kill_ok:
  assumes "e \<in> S" "eviction_step env now e = EvKeep e' es \<or> eviction_step env now e = EvDrop es" "ef \<in> set es"
  shows "sweep_kill_ok now S ef"
  using assms unfolding eviction_step_def Let_def sweep_kill_ok_def
  by (auto simp: not_less split: if_splits intro!: bexI [OF _ assms(1)])

lemma eviction_tick_from_kill_ok:
  assumes "\<forall>k<length evs. i \<le> k \<longrightarrow> evs ! k \<in> S" "\<forall>ef\<in>set effs. sweep_kill_ok now S ef"
  shows "\<forall>ef\<in>set (snd (eviction_tick_from env now i evs effs)). sweep_kill_ok now S ef"
  using assms
proof (induction env now i evs effs rule: eviction_tick_from.induct)
  case (1 env now i evs effs)
  show ?case
  proof (cases "i < length evs")
    case False
    then show ?thesis using 1 by (subst eviction_tick_from.simps) simp
  next
    case i: True
    then have mem: "evs ! i \<in> S" using 1(3) by simp
    show ?thesis
    proof (cases "eviction_step env now (evs ! i)")
      case (EvKeep e' es)
      have "\<forall>ef\<in>set (effs @ es). sweep_kill_ok now S ef"
        using 1(4) eviction_step_kill_ok [OF mem, of env now e' es] EvKeep by auto
      moreover have "\<forall>k<length (evs[i := e']). Suc i \<le> k \<longrightarrow> evs[i := e'] ! k \<in> S"
        using 1(3) by simp
      ultimately have "\<forall>ef\<in>set (snd (eviction_tick_from env now (Suc i) (evs[i := e']) (effs @ es))). sweep_kill_ok now S ef"
        using 1(1) [OF i EvKeep] by blast
      then show ?thesis using i EvKeep by (subst eviction_tick_from.simps) simp
    next
      case (EvDrop es)
      obtain evs' d where d: "eviction_drop i evs = (evs', d)" by (cases "eviction_drop i evs")
      then have ev': "evs' = swap_remove i evs" and dd: "\<forall>ef\<in>set d. sweep_kill_ok now S ef"
        by (auto simp: eviction_drop_def sweep_kill_ok_def split: if_splits)
      have "\<forall>ef\<in>set (effs @ es @ d). sweep_kill_ok now S ef"
        using 1(4) dd eviction_step_kill_ok [OF mem, of env now undefined es] EvDrop by auto
      moreover have "\<forall>k<length evs'. i \<le> k \<longrightarrow> evs' ! k \<in> S"
        unfolding ev' using i 1(3) by (rule swap_remove_above)
      ultimately have "\<forall>ef\<in>set (snd (eviction_tick_from env now i evs' (effs @ es @ d))). sweep_kill_ok now S ef"
        using 1(2) [OF i EvDrop d [symmetric]] by blast
      then show ?thesis using i EvDrop d by (subst eviction_tick_from.simps) simp
    qed
  qed
qed

lemma eviction_tick_kill_ok:
  "ef \<in> set (snd (eviction_tick env evs)) \<Longrightarrow> sweep_kill_ok (mono_sec env) (set evs) ef"
  using eviction_tick_from_kill_ok [of evs 0 "set evs" "[]" "mono_sec env" env]
  by (simp add: eviction_tick_def)

subsection \<open>A reaped process is not signalled again\<close>

definition live_entry :: "int \<Rightarrow> eviction_t \<Rightarrow> bool" where
  "live_entry p e \<longleftrightarrow> ev_pid e = p \<and> \<not> ev_reaped e"

lemma eviction_mark_from_Some:
  "eviction_mark_from p i evs = Some k \<Longrightarrow> i \<le> k \<and> k - i < length evs \<and> live_entry p (evs ! (k - i))"
proof (induction p i evs rule: eviction_mark_from.induct)
  case (2 p i e es)
  show ?case
  proof (cases "ev_pid e \<noteq> p \<or> ev_reaped e")
    case True
    then have "Suc i \<le> k \<and> k - Suc i < length es \<and> live_entry p (es ! (k - Suc i))" using 2 by simp
    then show ?thesis by (auto simp: nth_Cons')
  next
    case False
    then show ?thesis using 2(2) by (auto simp: live_entry_def)
  qed
qed simp

lemma eviction_mark_from_None:
  "eviction_mark_from p i evs = None \<longleftrightarrow> (\<forall>e\<in>set evs. \<not> live_entry p e)"
  by (induction p i evs rule: eviction_mark_from.induct) (auto simp: live_entry_def)

lemma set_eviction_sweep_empty: "set (fst (eviction_sweep_empty env i evs effs)) \<subseteq> set evs"
proof (induction env i evs effs rule: eviction_sweep_empty.induct)
  case (1 env i evs effs)
  show ?case
  proof (cases "i < length evs")
    case True
    then show ?thesis
      using 1(1) [OF True] 1(2) [OF True] set_swap_remove_subset [OF True]
      by (subst eviction_sweep_empty.simps) (auto simp: eviction_drop_def)
  qed (simp add: eviction_sweep_empty.simps [of env i evs effs])
qed

lemma not_live_after_reaped:
  assumes "\<And>i j. i < length evs \<Longrightarrow> j < length evs \<Longrightarrow> live_entry p (evs ! i) \<Longrightarrow> live_entry p (evs ! j) \<Longrightarrow> i = j"
    and "e \<in> set (fst (eviction_reaped env p evs))"
  shows "\<not> live_entry p e"
proof (cases "eviction_mark_from p 0 evs")
  case None
  then have "e \<in> set evs"
    using assms(2) set_eviction_sweep_empty by (fastforce simp: eviction_reaped_def)
  then show ?thesis using None by (simp add: eviction_mark_from_None)
next
  case (Some k)
  then have k: "k < length evs" "live_entry p (evs ! k)" using eviction_mark_from_Some [OF Some] by auto
  have other: "\<not> live_entry p (evs ! j)" if "j < length evs" "j \<noteq> k" for j
    using assms(1) [OF that(1) k(1)] that(2) k(2) by blast
  show ?thesis
  proof (cases "ev_cgroup (evs ! k) = []")
    case False
    then have "e \<in> set (evs[k := (evs ! k)\<lparr>ev_reaped := True\<rparr>])"
      using assms(2) Some set_eviction_sweep_empty by (fastforce simp: eviction_reaped_def)
    then obtain j where j: "j < length evs" "e = evs[k := (evs ! k)\<lparr>ev_reaped := True\<rparr>] ! j"
      by (auto simp: in_set_conv_nth)
    then show ?thesis using other [of j] k by (cases "j = k") (auto simp: live_entry_def)
  next
    case True
    then have "e \<in> set (swap_remove k evs)"
      using assms(2) Some set_eviction_sweep_empty by (fastforce simp: eviction_reaped_def eviction_drop_def)
    then obtain j where j: "j < length evs - 1" "e = swap_remove k evs ! j"
      by (auto simp: in_set_conv_nth)
    moreover have "last evs = evs ! (length evs - 1)" using k(1) by (intro last_conv_nth) auto
    ultimately show ?thesis using other [of j] other [of "length evs - 1"] k(1)
      by (auto simp: nth_swap_remove)
  qed
qed



end
