(* ===== verification/SI_Notify.thy ===== *)
theory SI_Notify
  imports SI_Lines
begin

text \<open>
  The readiness protocol's pure half (\<^verbatim>\<open>notify.h\<close>): the datagram parser, attribution of a sender to a
  service by its cgroup path, and the test for the broker's executable; and the signal names of
  \<^verbatim>\<open>coredump.h\<close>. A datagram is the character list the kernel delivered; a C string taken from it
  ends at its first NUL.
\<close>

definition cstr :: "string \<Rightarrow> string" where
  "cstr s = takeWhile (\<lambda>c. c \<noteq> CHR 0x00) s"

abbreviation (input) NOTIFY_STATUS_MAX :: nat where "NOTIFY_STATUS_MAX \<equiv> 128"

record notify_msg =
  nm_ready :: bool
  nm_reloading :: bool
  nm_stopping :: bool
  nm_watchdog :: bool
  nm_status :: string
  nm_busname :: string
  nm_bus_owner_pid :: int
  nm_fdstore :: bool
  nm_fdstore_remove :: bool
  nm_fdname :: string
  nm_mainpid :: int

definition notify_msg_zero :: notify_msg where
  "notify_msg_zero = \<lparr>nm_ready = False, nm_reloading = False, nm_stopping = False, nm_watchdog = False,
     nm_status = [], nm_busname = [], nm_bus_owner_pid = 0, nm_fdstore = False,
     nm_fdstore_remove = False, nm_fdname = [], nm_mainpid = 0\<rparr>"

definition status_char :: "char \<Rightarrow> char" where
  "status_char c = (if char_code c < 0x20 then CHR '' '' else c)"

definition mainpid_value :: "string \<Rightarrow> int option" where
  "mainpid_value ds =
     (case scan_digits 0 ds of (v, r) \<Rightarrow> if r = [] \<and> 0 < v \<and> v \<le> INT_MAX then Some v else None)"

definition notify_line :: "string \<Rightarrow> notify_msg \<times> bool \<Rightarrow> notify_msg \<times> bool" where
  "notify_line l = (\<lambda>(m, any).
     if l = ''READY=1'' then (m\<lparr>nm_ready := True\<rparr>, True)
     else if l = ''RELOADING=1'' then (m\<lparr>nm_reloading := True\<rparr>, True)
     else if l = ''STOPPING=1'' then (m\<lparr>nm_stopping := True\<rparr>, True)
     else if l = ''WATCHDOG=1'' then (m\<lparr>nm_watchdog := True\<rparr>, True)
     else if l = ''FDSTORE=1'' then (m\<lparr>nm_fdstore := True\<rparr>, True)
     else if l = ''FDSTOREREMOVE=1'' then (m\<lparr>nm_fdstore_remove := True\<rparr>, True)
     else if 7 < length l \<and> starts_with ''FDNAME='' l then
       (m\<lparr>nm_fdname := (if 64 \<le> length l - 7 then '':'' else cstr (drop 7 l))\<rparr>, any)
     else if 8 < length l \<and> length l - 8 < 256 \<and> starts_with ''BUSNAME='' l then
       (m\<lparr>nm_busname := cstr (drop 8 l)\<rparr>, True)
     else if 12 < length l \<and> length l < 24 \<and> starts_with ''BUSOWNERPID='' l then
       (m\<lparr>nm_bus_owner_pid := atoi (cstr (drop 12 l))\<rparr>, True)
     else if 8 < length l \<and> length l < 19 \<and> starts_with ''MAINPID='' l then
       (case mainpid_value (drop 8 l) of Some v \<Rightarrow> (m\<lparr>nm_mainpid := v\<rparr>, True) | None \<Rightarrow> (m, any))
     else if 7 < length l \<and> starts_with ''STATUS='' l then
       (m\<lparr>nm_status := map status_char (cstr (take (NOTIFY_STATUS_MAX - 1) (drop 7 l)))\<rparr>, True)
     else (m, any))"

function notify_loop :: "string \<Rightarrow> notify_msg \<times> bool \<Rightarrow> notify_msg \<times> bool" where
  "notify_loop p st =
     (if p = [] then st
      else let l = takeWhile (\<lambda>c. c \<noteq> NL) p
           in notify_loop (drop (length l + 1) p) (notify_line l st))"
  by pat_completeness auto
termination by (relation "measure (\<lambda>(p, st). length p)") (auto simp: diff_less)

declare notify_loop.simps [simp del]

definition notify_parse :: "string \<Rightarrow> notify_msg \<times> bool" where
  "notify_parse buf = notify_loop buf (notify_msg_zero, False)"

section \<open>Attribution\<close>

fun strstr :: "string \<Rightarrow> string \<Rightarrow> nat option" where
  "strstr p [] = (if p = [] then Some 0 else None)"
| "strstr p (c # cs) =
     (if starts_with p (c # cs) then Some 0 else map_option Suc (strstr p cs))"

definition notify_cgroup_text_matches :: "string \<Rightarrow> string \<Rightarrow> bool" where
  "notify_cgroup_text_matches text cg_path =
     (if \<not> starts_with ''/sys/fs/cgroup'' cg_path then False
      else let want = drop 14 cg_path in
        if want = [] then False
        else case strstr ''0::'' text of
            None \<Rightarrow> False
          | Some k \<Rightarrow>
              if k \<noteq> 0 \<and> text ! (k - 1) \<noteq> NL then False
              else let have_s = drop (k + 3) text;
                       hl = length (takeWhile (\<lambda>c. c \<noteq> NL) have_s)
                   in if hl < length want \<or> take (length want) have_s \<noteq> want then False
                      else hl = length want \<or> have_s ! length want = CHR ''/'')"

definition notify_broker_exe_ok :: "string \<Rightarrow> bool" where
  "notify_broker_exe_ok exe =
     (let l = (if 10 < length exe \<and> ends_with '' (deleted)'' exe then length exe - 10 else length exe)
      in take l exe = ''/usr/bin/schema-dbus'' \<or> take l exe = ''/usr/local/bin/schema-dbus'')"

definition sig_names :: "string list" where
  "sig_names = [''HUP'', ''INT'', ''QUIT'', ''ILL'', ''TRAP'', ''ABRT'', ''BUS'', ''FPE'', ''KILL'', ''USR1'',
     ''SEGV'', ''USR2'', ''PIPE'', ''ALRM'', ''TERM'', [], ''CHLD'', ''CONT'', ''STOP'', ''TSTP'', ''TTIN'',
     ''TTOU'', ''URG'', ''XCPU'', ''XFSZ'', ''VTALRM'', ''PROF'', ''WINCH'', ''IO'', ''PWR'', ''SYS'']"

text \<open>The table has no entry for signal 16, where C reads a null pointer.\<close>

definition sig_abbrev :: "int \<Rightarrow> string option" where
  "sig_abbrev sig =
     (if 0 < sig \<and> sig < 32 \<and> sig \<noteq> 16 then Some (sig_names ! nat (sig - 1)) else None)"

section \<open>Properties\<close>

definition notify_msg_ok :: "notify_msg \<Rightarrow> bool" where
  "notify_msg_ok m \<longleftrightarrow>
     length (nm_status m) < NOTIFY_STATUS_MAX \<and> (\<forall>c\<in>set (nm_status m). 0x20 \<le> char_code c) \<and>
     length (nm_fdname m) < 64 \<and> length (nm_busname m) < 256 \<and>
     0 \<le> nm_mainpid m \<and> nm_mainpid m \<le> INT_MAX"

lemma length_cstr: "length (cstr s) \<le> length s"
  by (simp add: cstr_def length_takeWhile_le)

lemma status_char_printable: "0x20 \<le> char_code (status_char c)"
  by (simp add: status_char_def char_code_def)

lemma status_len: "length (cstr (take 127 s)) < 128"
  using length_cstr [of "take 127 s"] by (simp add: less_le_trans [of _ 128])

lemma notify_line_ok: "notify_msg_ok (fst st) \<Longrightarrow> notify_msg_ok (fst (notify_line l st))"
proof -
  assume ok: "notify_msg_ok (fst st)"
  obtain m any where st: "st = (m, any)" by (cases st)
  have bn: "length l - 8 < 256 \<Longrightarrow> length (cstr (drop 8 l)) < 256"
    using length_cstr [of "drop 8 l"] by simp
  have fd: "\<not> 64 \<le> length l - 7 \<Longrightarrow> length (cstr (drop 7 l)) < 64"
    using length_cstr [of "drop 7 l"] by simp
  have mp: "mainpid_value (drop 8 l) = Some v \<Longrightarrow> 0 \<le> v \<and> v \<le> INT_MAX" for v
    by (auto simp: mainpid_value_def split: prod.splits if_splits)
  show ?thesis
    using ok status_len [of "drop 7 l"] bn fd mp unfolding st notify_line_def notify_msg_ok_def
    by (auto simp: status_char_printable split: option.split)
qed

lemma notify_loop_ok: "notify_msg_ok (fst st) \<Longrightarrow> notify_msg_ok (fst (notify_loop p st))"
proof (induction p st rule: notify_loop.induct)
  case (1 p st)
  then show ?case by (subst notify_loop.simps) (simp add: notify_line_ok Let_def)
qed

text \<open>A match places the process in the service's cgroup or strictly below it: a sibling whose
  name merely begins with the service's name is not taken.\<close>




end
