(* ===== verification/SI_Fdstore.thy ===== *)
theory SI_Fdstore
  imports SI_Prelude "HOL-Library.Multiset"
begin

text \<open>
  The file-descriptor store (\<^verbatim>\<open>fdstore.h\<close>): descriptors a daemon hands to PID 1 across its restarts.
  The store is the list of its entries; the soft descriptor limit is an argument (\<^verbatim>\<open>None\<close> is
  unlimited or unreadable) and growing the array does not fail.
\<close>

abbreviation (input) FDSTORE_MAX_TOTAL :: nat where "FDSTORE_MAX_TOTAL \<equiv> 4096"
abbreviation (input) FDSTORE_HEADROOM :: int where "FDSTORE_HEADROOM \<equiv> 256"

record fdstore_ent =
  fe_svc :: string
  fe_name :: string
  fe_fd :: int

definition fdstore_char :: "char \<Rightarrow> bool" where
  "fdstore_char c \<longleftrightarrow> c_isalpha c \<or> c_isdigit c \<or> c = CHR ''_'' \<or> c = CHR ''.'' \<or> c = CHR ''-''"

definition fdstore_valid_name :: "string \<Rightarrow> bool" where
  "fdstore_valid_name nm \<longleftrightarrow> 1 \<le> length nm \<and> length nm \<le> 63 \<and> list_all fdstore_char nm"

definition fdstore_count :: "fdstore_ent list \<Rightarrow> string \<Rightarrow> nat" where
  "fdstore_count v svc = length (filter (\<lambda>e. fe_svc e = svc) v)"

definition fdstore_room :: "int option \<Rightarrow> int \<Rightarrow> bool" where
  "fdstore_room rl fd = (case rl of None \<Rightarrow> True | Some cur \<Rightarrow> fd + FDSTORE_HEADROOM < cur)"

definition fdstore_add ::
  "int option \<Rightarrow> fdstore_ent list \<Rightarrow> string \<Rightarrow> int \<Rightarrow> string \<Rightarrow> int \<Rightarrow> fdstore_ent list option" where
  "fdstore_add rl v svc fd name0 mx =
     (let nm = (if name0 = [] then ''stored'' else name0)
      in if mx \<le> 0 \<or> \<not> fdstore_room rl fd \<or> 64 \<le> length svc \<or> \<not> fdstore_valid_name nm \<or>
            FDSTORE_MAX_TOTAL \<le> length v \<or> mx \<le> int (fdstore_count v svc)
         then None
         else Some (v @ [\<lparr>fe_svc = svc, fe_name = nm, fe_fd = fd\<rparr>]))"

text \<open>The kept entries and the descriptors handed to the closer.\<close>

definition fdstore_gone :: "string \<Rightarrow> string option \<Rightarrow> fdstore_ent \<Rightarrow> bool" where
  "fdstore_gone svc nm e \<longleftrightarrow> fe_svc e = svc \<and> (case nm of None \<Rightarrow> True | Some n \<Rightarrow> fe_name e = n)"

definition fdstore_take :: "fdstore_ent list \<Rightarrow> string \<Rightarrow> string option \<Rightarrow> fdstore_ent list \<times> int list" where
  "fdstore_take v svc nm =
     (filter (\<lambda>e. \<not> fdstore_gone svc nm e) v, map fe_fd (filter (fdstore_gone svc nm) v))"

definition fdstore_remove :: "fdstore_ent list \<Rightarrow> string \<Rightarrow> string \<Rightarrow> fdstore_ent list \<times> int list" where
  "fdstore_remove v svc nm = fdstore_take v svc (Some nm)"

definition fdstore_drop :: "fdstore_ent list \<Rightarrow> string \<Rightarrow> fdstore_ent list \<times> int list" where
  "fdstore_drop v svc = fdstore_take v svc None"

definition fdstore_collect :: "fdstore_ent list \<Rightarrow> string \<Rightarrow> nat \<Rightarrow> (int \<times> string) list" where
  "fdstore_collect v svc mx =
     take mx (map (\<lambda>e. (fe_fd e, fe_name e)) (filter (\<lambda>e. fe_svc e = svc) v))"

text \<open>The loop of \<^verbatim>\<open>fdstore_fdnames\<close> over the sockets' name, repeated, and the stored names; \<^verbatim>\<open>out\<close> is
  what has been written, and \<^verbatim>\<open>None\<close> the return of -1 when the buffer of \<^verbatim>\<open>n\<close> bytes is too small.\<close>

fun fdnames_loop :: "string list \<Rightarrow> nat \<Rightarrow> bool \<Rightarrow> string \<Rightarrow> string option" where
  "fdnames_loop [] n fst_p out = (if n < 1 then None else Some out)"
| "fdnames_loop (nm # nms) n fst_p out =
     (if n < length out + length nm + (if fst_p then 0 else 1) + 1 then None
      else fdnames_loop nms n False (out @ (if fst_p then [] else '':'') @ nm))"

definition fdstore_fdnames :: "fdstore_ent list \<Rightarrow> string \<Rightarrow> nat \<Rightarrow> nat \<Rightarrow> string option" where
  "fdstore_fdnames v svc lo n =
     fdnames_loop
       (replicate lo (take 79 (svc @ ''.socket'')) @ map fe_name (filter (\<lambda>e. fe_svc e = svc) v)) n True []"

function fdstore_sweep :: "(string \<Rightarrow> bool) \<Rightarrow> nat \<Rightarrow> fdstore_ent list \<Rightarrow> fdstore_ent list \<times> int list" where
  "fdstore_sweep keep i v =
     (if i < length v then
        (if keep (fe_svc (v ! i)) then fdstore_sweep keep (Suc i) v
         else case fdstore_drop v (fe_svc (v ! i)) of
             (v', gone) \<Rightarrow> (case fdstore_sweep keep i v' of (v'', gone') \<Rightarrow> (v'', gone @ gone')))
      else (v, []))"
  by pat_completeness auto
termination
proof (relation "measure (\<lambda>(keep, i, v). length v - i)", goal_cases)
  case (3 keep i v v' gone)
  have "v ! i \<in> set v" using 3(1) by simp
  then have "length (filter (\<lambda>e. \<not> fdstore_gone (fe_svc (v ! i)) None e) v) < length v"
    by (rule length_filter_less) (simp add: fdstore_gone_def)
  then have "length v' < length v" using 3 by (simp add: fdstore_drop_def fdstore_take_def)
  then show ?case using 3(1) by simp
qed auto

declare fdstore_sweep.simps [simp del]

section \<open>Properties\<close>

definition fdstore_ok :: "fdstore_ent list \<Rightarrow> bool" where
  "fdstore_ok v \<longleftrightarrow> length v \<le> FDSTORE_MAX_TOTAL \<and>
     (\<forall>e\<in>set v. length (fe_svc e) < 64 \<and> fdstore_valid_name (fe_name e))"

lemma fdstore_add_ok: "fdstore_ok v \<Longrightarrow> fdstore_add rl v svc fd nm mx = Some v' \<Longrightarrow> fdstore_ok v'"
  by (auto simp: fdstore_add_def fdstore_ok_def Let_def split: if_splits)

lemma fdstore_take_ok: "fdstore_ok v \<Longrightarrow> fdstore_ok (fst (fdstore_take v svc nm))"
  by (auto simp: fdstore_ok_def fdstore_take_def intro: order.trans [OF length_filter_le])

lemma fdstore_sweep_kept:
  "\<forall>j<i. j < length v \<longrightarrow> keep (fe_svc (v ! j)) \<Longrightarrow> i \<le> length v \<Longrightarrow>
   fst (fdstore_sweep keep i v) = filter (\<lambda>e. keep (fe_svc e)) v"
proof (induction keep i v rule: fdstore_sweep.induct)
  case (1 keep i v)
  show ?case
  proof (cases "i < length v")
    case False
    then have "i = length v" using 1(4) by simp
    then have "\<forall>e\<in>set v. keep (fe_svc e)" using 1(3) by (auto simp: in_set_conv_nth)
    then show ?thesis using False by (simp add: fdstore_sweep.simps [of keep i v])
  next
    case i: True
    show ?thesis
    proof (cases "keep (fe_svc (v ! i))")
      case True
      have "fst (fdstore_sweep keep (Suc i) v) = filter (\<lambda>e. keep (fe_svc e)) v"
        using 1(1) [OF i True] 1(3) True i by (auto simp: less_Suc_eq)
      then show ?thesis using i True by (simp add: fdstore_sweep.simps [of keep i v])
    next
      case False
      let ?P = "\<lambda>e. \<not> fdstore_gone (fe_svc (v ! i)) None e"
      let ?v = "filter ?P v"
      have pre: "filter ?P (take i v) = take i v"
      proof (rule filter_True, intro ballI)
        fix e
        assume "e \<in> set (take i v)"
        then have "keep (fe_svc e)" using 1(3) i by (auto simp: in_set_conv_nth)
        then show "\<not> fdstore_gone (fe_svc (v ! i)) None e"
          using False by (auto simp: fdstore_gone_def)
      qed
      then have split: "?v = take i v @ filter ?P (drop i v)"
        by (metis append_take_drop_id filter_append)
      then have len: "i \<le> length ?v" using i by simp
      have kp: "\<forall>j<i. j < length ?v \<longrightarrow> keep (fe_svc (?v ! j))"
        using split i 1(3) by (simp add: nth_append)
      have "fst (fdstore_sweep keep i ?v) = filter (\<lambda>e. keep (fe_svc e)) ?v"
        using 1(2) [OF i False, of ?v "map fe_fd (filter (fdstore_gone (fe_svc (v ! i)) None) v)"] kp len
        by (simp add: fdstore_drop_def fdstore_take_def)
      also have "\<dots> = filter (\<lambda>e. keep (fe_svc e)) v"
        using False by (auto simp: fdstore_gone_def intro: filter_cong)
      finally show ?thesis using i False
        by (auto simp: fdstore_sweep.simps [of keep i v] fdstore_drop_def fdstore_take_def split: prod.splits)
    qed
  qed
qed

fun join_colon :: "string list \<Rightarrow> string" where
  "join_colon [] = []"
| "join_colon [x] = x"
| "join_colon (x # xs) = x @ '':'' @ join_colon xs"

lemma fdnames_loop_fits:
  assumes "\<forall>nm\<in>set nms. length nm \<le> 71" "length out + 72 * length nms + 1 \<le> n"
  shows "fdnames_loop nms n f out =
    Some (out @ (if nms = [] then [] else (if f then [] else '':'') @ join_colon nms))"
  using assms
proof (induction nms arbitrary: f out)
  case (Cons a nms)
  have "fdnames_loop nms n False (out @ (if f then [] else '':'') @ a) =
      Some ((out @ (if f then [] else '':'') @ a) @ (if nms = [] then [] else '':'' @ join_colon nms))"
    using Cons.prems Cons.IH [of "out @ (if f then [] else '':'') @ a" False] by simp
  then show ?case using Cons.prems by (cases nms) auto
qed simp

definition fdstore_within :: "(string \<Rightarrow> int) \<Rightarrow> fdstore_ent list \<Rightarrow> bool" where
  "fdstore_within lim v \<longleftrightarrow> fdstore_ok v \<and> (\<forall>svc. 0 < fdstore_count v svc \<longrightarrow> int (fdstore_count v svc) \<le> lim svc)"



lemma mset_map_split:
  "mset (map f (filter (\<lambda>x. \<not> P x) v)) + mset (map f (filter P v)) = mset (map f v)"
  by (induction v) auto

lemma fdstore_sweep_conserves:
  "mset (map fe_fd (fst (fdstore_sweep keep i v))) + mset (snd (fdstore_sweep keep i v)) = mset (map fe_fd v)"
proof (induction keep i v rule: fdstore_sweep.induct)
  case (1 keep i v)
  show ?case
  proof (cases "i < length v \<and> \<not> keep (fe_svc (v ! i))")
    case False
    then show ?thesis using 1(1) by (cases "i < length v") (simp_all add: fdstore_sweep.simps [of keep i v])
  next
    case True
    let ?P = "fdstore_gone (fe_svc (v ! i)) None"
    have d: "fdstore_drop v (fe_svc (v ! i)) = (filter (\<lambda>e. \<not> ?P e) v, map fe_fd (filter ?P v))"
      by (simp add: fdstore_drop_def fdstore_take_def)
    let ?v = "filter (\<lambda>e. \<not> ?P e) v" and ?g = "map fe_fd (filter ?P v)"
    obtain v2 g2 where s: "fdstore_sweep keep i ?v = (v2, g2)" by (cases "fdstore_sweep keep i ?v")
    have "mset (map fe_fd v2) + mset g2 = mset (map fe_fd ?v)"
      using 1(2) [OF conjunct1 [OF True] conjunct2 [OF True] d [symmetric]] s by simp
    moreover have "a + c = b \<Longrightarrow> a + (g + c) = b + g" for a b c g :: "int multiset"
      by (auto simp: ac_simps)
    ultimately have "mset (map fe_fd v2) + (mset ?g + mset g2) = mset (map fe_fd ?v) + mset ?g" by blast
    then have "mset (map fe_fd v2) + mset (?g @ g2) = mset (map fe_fd v)"
      by (simp only: mset_append mset_map_split)
    then show ?thesis using True d s by (simp add: fdstore_sweep.simps [of keep i v])
  qed
qed

text \<open>C14. After a reload the store keeps exactly the entries of services that are still there, in their
  order, and hands every other descriptor to the closer once.\<close>

theorem fdstore_sweep_exact:
  "fst (fdstore_sweep keep 0 v) = filter (\<lambda>e. keep (fe_svc e)) v \<and>
   mset (snd (fdstore_sweep keep 0 v)) = mset (map fe_fd (filter (\<lambda>e. \<not> keep (fe_svc e)) v))"
proof -
  have k: "fst (fdstore_sweep keep 0 v) = filter (\<lambda>e. keep (fe_svc e)) v"
    by (rule fdstore_sweep_kept) simp_all
  show ?thesis
    using fdstore_sweep_conserves [of keep 0 v] mset_map_split [of fe_fd "\<lambda>e. keep (fe_svc e)" v] k
    by (metis add.commute add_left_imp_eq)
qed

text \<open>\<^verbatim>\<open>LISTEN_FDNAMES\<close> always fits the buffer the spawn sizes at 72 bytes per descriptor plus one, and
  is the sockets' name once per socket, then the service's stored names in order, colon-separated: the
  child never exits 126 over a name list.\<close>

theorem fdstore_fdnames_fits:
  assumes "fdstore_ok v" "length svc \<le> 63"
  shows "fdstore_fdnames v svc lo ((lo + fdstore_count v svc) * 72 + 1) =
    Some (join_colon (replicate lo (svc @ ''.socket'') @ map fe_name (filter (\<lambda>e. fe_svc e = svc) v)))"
proof -
  let ?nms = "replicate lo (svc @ ''.socket'') @ map fe_name (filter (\<lambda>e. fe_svc e = svc) v)"
  have "\<forall>nm\<in>set ?nms. length nm \<le> 71"
    using assms by (auto simp: fdstore_ok_def fdstore_valid_name_def)
  then have "fdnames_loop ?nms ((lo + fdstore_count v svc) * 72 + 1) True [] = Some (join_colon ?nms)"
    by (subst fdnames_loop_fits) (auto simp: fdstore_count_def)
  then show ?thesis using assms(2) by (simp add: fdstore_fdnames_def)
qed

theorem fdstore_fdnames_fits_witness:
  "fdstore_fdnames [\<lparr>fe_svc = ''a'', fe_name = ''x'', fe_fd = 5\<rparr>] ''a'' 2 217 = Some ''a.socket:a.socket:x''"
proof -
  have "fdstore_ok [\<lparr>fe_svc = ''a'', fe_name = ''x'', fe_fd = 5\<rparr>]"
    by (simp add: fdstore_ok_def fdstore_valid_name_def fdstore_char_def c_isalpha_def char_code_def)
  then show ?thesis
    using fdstore_fdnames_fits [of "[\<lparr>fe_svc = ''a'', fe_name = ''x'', fe_fd = 5\<rparr>]" "''a''" 2]
    by (simp add: fdstore_count_def numeral_2_eq_2)
qed

end
