(* ===== verification/SI_Life.thy ===== *)
theory SI_Life
  imports SI_Evict SI_Notify SI_Fdstore
begin

text \<open>
  The engine's state and the life-cycle steps shared by the reaper, the tick and the control
  socket (\<^verbatim>\<open>engine.c\<close>): restart budget and crash-loop breaker, fallback services, recovery cards,
  stop commands, \<^verbatim>\<open>bind=\<close>, exit records, forking daemons and timers. \<^verbatim>\<open>engine\<close> holds the globals
  these functions read and write; \<^verbatim>\<open>trace\<close> is everything done to the outside, oldest first. A
  function on \<^verbatim>\<open>service_t *\<close> takes the index of that service.
\<close>

section \<open>The engine\<close>

record engine =
  services :: "service_t list"
  groups :: "group_t list"
  evictions :: "eviction_t list"
  fdstore :: "fdstore_ent list"
  bus_reporter_seen :: bool
  notify_paused_since :: int
  ready_event_due :: int
  ready_backstop_due :: int
  trace :: "effect list"

abbreviation sv :: "engine \<Rightarrow> nat \<Rightarrow> service_t" where
  "sv e i \<equiv> services e ! i"

abbreviation nsvc :: "engine \<Rightarrow> nat" where
  "nsvc e \<equiv> length (services e)"

definition at :: "nat \<Rightarrow> (service_t \<Rightarrow> service_t) \<Rightarrow> engine \<Rightarrow> engine" where
  "at i f e = e\<lparr>services := (services e)[i := f (sv e i)]\<rparr>"

definition emit :: "effect list \<Rightarrow> engine \<Rightarrow> engine" where
  "emit es e = e\<lparr>trace := trace e @ es\<rparr>"

definition log_svc :: "nat \<Rightarrow> string \<Rightarrow> engine \<Rightarrow> engine" where
  "log_svc i ev e = emit [service_log (sv e i) ev] e"

definition kill_tree :: "sysenv \<Rightarrow> nat \<Rightarrow> engine \<Rightarrow> engine" where
  "kill_tree env i e =
     (case svc_cgroup_kill_tree env (sv e i) (evictions e) of
        (s', evs', effs) \<Rightarrow>
          emit effs (e\<lparr>services := (services e)[i := s'], evictions := evs'\<rparr>))"

section \<open>Restart budget, breaker and parking\<close>

definition restart_budget_refresh :: "sysenv \<Rightarrow> service_t \<Rightarrow> service_t" where
  "restart_budget_refresh env s =
     (if RESTART_RESET_SECS \<le> tv_sec (sys_mono env) - tv_sec (spawn_time_mono s)
      then s\<lparr>restart_count := 0, card_next := 0, fallback_live := False\<rparr>
      else s)"

definition breaker_clear :: "service_t \<Rightarrow> service_t" where
  "breaker_clear s =
     s\<lparr>dormant_count := (if circuit_broken s then 0 else dormant_count s), circuit_broken := False\<rparr>"

text \<open>\<^verbatim>\<open>300L << (dormant_count - 1)\<close>, capped at an hour. The shift is that of a 64-bit \<^verbatim>\<open>long\<close>; for
  a count of 64 and above, or a counter that wrapped to 0, where C leaves it undefined, the
  shift amount is taken modulo 64, as the machine's shift instruction does.\<close>

definition park_delay :: "u8 \<Rightarrow> int" where
  "park_delay n =
     (let d = sint (push_bit (nat ((uint n - 1) mod 64)) (300 :: 64 word))
      in if 3600 < d then 3600 else d)"

definition park :: "sysenv \<Rightarrow> nat \<Rightarrow> engine \<Rightarrow> engine" where
  "park env i e =
     (let s = sv e i; n = dormant_count s + 1; now = sys_mono env
      in log_svc i ''dormant''
           (at i (\<lambda>s. set_state STATE_DORMANT
              (s\<lparr>dormant_count := n,
                 dormant_until := \<lparr>tv_sec = tv_sec now + park_delay n, tv_nsec = tv_nsec now\<rparr>\<rparr>)) e))"

definition excise_reason_name :: "excise_reason_t \<Rightarrow> string" where
  "excise_reason_name r =
     (case r of
        EXC_NONE \<Rightarrow> ''none'' | EXC_BREAKER \<Rightarrow> ''breaker'' | EXC_START_TIMEOUT \<Rightarrow> ''start-timeout''
      | EXC_MAIN_PID_TIMEOUT \<Rightarrow> ''main-pid-timeout'' | EXC_EXIT_CODE \<Rightarrow> ''exit-code''
      | EXC_SIGNAL \<Rightarrow> ''signal'' | EXC_CORE_DUMP \<Rightarrow> ''core-dump''
      | EXC_READINESS_LOST \<Rightarrow> ''readiness-lost'' | EXC_NO_CGROUP \<Rightarrow> ''no-cgroup''
      | EXC_LISTEN_FAIL \<Rightarrow> ''listen-fail'' | EXC_FUSE \<Rightarrow> ''fuse'' | EXC_PROBE \<Rightarrow> ''probe-failed''
      | EXC_BIND \<Rightarrow> ''bind'')"

definition excise_reason_from_exit :: "service_t \<Rightarrow> excise_reason_t" where
  "excise_reason_from_exit s =
     (if ctl_killed s then EXC_NONE
      else if term_signal s \<noteq> 0 then (if core_dumped s then EXC_CORE_DUMP else EXC_SIGNAL)
      else if has_exited s \<and> exit_status s \<noteq> 0 then EXC_EXIT_CODE else EXC_NONE)"

definition engine_friction_verdict :: "sysenv \<Rightarrow> nat \<Rightarrow> engine \<Rightarrow> engine" where
  "engine_friction_verdict env i e =
     (let s = sv e i
      in if \<not> has_flag s SVC_CRITICAL \<and> \<not> no_excise s \<and> 4 \<le> dormant_count s
         then log_svc i ''breaker-tripped''
                (at i (\<lambda>s. s\<lparr>dormant_count := dormant_count s + 1, circuit_broken := True,
                            excise_reason := EXC_BREAKER\<rparr>) e)
         else park env i e)"

definition held_now :: "sysenv \<Rightarrow> service_t \<Rightarrow> bool" where
  "held_now env s = svc_retry_held s (sys_mono env)"

definition restart_policy_restore :: "service_t \<Rightarrow> service_t" where
  "restart_policy_restore s =
     (if no_restart_cfg s then add_flag SVC_NO_RESTART s else clear_flag SVC_NO_RESTART s)"

section \<open>Stop commands\<close>

abbreviation (input) SHUT_GRACE_MS :: int where "SHUT_GRACE_MS \<equiv> 3000"
abbreviation (input) STOP_TIMED_OUT :: int where "STOP_TIMED_OUT \<equiv> 4"

definition stop_grace_ms :: "service_t \<Rightarrow> int" where
  "stop_grace_ms s = (if stop_timeout_sec s \<noteq> 0 then stop_timeout_sec s * 1000 else SHUT_GRACE_MS)"

definition stop_cmds_begin :: "sysenv \<Rightarrow> int \<Rightarrow> nat \<Rightarrow> engine \<Rightarrow> engine \<times> bool" where
  "stop_cmds_begin env phase i e =
     (let s = sv e i;
          n = (if bit phase 0 then length (exec_stop s) else 0)
            + (if bit phase 1 then length (exec_stop_post s) else 0)
      in if n = 0 \<or> 0 < stop_pid s then (e, False)
         else let p = sys_fork env (FkStop phase) (svc_name s) in
           if p < 0 then (log_svc i ''stop-cmd-fork-fail'' e, False)
           else (log_svc i (if phase = 2 then ''stop-post'' else ''stop-cmd'')
                   (at i (\<lambda>s. s\<lparr>stop_pid := p, stop_phase := phase, stop_start := sys_mono env\<rparr>)
                     (emit [RunFork (FkStop phase) (svc_name s) p] e)), True))"

definition stop_post :: "sysenv \<Rightarrow> nat \<Rightarrow> engine \<Rightarrow> engine" where
  "stop_post env i e = fst (stop_cmds_begin env 2 i e)"

section \<open>Binding\<close>

abbreviation (input) BIND_GRACE_MS :: int where "BIND_GRACE_MS \<equiv> 2000"

definition svc_is_up :: "service_t \<Rightarrow> bool" where
  "svc_is_up s \<longleftrightarrow>
     svc_state s = STATE_FUNDAMENTAL \<or> svc_state s = STATE_SETTLED \<or> svc_state s = STATE_PERFECT \<or>
     (listen_open s \<noteq> 0 \<and> (svc_state s = STATE_NEW_PROCESS \<or> svc_state s = STATE_FULL_TRUST))"

fun bind_bound_slots :: "string \<Rightarrow> service_t list \<Rightarrow> (string \<times> int) list \<Rightarrow> nat option" where
  "bind_bound_slots bn table [] = None"
| "bind_bound_slots bn table ((nm, b) # ds) =
     (if nm = [] then None
      else if nm \<noteq> bn then bind_bound_slots bn table ds
      else if b < 0 \<or> int (length table) \<le> b \<or> has_flag (table ! nat b) SVC_TIMER \<or>
              has_flag (table ! nat b) SVC_ONESHOT then None
      else Some (nat b))"

definition bind_bound :: "service_t list \<Rightarrow> service_t \<Rightarrow> nat option" where
  "bind_bound table s =
     (if bind_name s = [] then None
      else bind_bound_slots (bind_name s) table (take MAX_DEPS (zip (dep_name s) (dep_idx s))))"

definition ts_after :: "timespec \<Rightarrow> timespec \<Rightarrow> bool" where
  "ts_after a b \<longleftrightarrow> tv_sec b < tv_sec a \<or> (tv_sec a = tv_sec b \<and> tv_nsec b < tv_nsec a)"

definition bind_hold :: "nat \<Rightarrow> string \<Rightarrow> engine \<Rightarrow> engine" where
  "bind_hold j ev e =
     (let b = sv e j;
          since = (if bind_held b then bind_held_since b
                   else case bind_bound (services e) b of
                       Some t \<Rightarrow> bind_seen_spawn (sv e t)
                     | None \<Rightarrow> ts_zero)
      in log_svc j ev
           (at j (\<lambda>b. b\<lparr>bind_held_since := since, bind_held := True, bind_died_at := ts_zero\<rparr>) e))"

text \<open>The guard of \<^verbatim>\<open>bind_stop\<close>, and what \<^verbatim>\<open>stop_main\<close> does once the binders have gone.\<close>

definition bind_stop_applies :: "service_t \<Rightarrow> bool" where
  "bind_stop_applies b \<longleftrightarrow>
     \<not> bind_held b \<and> 0 < child_pid b \<and> \<not> (ctl_killed b \<and> has_flag b SVC_NO_RESTART)"

definition bind_stop_mark :: "nat \<Rightarrow> string \<Rightarrow> engine \<Rightarrow> engine" where
  "bind_stop_mark j ev e = at j (\<lambda>b. b\<lparr>restart_at := ts_zero\<rparr>) (bind_hold j ev e)"

definition stop_main_tail :: "sysenv \<Rightarrow> nat \<Rightarrow> engine \<Rightarrow> engine" where
  "stop_main_tail env i e =
     (if 0 < stop_pid (sv e i) \<and> stop_phase (sv e i) = 1 then e
      else case stop_cmds_begin env 1 i e of
          (e', started) \<Rightarrow> if started then e' else emit [Kill (child_pid (sv e' i)) SIGTERM] e')"

definition unheld :: "engine \<Rightarrow> nat" where
  "unheld e = length (filter (\<lambda>s. \<not> bind_held s) (services e))"

lemma services_emit [simp]: "services (emit es e) = services e"
  by (simp add: emit_def)

lemma services_log_svc [simp]: "services (log_svc i ev e) = services e"
  by (simp add: log_svc_def)

lemma services_at: "services (at i f e) = (services e)[i := f (sv e i)]"
  by (simp add: at_def)

lemma nsvc_at [simp]: "nsvc (at i f e) = nsvc e"
  by (simp add: at_def)

lemma sv_at: "i < nsvc e \<Longrightarrow> sv (at i f e) j = (if j = i then f (sv e i) else sv e j)"
  by (simp add: at_def)

lemma nth_upd: "k < length xs \<Longrightarrow> xs[i := y] ! k = (if k = i then y else xs ! k)"
  by auto

lemma unheld_le:
  assumes "length ts = length ss" "\<forall>k<length ss. bind_held (ss ! k) \<longrightarrow> bind_held (ts ! k)"
  shows "length (filter (\<lambda>s. \<not> bind_held s) ts) \<le> length (filter (\<lambda>s. \<not> bind_held s) ss)"
  using assms
proof (induction ts ss rule: list_induct2)
  case (Cons t ts s ss)
  have "\<forall>k<length ss. bind_held (ss ! k) \<longrightarrow> bind_held (ts ! k)" using Cons.prems by auto
  then have "length (filter (\<lambda>s. \<not> bind_held s) ts) \<le> length (filter (\<lambda>s. \<not> bind_held s) ss)"
    by (rule Cons.IH)
  moreover have "bind_held s \<longrightarrow> bind_held t" using Cons.prems by auto
  ultimately show ?case by auto
qed simp

lemma unheld_less:
  assumes "j < length ss" "\<not> bind_held (ss ! j)" "bind_held x"
  shows "length (filter (\<lambda>s. \<not> bind_held s) (ss[j := x])) < length (filter (\<lambda>s. \<not> bind_held s) ss)"
  using assms
proof (induction ss arbitrary: j)
  case (Cons a ss)
  then show ?case by (cases j) auto
qed simp

lemma unheld_mark: "j < nsvc e \<Longrightarrow> \<not> bind_held (sv e j) \<Longrightarrow> unheld (bind_stop_mark j ev e) < unheld e"
  unfolding unheld_def bind_stop_mark_def bind_hold_def Let_def
  by (simp add: services_at unheld_less)

lemma services_stop_cmds_begin:
  "services (fst (stop_cmds_begin env ph i e)) = services e \<or>
   (\<exists>p. services (fst (stop_cmds_begin env ph i e)) =
      (services e)[i := (sv e i)\<lparr>stop_pid := p, stop_phase := ph, stop_start := sys_mono env\<rparr>])"
  by (auto simp: stop_cmds_begin_def Let_def services_at)

lemma unheld_stop_main_tail: "unheld (stop_main_tail env i e) \<le> unheld e"
proof -
  have *: "unheld e' \<le> unheld e" if "services e' = services e \<or>
      (\<exists>p ph t. services e' = (services e)[i := (sv e i)\<lparr>stop_pid := p, stop_phase := ph, stop_start := t\<rparr>])" for e'
    using that unfolding unheld_def
    by (auto intro!: unheld_le simp: nth_upd)
  obtain e' b where eb: "stop_cmds_begin env 1 i e = (e', b)" by (cases "stop_cmds_begin env 1 i e")
  then have "unheld e' \<le> unheld e"
    using services_stop_cmds_begin [of env 1 i e] by (intro *) auto
  moreover have "unheld (emit es e') = unheld e'" for es by (simp add: unheld_def)
  ultimately show ?thesis using eb by (simp add: stop_main_tail_def)
qed

function binders_loop :: "sysenv \<Rightarrow> nat list \<Rightarrow> nat \<Rightarrow> engine \<Rightarrow> engine" where
  "binders_loop env [] idx e = e"
| "binders_loop env (j # js) idx e =
     (if j < nsvc e \<and> j \<noteq> idx \<and> bind_bound (services e) (sv e j) = Some idx \<and> bind_stop_applies (sv e j)
      then binders_loop env js idx
             (stop_main_tail env j (binders_loop env [0..<nsvc e] j (bind_stop_mark j ''bind-stop'' e)))
      else binders_loop env js idx e)"
  by pat_completeness auto

lemma binders_loop_unheld_dom:
  "binders_loop_dom (env, js, idx, e) \<Longrightarrow> unheld (binders_loop env js idx e) \<le> unheld e"
proof (induction env js idx e rule: binders_loop.pinduct)
  case (1 env idx e)
  then show ?case by (simp add: binders_loop.psimps)
next
  case (2 env j js idx e)
  show ?case
  proof (cases "j < nsvc e \<and> j \<noteq> idx \<and> bind_bound (services e) (sv e j) = Some idx \<and> bind_stop_applies (sv e j)")
    case True
    then have "unheld (bind_stop_mark j ''bind-stop'' e) < unheld e"
      by (intro unheld_mark) (auto simp: bind_stop_applies_def)
    moreover note unheld_stop_main_tail [of env j "binders_loop env [0..<nsvc e] j (bind_stop_mark j ''bind-stop'' e)"]
      "2.IH"(1) [OF True] "2.IH"(2) [OF True]
    ultimately show ?thesis using True "2.hyps" by (simp add: binders_loop.psimps)
  next
    case False
    then show ?thesis using 2 by (auto simp: binders_loop.psimps)
  qed
qed

lemma binders_loop_all_dom: "All binders_loop_dom"
proof (relation "inv_image (less_than <*lex*> less_than) (\<lambda>(env, js, idx, e). (unheld e, length js))", goal_cases)
  case 1
  then show ?case by (simp add: wf_lex_prod)
next
  case (2 env j js idx e)
  then have "unheld (bind_stop_mark j ''bind-stop'' e) < unheld e"
    by (intro unheld_mark) (auto simp: bind_stop_applies_def)
  then show ?case by simp
next
  case (3 env j js idx e)
  then have "unheld (bind_stop_mark j ''bind-stop'' e) < unheld e"
    by (intro unheld_mark) (auto simp: bind_stop_applies_def)
  moreover note unheld_stop_main_tail [of env j "binders_loop env [0..<nsvc e] j (bind_stop_mark j ''bind-stop'' e)"]
  moreover have "unheld (binders_loop env [0..<nsvc e] j (bind_stop_mark j ''bind-stop'' e)) \<le>
      unheld (bind_stop_mark j ''bind-stop'' e)"
    using 3(2) by (rule binders_loop_unheld_dom)
  ultimately show ?case by simp
qed simp_all

termination binders_loop
  by (rule binders_loop_all_dom)

declare binders_loop.simps(2) [simp del]

text \<open>SIGTERM the main process, after its \<^verbatim>\<open>exec_stop\<close> commands when it has any; the running binders,
  and theirs in turn, go first. The recursion ends because every binder it enters is held first.\<close>

definition stop_main :: "sysenv \<Rightarrow> nat \<Rightarrow> engine \<Rightarrow> engine" where
  "stop_main env i e =
     (if child_pid (sv e i) \<le> 0 then e
      else stop_main_tail env i (binders_loop env [0..<nsvc e] i e))"

definition bind_stop :: "sysenv \<Rightarrow> nat \<Rightarrow> string \<Rightarrow> engine \<Rightarrow> engine" where
  "bind_stop env j ev e =
     (if bind_stop_applies (sv e j) then stop_main env j (bind_stop_mark j ev e) else e)"

definition bind_start :: "nat \<Rightarrow> engine \<Rightarrow> engine" where
  "bind_start j e =
     log_svc j ''bind-start''
       (at j (\<lambda>b. set_state STATE_NEW_PROCESS (b\<lparr>bind_held := False, excise_reason := EXC_NONE\<rparr>)) e)"

definition excise_bind :: "service_t \<Rightarrow> service_t" where
  "excise_bind s = (set_state STATE_EXCISED s)\<lparr>excise_reason := EXC_BIND\<rparr>"

definition went_down :: "service_t \<Rightarrow> bool" where
  "went_down bd \<longleftrightarrow> bind_was_up bd \<and>
     (\<not> svc_is_up bd \<or> (listen_open bd = 0 \<and> spawn_time_mono bd \<noteq> bind_seen_spawn bd))"

definition bind_unbound :: "sysenv \<Rightarrow> nat \<Rightarrow> engine \<Rightarrow> engine" where
  "bind_unbound env j e =
     (if bind_held (sv e j) then e
      else if 0 < child_pid (sv e j) then bind_stop env j ''bind-target-missing'' e
      else let e' = bind_hold j ''bind-target-missing'' e
           in if svc_state (sv e' j) \<noteq> STATE_EXCISED then at j excise_bind e' else e')"

definition bind_edge :: "sysenv \<Rightarrow> nat \<Rightarrow> engine \<Rightarrow> engine" where
  "bind_edge env j e =
     (let b = sv e j; now = sys_mono env in
      if 0 < child_pid b then bind_stop env j ''bind-stop'' e
      else if \<not> bind_held b \<and> \<not> circuit_broken b \<and> ts_set (bind_died_at b) then
        (let d = tv_nsec now - tv_nsec (bind_died_at b);
             ago = (tv_sec now - tv_sec (bind_died_at b)) * 1000
               + (if d < 0 then - ((- d) div 1000000) else d div 1000000)
         in if 0 \<le> ago \<and> ago < BIND_GRACE_MS
            then bind_hold j ''bind-reclassified''
                   (at j (\<lambda>b. excise_bind (b\<lparr>restart_count := bind_saved_restarts b,
                       dormant_count := bind_saved_dormant b, restart_at := ts_zero\<rparr>)) e)
            else e)
      else e)"

definition bind_follow :: "sysenv \<Rightarrow> nat \<Rightarrow> nat \<Rightarrow> engine \<Rightarrow> engine" where
  "bind_follow env t j e0 =
     (let bd0 = sv e0 t;
          up = svc_is_up bd0;
          e1 = (if went_down bd0 then bind_edge env j e0 else e0);
          bd = sv e1 t;
          back = (up \<and> stop_pid bd \<le> 0 \<and> \<not> ctl_killed bd \<and>
                  ts_after (spawn_time_mono bd) (bind_held_since (sv e1 j)));
          e2 = (if bind_held (sv e1 j) \<and> back \<and> child_pid (sv e1 j) \<le> 0 \<and> stop_pid (sv e1 j) \<le> 0
                then bind_start j e1 else e1)
      in if \<not> bind_held (sv e2 j) \<and> child_pid (sv e2 j) \<le> 0 \<and> svc_state (sv e2 j) = STATE_NEW_PROCESS \<and>
            (svc_state (sv e2 t) = STATE_EXCISED \<or> svc_state (sv e2 t) = STATE_DORMANT)
         then bind_hold j ''bind-wait'' (at j excise_bind e2)
         else e2)"

definition bind_tick_one :: "sysenv \<Rightarrow> nat \<Rightarrow> engine \<Rightarrow> engine" where
  "bind_tick_one env j e =
     (let b = sv e j in
      if bind_name b = [] then
        (if bind_held b then
           (let e' = at j (\<lambda>b. b\<lparr>bind_held := False\<rparr>) e
            in if svc_state b = STATE_EXCISED \<and> excise_reason b = EXC_BIND \<and> child_pid b \<le> 0
               then bind_start j e' else e')
         else e)
      else case bind_bound (services e) b of
          None \<Rightarrow> bind_unbound env j e
        | Some t \<Rightarrow> bind_follow env t j e)"

definition bind_tick :: "sysenv \<Rightarrow> engine \<Rightarrow> engine" where
  "bind_tick env e = fold (bind_tick_one env) [0..<nsvc e] e"

definition bind_snapshot_up :: "engine \<Rightarrow> engine" where
  "bind_snapshot_up e =
     e\<lparr>services := map (\<lambda>s. s\<lparr>bind_was_up := svc_is_up s,
         bind_seen_spawn := (if svc_is_up s then spawn_time_mono s else bind_seen_spawn s)\<rparr>) (services e)\<rparr>"

definition stop_cmds_done :: "sysenv \<Rightarrow> wait_status \<Rightarrow> nat \<Rightarrow> engine \<Rightarrow> engine" where
  "stop_cmds_done env st i e =
     (let phase = stop_phase (sv e i);
          e1 = log_svc i (if st = Exited 0 then ''stop-cmd-done'' else ''stop-cmd-failed'')
                 (at i (\<lambda>s. s\<lparr>stop_pid := 0, stop_phase := 0\<rparr>) e)
      in if \<not> bit phase 0 \<or> bit phase 1 then e1
         else if 0 < child_pid (sv e1 i)
         then (if bit phase 2 then e1 else emit [Kill (child_pid (sv e1 i)) SIGTERM] e1)
         else fst (stop_cmds_begin env 2 i e1))"

section \<open>Fallback services and cards\<close>

definition fallback_up :: "nat \<Rightarrow> engine \<Rightarrow> engine" where
  "fallback_up j e =
     log_svc j ''fallback-up''
       (at j (\<lambda>fb. let fb1 = clear_flag SVC_NO_RESTART (fb\<lparr>standby_up := True\<rparr>)
                   in if child_pid fb1 \<le> 0 \<and> (svc_state fb1 = STATE_EXCISED \<or> svc_state fb1 = STATE_PERFECT)
                      then breaker_clear ((set_state STATE_NEW_PROCESS fb1)\<lparr>restart_count := 0\<rparr>)
                      else fb1) e)"

definition fallback_down :: "sysenv \<Rightarrow> nat \<Rightarrow> engine \<Rightarrow> engine" where
  "fallback_down env j e =
     (if \<not> standby_up (sv e j) then e
      else let e1 = at j (\<lambda>fb. add_flag SVC_NO_RESTART (fb\<lparr>standby_up := False\<rparr>)) e
           in log_svc j ''fallback-down''
                (if 0 < child_pid (sv e1 j)
                 then stop_main env j (at j (\<lambda>fb. fb\<lparr>ctl_killed := True\<rparr>) e1)
                 else at j (set_state STATE_EXCISED) e1))"

definition ctl_rearm :: "sysenv \<Rightarrow> bool \<Rightarrow> nat \<Rightarrow> engine \<Rightarrow> engine" where
  "ctl_rearm env start i e =
     (let standby = (start \<and> service_is_standby i (services e));
          e1 = at i (\<lambda>s. (breaker_clear (s\<lparr>card_next := 0\<rparr>))
                 \<lparr>excise_reason := EXC_NONE, bind_held := False, restart_at := ts_zero,
                  standby_up := (standby_up s \<or> standby)\<rparr>) e
      in if fallback_live (sv e1 i)
         then (case service_fallback i (services e1) of
                 Some j \<Rightarrow> fallback_down env j e1
               | None \<Rightarrow> e1)
         else e1)"

definition play_card :: "sysenv \<Rightarrow> nat \<Rightarrow> engine \<Rightarrow> engine" where
  "play_card env i e =
     (let s = sv e i; k = card_next s in
      if 0 < card_pid s \<or> length (cards s) \<le> k then e
      else
        let ev = ''card-'' @ show_nat (k + 1) @ ''/'' @ show_nat (length (cards s)) in
        if starts_with ''fallback:'' (cards s ! k) then
          (let e1 = log_svc i ev (at i (\<lambda>s. s\<lparr>card_next := k + 1\<rparr>) e)
           in case service_fallback i (services e) of
                None \<Rightarrow> log_svc i ''card-no-fallback'' e1
              | Some j \<Rightarrow> park env i (fallback_up j (at i (\<lambda>s. s\<lparr>fallback_live := True\<rparr>) e1)))
        else
          let p = sys_fork env FkCard (svc_name s);
              e1 = at i (\<lambda>s. s\<lparr>card_next := k + 1\<rparr>) e
          in if p < 0 then log_svc i ''card-fork-fail'' e1
             else log_svc i ev (at i (\<lambda>s. s\<lparr>card_pid := p, card_start := sys_mono env\<rparr>)
                    (emit [RunFork FkCard (svc_name s) p] e1)))"

definition card_done :: "wait_status \<Rightarrow> nat \<Rightarrow> engine \<Rightarrow> engine" where
  "card_done st i e =
     log_svc i (if st = Exited 0 then ''card-done'' else ''card-failed'') (at i (\<lambda>s. s\<lparr>card_pid := 0\<rparr>) e)"

section \<open>Frames\<close>

text \<open>\<^verbatim>\<open>only i e e'\<close>: the two states differ in no service but the \<^verbatim>\<open>i\<close>-th. The rules below say it of
  each step that takes one service.\<close>

definition only :: "nat \<Rightarrow> engine \<Rightarrow> engine \<Rightarrow> bool" where
  "only i e e' \<longleftrightarrow> (\<exists>x. services e' = (services e)[i := x])"

named_theorems frame

lemma only_refl [simp]: "only i e e"
  unfolding only_def by (metis list_update_id)

lemma only_trans: "only i e e' \<Longrightarrow> only i e' e'' \<Longrightarrow> only i e e''"
  by (auto simp: only_def)

lemma only_at [frame]: "only i e e' \<Longrightarrow> only i e (at i f e')"
  by (auto simp: only_def services_at)

lemma only_emit [frame]: "only i e e' \<Longrightarrow> only i e (emit es e')"
  by (simp add: only_def)

lemma only_log_svc [frame]: "only i e e' \<Longrightarrow> only i e (log_svc k ev e')"
  by (simp add: only_def)

lemma only_kill_tree [frame]: "only i e e' \<Longrightarrow> only i e (kill_tree env i e')"
  by (auto simp: only_def kill_tree_def split: prod.splits)

lemma only_stop_cmds_begin [frame]: "only i e e' \<Longrightarrow> only i e (fst (stop_cmds_begin env ph i e'))"
  by (auto simp: stop_cmds_begin_def Let_def intro: frame)

lemma only_stop_post [frame]: "only i e e' \<Longrightarrow> only i e (stop_post env i e')"
  by (simp add: stop_post_def frame)

lemma only_park [frame]: "only i e e' \<Longrightarrow> only i e (park env i e')"
  by (simp add: park_def Let_def frame)

lemma only_bind_hold [frame]: "only i e e' \<Longrightarrow> only i e (bind_hold i ev e')"
  by (simp add: bind_hold_def Let_def frame)

lemma only_card_done [frame]: "only i e e' \<Longrightarrow> only i e (card_done st i e')"
  by (simp add: card_done_def frame)

lemma only_stop_cmds_done [frame]: "only i e e' \<Longrightarrow> only i e (stop_cmds_done env st i e')"
  by (simp add: stop_cmds_done_def Let_def frame)

lemma only_friction_verdict [frame]: "only i e e' \<Longrightarrow> only i e (engine_friction_verdict env i e')"
  by (simp add: engine_friction_verdict_def Let_def frame)

lemma onlyD: "only i e e' \<Longrightarrow> nsvc e' = nsvc e \<and> (\<forall>j. j \<noteq> i \<longrightarrow> sv e' j = sv e j)"
  by (auto simp: only_def)

text \<open>The eviction table stays within its array.\<close>

lemma evictions_frame [simp]:
  "evictions (at i f e) = evictions e" "evictions (emit es e) = evictions e"
  "evictions (log_svc i ev e) = evictions e"
  by (simp_all add: at_def emit_def log_svc_def)

lemma evictions_kill_tree:
  "length (evictions e) \<le> MAX_EVICTIONS \<Longrightarrow> length (evictions (kill_tree env i e)) \<le> MAX_EVICTIONS"
  using length_svc_cgroup_kill_tree [of "evictions e" env "sv e i"]
  by (auto simp: kill_tree_def split: prod.splits)

lemma evictions_stop_cmds_begin [simp]: "evictions (fst (stop_cmds_begin env ph i e)) = evictions e"
  by (simp add: stop_cmds_begin_def Let_def)

lemma evictions_stop_post [simp]: "evictions (stop_post env i e) = evictions e"
  by (simp add: stop_post_def)

lemma evictions_bind_hold [simp]: "evictions (bind_hold i ev e) = evictions e"
  by (simp add: bind_hold_def Let_def)

definition engine_init :: "service_t list \<Rightarrow> engine" where
  "engine_init ss = \<lparr>services = ss, groups = [], evictions = [], fdstore = [], bus_reporter_seen = False,
     notify_paused_since = 0, ready_event_due = 0, ready_backstop_due = 0, trace = []\<rparr>"

lemma sint_shift_300:
  assumes "k \<le> 54"
  shows "sint (push_bit k (300 :: 64 word)) = 300 * 2 ^ k"
proof -
  have "300 * 2 ^ k < (2 :: int) ^ (LENGTH(64) - 1)"
    using assms power_increasing [of k 54 "2 :: int"] by simp
  moreover have "- (2 ^ (LENGTH(64) - 1)) \<le> 300 * (2 :: int) ^ k" by (rule order_trans [of _ 0]) simp_all
  ultimately have "sint (word_of_int (300 * 2 ^ k) :: 64 word) = 300 * 2 ^ k"
    by (simp only: sint_sbintrunc' signed_take_bit_int_eq_self)
  then show ?thesis by (simp add: push_bit_eq_mult)
qed

text \<open>C18. The delay a parked service waits doubles from five minutes and stops at an hour, up to the 55th
  park in a row; at the 56th the 64-bit shift has run into the sign bit and the delay is negative, so
  a service that is never given up wakes at once.\<close>

theorem park_delay_backoff:
  "(1 \<le> uint n \<and> uint n \<le> 55 \<longrightarrow> park_delay n = min (300 * 2 ^ nat (uint n - 1)) 3600) \<and> park_delay 56 < 0"
proof -
  have "park_delay n = min (300 * 2 ^ nat (uint n - 1)) 3600" if "1 \<le> uint n" "uint n \<le> 55"
  proof -
    have "(uint n - 1) mod 64 = uint n - 1" using that by simp
    then show ?thesis using that by (simp add: park_delay_def Let_def sint_shift_300 min_def)
  qed
  moreover have "park_delay 56 < 0" by (simp add: park_delay_def)
  ultimately show ?thesis by blast
qed

theorem park_delay_backoff_witness: "park_delay 3 = 1200 \<and> park_delay 55 = 3600"
  using park_delay_backoff [of 3] park_delay_backoff [of 55] by simp

end
