(* ===== verification/SI_Reap.thy ===== *)
theory SI_Reap
  imports SI_Life
begin

text \<open>
  Timers and the reaper (\<^verbatim>\<open>engine.c\<close>): arming and catching up calendar timers, what an exit status
  is recorded as, adopting the process a launcher left behind, and \<^verbatim>\<open>reap\<close>, which decides what a
  child's death means for its service. \<^verbatim>\<open>reap_one\<close> handles one child \<^verbatim>\<open>waitpid\<close> returned; the hooks
  that may claim a child first (\<^verbatim>\<open>on_reaped\<close>, \<^verbatim>\<open>fdclose_reaped\<close>) are an argument.
\<close>

section \<open>Timers\<close>

definition calendar_next :: "sysenv \<Rightarrow> service_t \<Rightarrow> int" where
  "calendar_next env s =
     calendar_next_after (sys_localtime env) (sys_mktime env) (timer_cal_hours s) (timer_cal_min s)
       (timer_cal_dow s) (timer_cal_dom s) (tv_sec (sys_real env))"

definition timer_arm_calendar :: "sysenv \<Rightarrow> service_t \<Rightarrow> service_t" where
  "timer_arm_calendar env s = s\<lparr>timer_next := \<lparr>tv_sec = calendar_next env s, tv_nsec = 0\<rparr>\<rparr>"

definition timer_stamp_path :: "sysenv \<Rightarrow> service_t \<Rightarrow> string" where
  "timer_stamp_path env s =
     take 255 (ep_timer_stamp_dir (sys_paths env) @ ''/'' @ svc_name s @ ''.stamp'')"

definition timer_stamp_read :: "sysenv \<Rightarrow> service_t \<Rightarrow> int" where
  "timer_stamp_read env s =
     (case sys_file env (timer_stamp_path env s) of None \<Rightarrow> 0 | Some t \<Rightarrow> fst (strtol t))"

definition timer_stamp_write :: "sysenv \<Rightarrow> service_t \<Rightarrow> int \<Rightarrow> effect" where
  "timer_stamp_write env s t = WriteFile (timer_stamp_path env s) (show_int t @ [NL])"

definition calendar_recent_occurrence :: "sysenv \<Rightarrow> service_t \<Rightarrow> int \<Rightarrow> int" where
  "calendar_recent_occurrence env s now =
     calendar_recent_at_or_before (sys_localtime env) (sys_mktime env) (timer_cal_hours s)
       (timer_cal_min s) (timer_cal_dow s) (timer_cal_dom s) now"

definition timer_catchup_check :: "sysenv \<Rightarrow> nat \<Rightarrow> engine \<Rightarrow> engine" where
  "timer_catchup_check env i e =
     (let s = sv e i; now = tv_sec (sys_real env); stamp = timer_stamp_read env s in
      if stamp = 0 then at i (timer_arm_calendar env) (emit [timer_stamp_write env s now] e)
      else if stamp < calendar_recent_occurrence env s now
      then log_svc i ''timer-catchup'' (at i (\<lambda>s. s\<lparr>timer_next := \<lparr>tv_sec = now, tv_nsec = 0\<rparr>\<rparr>) e)
      else at i (timer_arm_calendar env) e)"

definition timer_arm_persistent :: "sysenv \<Rightarrow> service_t \<Rightarrow> service_t" where
  "timer_arm_persistent env s = timer_arm_calendar env (s\<lparr>timer_catchup_wait := True\<rparr>)"

definition mount_pending :: "service_t \<Rightarrow> bool" where
  "mount_pending s \<longleftrightarrow> svc_name s = ''mount-fstab'' \<and>
     svc_state s \<noteq> STATE_PERFECT \<and> svc_state s \<noteq> STATE_EXCISED \<and>
     svc_state s \<noteq> STATE_DORMANT \<and> svc_state s \<noteq> STATE_RECOVERY"

definition timer_catchup_one :: "sysenv \<Rightarrow> nat \<Rightarrow> engine \<Rightarrow> engine" where
  "timer_catchup_one env i e =
     (if \<not> timer_catchup_wait (sv e i) then e
      else let e1 = at i (\<lambda>s. s\<lparr>timer_catchup_wait := False\<rparr>) e
           in if svc_state (sv e1 i) = STATE_PERFECT then timer_catchup_check env i e1 else e1)"

definition timer_catchup_tick :: "sysenv \<Rightarrow> engine \<Rightarrow> engine" where
  "timer_catchup_tick env e =
     (if \<not> list_ex timer_catchup_wait (services e) \<or> list_ex mount_pending (services e) then e
      else fold (timer_catchup_one env) [0..<nsvc e] e)"

definition timer_rearm :: "sysenv \<Rightarrow> nat \<Rightarrow> engine \<Rightarrow> engine" where
  "timer_rearm env i e =
     (let e1 = at i (\<lambda>s. (set_state STATE_PERFECT s)\<lparr>timer_catchup_wait := False\<rparr>) e; s = sv e1 i in
      if has_flag s SVC_TIMER_CALENDAR then
        at i (timer_arm_calendar env)
          (if has_flag s SVC_TIMER_PERSIST
           then emit [timer_stamp_write env s (tv_sec (sys_real env))] e1 else e1)
      else if 0 < timer_interval_sec s then
        at i (\<lambda>s. s\<lparr>timer_next := \<lparr>tv_sec = tv_sec (sys_mono env) + timer_interval_sec s,
                                  tv_nsec = tv_nsec (sys_mono env)\<rparr>\<rparr>) e1
      else at i (clear_flag SVC_TIMER) e1)"

section \<open>How a run ended\<close>

definition mark_boot_ready :: "ready_how \<Rightarrow> service_t \<Rightarrow> service_t" where
  "mark_boot_ready how s =
     (if ts_set (boot_ready s) then s else s\<lparr>boot_ready := stable_time s, boot_how := how\<rparr>)"

definition exit_record :: "wait_status \<Rightarrow> service_t \<Rightarrow> service_t" where
  "exit_record st s =
     (case st of
        Exited c \<Rightarrow> s\<lparr>exit_status := c, term_signal := 0, core_dumped := False, has_exited := True\<rparr>
      | Signaled sg core \<Rightarrow>
          s\<lparr>exit_status := -1, term_signal := sg, core_dumped := core, has_exited := True\<rparr>)"

definition note_exit :: "wait_status \<Rightarrow> nat \<Rightarrow> engine \<Rightarrow> engine" where
  "note_exit st i e =
     (let e1 = at i (exit_record st) e; s = sv e1 i
      in if term_signal s = 0 then e1
         else log_svc i (''killed-SIG'' @ (case sig_abbrev (term_signal s) of Some n \<Rightarrow> n | None \<Rightarrow> ''?'')
                @ (if core_dumped s then ''-core'' else [])) e1)"

section \<open>Adopting a process\<close>

definition notify_read_cgroup :: "sysenv \<Rightarrow> int \<Rightarrow> string option" where
  "notify_read_cgroup env p =
     (case sys_file env (''/proc/'' @ show_int p @ ''/cgroup'') of
        None \<Rightarrow> None
      | Some t \<Rightarrow> if t = [] then None else Some (take 4095 t))"

definition in_service_cgroup :: "sysenv \<Rightarrow> service_t \<Rightarrow> int \<Rightarrow> bool" where
  "in_service_cgroup env s p =
     (case notify_read_cgroup env p of
        None \<Rightarrow> False
      | Some t \<Rightarrow> notify_cgroup_text_matches t (cgroup_path s))"

definition pid_file_read :: "sysenv \<Rightarrow> service_t \<Rightarrow> int" where
  "pid_file_read env s =
     (case (sys_lstat env (pid_file s), sys_file env (pid_file s)) of
        (Some st, Some text) \<Rightarrow>
          if \<not> st_isreg st \<or> text = [] then 0
          else let buf = take 31 text; (p, r) = strtol buf
               in if r = buf \<or> p \<le> 1 \<or> INT_MAX < p \<or> \<not> sys_alive env p \<or> cgroup_path s = [] then 0
                  else if in_service_cgroup env s p then p else 0
      | _ \<Rightarrow> 0)"

abbreviation (input) PID_FILE_WAIT_SECS :: int where "PID_FILE_WAIT_SECS \<equiv> 5"
abbreviation (input) MAINPID_WAIT_SECS :: int where "MAINPID_WAIT_SECS \<equiv> 10"
abbreviation (input) LISTEN_MIN_RUN_SECS :: int where "LISTEN_MIN_RUN_SECS \<equiv> 2"

definition fork_adopt :: "sysenv \<Rightarrow> nat \<Rightarrow> engine \<Rightarrow> engine" where
  "fork_adopt env i e =
     (let p = pid_file_read env (sv e i) in
      if p \<noteq> 0 then log_svc i (''forked pid='' @ show_int p)
                     (at i (\<lambda>s. s\<lparr>child_pid := p, fork_state := 1\<rparr>) e)
      else if fork_state (sv e i) = 0 then
        at i (\<lambda>s. s\<lparr>fork_state := -1,
                    fork_wait := \<lparr>tv_sec = tv_sec (sys_mono env) + PID_FILE_WAIT_SECS,
                                  tv_nsec = tv_nsec (sys_mono env)\<rparr>\<rparr>) e
      else e)"

definition mainpid_why :: "sysenv \<Rightarrow> service_t \<Rightarrow> int \<Rightarrow> string option" where
  "mainpid_why env s p =
     (if p \<le> 1 then Some ''invalid''
      else if \<not> sys_alive env p then Some ''gone''
      else if cgroup_path s = [] then Some ''no-cgroup''
      else if \<not> in_service_cgroup env s p then Some ''outside-cgroup''
      else None)"

definition mainpid_rejected :: "int \<Rightarrow> string \<Rightarrow> nat \<Rightarrow> engine \<Rightarrow> engine" where
  "mainpid_rejected p why i e =
     (if p = main_rejected (sv e i) then e
      else log_svc i (take 63 (''main-pid-rejected pid='' @ show_int p @ '' '' @ why))
             (at i (\<lambda>s. s\<lparr>main_rejected := p\<rparr>) e))"

definition main_adopt :: "int \<Rightarrow> nat \<Rightarrow> engine \<Rightarrow> engine" where
  "main_adopt p i e =
     log_svc i (''main-pid pid='' @ show_int p)
       (at i (\<lambda>s. s\<lparr>child_pid := p, main_pid := p, main_wait := False\<rparr>) e)"

definition ctl_wait_abort :: "sysenv \<Rightarrow> nat \<Rightarrow> engine \<Rightarrow> engine" where
  "ctl_wait_abort env i e =
     (let s = sv e i in
      if 0 \<le> fork_state s \<and> \<not> main_wait s then e
      else let e1 = at i (\<lambda>s. s\<lparr>fork_state := 0, main_wait := False\<rparr>) (kill_tree env i e)
           in if main_wait s then stop_post env i e1 else e1)"

section \<open>Failsafe and fuse commands\<close>

definition execute_fuse_cmd :: "sysenv \<Rightarrow> nat \<Rightarrow> engine \<Rightarrow> engine" where
  "execute_fuse_cmd env i e =
     (if fuse_cmd (sv e i) = [] then e
      else emit [RunFork FkFuse (svc_name (sv e i)) (sys_fork env FkFuse (svc_name (sv e i)))]
             (log_svc i ''fuse-cmd-exec'' e))"

definition start_failsafe :: "sysenv \<Rightarrow> nat \<Rightarrow> engine \<Rightarrow> engine" where
  "start_failsafe env i e =
     (let s = sv e i in
      if failsafe_cmd s = [] \<or> 0 < failsafe_pid s then e
      else let e1 = log_svc i ''failsafe-exec'' e; p = sys_fork env FkFailsafe (svc_name s) in
        if p < 0 then log_svc i ''failsafe-fork-fail'' e1
        else at i (\<lambda>s. s\<lparr>failsafe_pid := p, failsafe_start := sys_mono env\<rparr>)
               (emit [RunFork FkFailsafe (svc_name s) p] e1))"

definition active_kill_service :: "sysenv \<Rightarrow> nat \<Rightarrow> engine \<Rightarrow> engine" where
  "active_kill_service env i e =
     (let p = child_pid (sv e i) in
      if p \<le> 0 then e
      else
        let e1 = emit [Kill p SIGTERM] (at i (restart_budget_refresh env) e);
            finish = (\<lambda>st e. stop_post env i (kill_tree env i
                        (at i (\<lambda>s. s\<lparr>child_pid := 0\<rparr>) (note_exit st i e))))
        in case sys_wait_term env p of
             Some st \<Rightarrow> finish st e1
           | None \<Rightarrow>
               finish (case sys_wait_kill env p of Some st \<Rightarrow> st | None \<Rightarrow> Signaled SIGKILL False)
                 (emit [Kill p SIGKILL] e1))"

section \<open>The environment file\<close>

definition c_space_tab :: "char \<Rightarrow> bool" where
  "c_space_tab c \<longleftrightarrow> c = CHR '' '' \<or> c = CHR 0x09"

definition strip_right :: "(char \<Rightarrow> bool) \<Rightarrow> string \<Rightarrow> string" where
  "strip_right P s = rev (dropWhile P (rev s))"

definition env_file_line :: "line_result \<Rightarrow> effect list" where
  "env_file_line r =
     (case r of
        RL_Line line \<Rightarrow>
          let s = strip_right (\<lambda>c. c = NL \<or> c = CHR 0x0D \<or> c_space_tab c) (dropWhile c_space_tab line)
          in if s = [] \<or> hd s = CHR ''#'' \<or> CHR ''='' \<notin> set s then []
             else let key = strip_right c_space_tab (takeWhile (\<lambda>c. c \<noteq> CHR ''='') s);
                      val = dropWhile c_space_tab (tl (dropWhile (\<lambda>c. c \<noteq> CHR ''='') s))
                  in if key = [] then [] else [SetEnv key val]
      | RL_Long \<Rightarrow> [Warn ''env line too long'']
      | RL_EOF \<Rightarrow> [])"

definition load_env_file :: "sysenv \<Rightarrow> effect list" where
  "load_env_file env =
     (let p1 = sys_trusted env (take 159 (ep_run_dir (sys_paths env) @ ''/env''));
          p = (if p1 = TError \<and> ep_env_fallback (sys_paths env) \<noteq> []
               then sys_trusted env (ep_env_fallback (sys_paths env)) else p1)
      in case p of
           TOpen text \<Rightarrow> concat (map env_file_line (svc_lines 512 text))
         | TRefused \<Rightarrow> [Warn ''REFUSED env'']
         | TError \<Rightarrow> [])"

section \<open>The reaper\<close>

definition reap_bind :: "sysenv \<Rightarrow> nat \<Rightarrow> engine \<Rightarrow> engine" where
  "reap_bind env i e =
     (let s = sv e i in
      if bind_name s \<noteq> [] \<and> \<not> bind_held s \<and> \<not> ctl_killed s then
        (if (case bind_bound (services e) s of
               None \<Rightarrow> True
             | Some t \<Rightarrow> \<not> svc_is_up (sv e t) \<or> ctl_killed (sv e t) \<or>
                 (0 < stop_pid (sv e t) \<and> bit (stop_phase (sv e t)) 0 \<and> \<not> bit (stop_phase (sv e t)) 1))
         then bind_hold i ''bind-stop'' e
         else if term_signal s \<noteq> 0 \<or> (has_exited s \<and> exit_status s \<noteq> 0)
         then at i (\<lambda>s. s\<lparr>bind_died_at := sys_mono env, bind_saved_restarts := restart_count s,
                          bind_saved_dormant := dormant_count s\<rparr>) e
         else e)
      else e)"

definition reap_held :: "sysenv \<Rightarrow> nat \<Rightarrow> engine \<Rightarrow> engine" where
  "reap_held env i e =
     stop_post env i (log_svc i ''bind-stopped''
       (kill_tree env i (at i (\<lambda>s. (excise_bind s)\<lparr>main_wait := False\<rparr>) e)))"

text \<open>\<^verbatim>\<open>main_pid_notify=1\<close>: a launcher's clean exit hands over to the process it announced.\<close>

definition is_launcher :: "int \<Rightarrow> service_t \<Rightarrow> bool" where
  "is_launcher p s \<longleftrightarrow>
     has_flag s SVC_MAIN_PID_NOTIFY \<and> p \<noteq> main_pid s \<and> \<not> ctl_killed s \<and>
     \<not> (has_flag s SVC_TIMER \<or> has_flag s SVC_ONESHOT) \<and> listen_open s = 0 \<and>
     (main_pid s \<noteq> 0 \<or> \<not> notify_ready s)"

definition excise_for :: "excise_reason_t \<Rightarrow> service_t \<Rightarrow> service_t" where
  "excise_for r s = (set_state STATE_EXCISED s)\<lparr>excise_reason := r\<rparr>"

definition reap_handover :: "sysenv \<Rightarrow> nat \<Rightarrow> engine \<Rightarrow> engine" where
  "reap_handover env i e =
     (let mp = main_pid (sv e i);
          why0 = (if mp \<noteq> 0 then mainpid_why env (sv e i) mp else None);
          why = (if mp \<noteq> 0 \<and> why0 = None \<and> sys_parent env mp \<noteq> sys_self env then Some ''not-ours'' else why0)
      in if mp \<noteq> 0 \<and> why = None then main_adopt mp i e
         else at i (\<lambda>s. s\<lparr>main_pid := 0, main_wait := True,
                main_wait_due := \<lparr>tv_sec = tv_sec (sys_mono env) + MAINPID_WAIT_SECS,
                                  tv_nsec = tv_nsec (sys_mono env)\<rparr>\<rparr>)
                (case why of Some w \<Rightarrow> mainpid_rejected mp w i e | None \<Rightarrow> e))"

definition fork_handover :: "wait_status \<Rightarrow> service_t \<Rightarrow> bool" where
  "fork_handover st s \<longleftrightarrow>
     pid_file s \<noteq> [] \<and> fork_state s = 0 \<and> svc_state s = STATE_FULL_TRUST \<and> \<not> ctl_killed s \<and> st = Exited 0"

definition socket_idle :: "sysenv \<Rightarrow> wait_status \<Rightarrow> service_t \<Rightarrow> bool" where
  "socket_idle env st s \<longleftrightarrow>
     listen_open s \<noteq> 0 \<and> \<not> ctl_killed s \<and> \<not> has_flag s SVC_ONESHOT \<and>
     (st = Exited 0 \<or> has_flag s SVC_NO_RESTART) \<and>
     LISTEN_MIN_RUN_SECS \<le> mono_sec env - tv_sec (spawn_time_mono s)"

definition reap_fate :: "sysenv \<Rightarrow> wait_status \<Rightarrow> nat \<Rightarrow> engine \<Rightarrow> engine" where
  "reap_fate env st i e =
     (let s = sv e i in
      if socket_idle env st s then
        log_svc i ''socket-idle'' (at i (\<lambda>s. (set_state STATE_PERFECT s)\<lparr>stable_time := sys_mono env\<rparr>) e)
      else if st = Exited 0 \<and> has_flag s SVC_ONESHOT then
        (let e1 = log_svc i ''oneshot-done''
                    (at i (\<lambda>s. mark_boot_ready READY_EXIT
                       ((set_state STATE_PERFECT s)\<lparr>stable_time := sys_mono env\<rparr>)) e)
         in if svc_name s = ''slot-detect'' then emit (load_env_file env) e1 else e1)
      else if has_flag s SVC_NO_RESTART then
        kill_tree env i (log_svc i ''76-no-restart''
          (at i (\<lambda>s. excise_for (excise_reason_from_exit s) s) e))
      else if ctl_killed s then
        log_svc i ''ctl-restart'' (at i (set_state STATE_NEW_PROCESS)
          (if pid_file s \<noteq> [] \<or> has_flag s SVC_MAIN_PID_NOTIFY then kill_tree env i e else e))
      else
        log_svc i ''died'' (at i (set_state STATE_RECOVERY)
          (start_failsafe env i (at i (restart_budget_refresh env) e))))"

definition reap_exit :: "sysenv \<Rightarrow> wait_status \<Rightarrow> nat \<Rightarrow> engine \<Rightarrow> engine" where
  "reap_exit env st i e =
     (let e1 = at i (\<lambda>s. s\<lparr>main_pid := 0\<rparr>) e;
          ho = fork_handover st (sv e1 i);
          e2 = (if \<not> ho \<and> cgroup_path (sv e1 i) \<noteq> [] \<and> sys_cg_children env (cgroup_path (sv e1 i))
                then kill_tree env i e1 else e1)
      in if has_flag (sv e2 i) SVC_TIMER then
           stop_post env i (log_svc i (if exit_status (sv e2 i) = 0 then ''timer-done'' else ''timer-failed'')
             (timer_rearm env i e2))
         else if ho then
           (if cgroup_path (sv e2 i) = []
            then log_svc i ''pid_file-no-cgroup'' (at i (excise_for EXC_NO_CGROUP) e2)
            else fork_adopt env i e2)
         else stop_post env i (reap_fate env st i e2))"

definition reap_child :: "sysenv \<Rightarrow> int \<Rightarrow> wait_status \<Rightarrow> nat \<Rightarrow> engine \<Rightarrow> engine" where
  "reap_child env p st i e =
     (let e1 = note_exit st i (at i (\<lambda>s. s\<lparr>last_pid := p, child_pid := 0\<rparr>) e);
          e2 = reap_bind env i e1
      in if bind_held (sv e2 i) then reap_held env i e2
         else if is_launcher p (sv e2 i) then
           (if st = Exited 0 then
              (if cgroup_path (sv e2 i) = []
               then stop_post env i (log_svc i ''main-pid-no-cgroup'' (at i (excise_for EXC_NO_CGROUP) e2))
               else reap_handover env i e2)
            else reap_exit env st i (kill_tree env i e2))
         else reap_exit env st i e2)"

definition reap_one :: "sysenv \<Rightarrow> int \<Rightarrow> wait_status \<Rightarrow> engine \<Rightarrow> engine" where
  "reap_one env p st e =
     (case first_index (\<lambda>s. card_pid s = p \<or> stop_pid s = p \<or> child_pid s = p) (services e) of
        None \<Rightarrow> (case eviction_reaped env p (evictions e) of
                   (evs, effs) \<Rightarrow> emit effs (e\<lparr>evictions := evs\<rparr>))
      | Some i \<Rightarrow>
          if card_pid (sv e i) = p then card_done st i e
          else if stop_pid (sv e i) = p then stop_cmds_done env st i e
          else reap_child env p st i e)"

definition reap ::
  "sysenv \<Rightarrow> (engine \<Rightarrow> engine) \<Rightarrow> (int \<Rightarrow> bool) \<Rightarrow> (int \<times> wait_status) list \<Rightarrow> engine \<Rightarrow> engine" where
  "reap env drain claimed ws e =
     fold (\<lambda>(p, st) e. let e' = drain e in if claimed p then e' else reap_one env p st e') ws e"

section \<open>What one reaped child can change\<close>

lemma only_note_exit [frame]: "only i e e' \<Longrightarrow> only i e (note_exit st i e')"
  by (simp add: note_exit_def Let_def frame)

lemma only_timer_rearm [frame]: "only i e e' \<Longrightarrow> only i e (timer_rearm env i e')"
  by (simp add: timer_rearm_def Let_def frame)

lemma only_fork_adopt [frame]: "only i e e' \<Longrightarrow> only i e (fork_adopt env i e')"
  by (simp add: fork_adopt_def Let_def frame)

lemma only_mainpid_rejected [frame]: "only i e e' \<Longrightarrow> only i e (mainpid_rejected p w i e')"
  by (simp add: mainpid_rejected_def frame)

lemma only_main_adopt [frame]: "only i e e' \<Longrightarrow> only i e (main_adopt p i e')"
  by (simp add: main_adopt_def frame)

lemma only_start_failsafe [frame]: "only i e e' \<Longrightarrow> only i e (start_failsafe env i e')"
  by (simp add: start_failsafe_def Let_def frame)

lemma only_active_kill [frame]: "only i e e' \<Longrightarrow> only i e (active_kill_service env i e')"
  by (simp add: active_kill_service_def Let_def frame split: option.split)

lemma only_reap_bind [frame]: "only i e e' \<Longrightarrow> only i e (reap_bind env i e')"
  by (simp add: reap_bind_def Let_def frame)

lemma only_reap_held [frame]: "only i e e' \<Longrightarrow> only i e (reap_held env i e')"
  by (simp add: reap_held_def frame)

lemma only_reap_handover [frame]: "only i e e' \<Longrightarrow> only i e (reap_handover env i e')"
  by (simp add: reap_handover_def Let_def frame split: option.split)

lemma only_reap_fate [frame]: "only i e e' \<Longrightarrow> only i e (reap_fate env st i e')"
  by (simp add: reap_fate_def Let_def frame)

lemma only_reap_exit [frame]: "only i e e' \<Longrightarrow> only i e (reap_exit env st i e')"
  by (simp add: reap_exit_def Let_def frame)

lemma only_reap_child: "only i e (reap_child env p st i e)"
  by (simp add: reap_child_def Let_def frame)

lemma reap_one_only:
  assumes "first_index (\<lambda>s. card_pid s = p \<or> stop_pid s = p \<or> child_pid s = p) (services e) = Some i"
  shows "only i e (reap_one env p st e)"
  using assms by (simp add: reap_one_def frame only_reap_child)

section \<open>The reaper's verdict\<close>

lemma sv_at_same: "i < nsvc e \<Longrightarrow> sv (at i f e) i = f (sv e i)"
  by (simp add: at_def)

lemma sv_log [simp]: "sv (log_svc k ev e) i = sv e i"
  by simp

lemma nsvc_kill_tree [simp]: "nsvc (kill_tree env i e) = nsvc e"
  by (simp add: kill_tree_def split: prod.splits)

lemma cgroup_kill_path_only: "\<exists>cg. fst (service_cgroup_kill env s) = s\<lparr>cgroup_path := cg\<rparr>"
proof -
  have "fst (service_cgroup_kill env s) = s\<lparr>cgroup_path := cgroup_path s\<rparr> \<or>
      fst (service_cgroup_kill env s) = s\<lparr>cgroup_path := []\<rparr>"
    by (simp add: service_cgroup_kill_def split: option.split)
  then show ?thesis by blast
qed

lemma sv_kill_tree:
  assumes "i < nsvc e"
  obtains cg where "sv (kill_tree env i e) i = (sv e i)\<lparr>cgroup_path := cg\<rparr>"
proof -
  obtain cg where "fst (service_cgroup_kill env (sv e i)) = (sv e i)\<lparr>cgroup_path := cg\<rparr>"
    using cgroup_kill_path_only by blast
  then have "sv (kill_tree env i e) i = (sv e i)\<lparr>cgroup_path := cg\<rparr>"
    using assms by (cases "service_cgroup_kill env (sv e i)")
      (simp add: kill_tree_def svc_cgroup_kill_tree_def Let_def)
  then show thesis by (rule that)
qed

lemma st_kill_tree: "i < nsvc e \<Longrightarrow> svc_state (sv (kill_tree env i e) i) = svc_state (sv e i)"
  by (erule sv_kill_tree [of i e env]) simp

lemma st_stop_post: "i < nsvc e \<Longrightarrow> svc_state (sv (stop_post env i e) i) = svc_state (sv e i)"
  using services_stop_cmds_begin [of env 2 i e] by (auto simp: stop_post_def)

lemma st_start_failsafe: "i < nsvc e \<Longrightarrow> svc_state (sv (start_failsafe env i e) i) = svc_state (sv e i)"
  by (simp add: start_failsafe_def Let_def sv_at_same)

lemma nsvc_start_failsafe [simp]: "nsvc (start_failsafe env i e) = nsvc e"
  by (simp add: start_failsafe_def Let_def)

lemma nsvc_timer_rearm [simp]: "nsvc (timer_rearm env i e) = nsvc e"
  by (simp add: timer_rearm_def Let_def)

lemma nsvc_reap_fate [simp]: "nsvc (reap_fate env st i e) = nsvc e"
  using onlyD [OF only_reap_fate [OF only_refl]] by blast

lemma st_timer_rearm: "i < nsvc e \<Longrightarrow> svc_state (sv (timer_rearm env i e) i) = STATE_PERFECT"
  by (simp add: timer_rearm_def Let_def sv_at_same timer_arm_calendar_def set_state_def)

lemma st_fork_adopt: "i < nsvc e \<Longrightarrow> svc_state (sv (fork_adopt env i e) i) = svc_state (sv e i)"
  by (simp add: fork_adopt_def Let_def sv_at_same)

lemma set_state_sel [simp]:
  "svc_state (set_state st s) = st" "svc_flags (set_state st s) = svc_flags s"
  by (simp_all add: set_state_def)

text \<open>What the death of an ordinary main process is taken for.\<close>

definition fate_state :: "sysenv \<Rightarrow> wait_status \<Rightarrow> service_t \<Rightarrow> u8" where
  "fate_state env st s =
     (if socket_idle env st s \<or> (st = Exited 0 \<and> has_flag s SVC_ONESHOT) then STATE_PERFECT
      else if has_flag s SVC_NO_RESTART then STATE_EXCISED
      else if ctl_killed s then STATE_NEW_PROCESS
      else STATE_RECOVERY)"

lemma st_reap_fate:
  assumes "i < nsvc e"
  shows "svc_state (sv (reap_fate env st i e) i) = fate_state env st (sv e i)"
  using assms
  by (simp add: reap_fate_def fate_state_def Let_def sv_at_same st_kill_tree mark_boot_ready_def
      excise_for_def)

definition exit_state :: "sysenv \<Rightarrow> wait_status \<Rightarrow> service_t \<Rightarrow> u8" where
  "exit_state env st s =
     (if has_flag s SVC_TIMER then STATE_PERFECT
      else if fork_handover st s then (if cgroup_path s = [] then STATE_EXCISED else svc_state s)
      else fate_state env st s)"

lemma fate_state_cong:
  "fate_state env st (s\<lparr>cgroup_path := cg\<rparr>) = fate_state env st s"
  "fate_state env st (s\<lparr>main_pid := mp\<rparr>) = fate_state env st s"
  by (simp_all add: fate_state_def socket_idle_def)

lemma st_reap_exit:
  assumes i: "i < nsvc e"
  shows "svc_state (sv (reap_exit env st i e) i) = exit_state env st (sv e i)"
proof -
  define e1 where "e1 = at i (\<lambda>s. s\<lparr>main_pid := 0\<rparr>) e"
  define e2 where "e2 = (if \<not> fork_handover st (sv e1 i) \<and> cgroup_path (sv e1 i) \<noteq> [] \<and>
      sys_cg_children env (cgroup_path (sv e1 i)) then kill_tree env i e1 else e1)"
  have s1: "sv e1 i = (sv e i)\<lparr>main_pid := 0\<rparr>" "nsvc e1 = nsvc e" using i by (simp_all add: e1_def sv_at_same)
  have ho: "fork_handover st (sv e1 i) = fork_handover st (sv e i)" using s1 by (simp add: fork_handover_def)
  have n2: "nsvc e2 = nsvc e" using s1 by (simp add: e2_def)
  obtain cg where s2: "sv e2 i = (sv e1 i)\<lparr>cgroup_path := cg\<rparr>"
      "fork_handover st (sv e i) \<longrightarrow> cg = cgroup_path (sv e i)"
  proof (cases "e2 = e1")
    case True
    then show thesis using that [of "cgroup_path (sv e1 i)"] s1 by simp
  next
    case False
    then have k: "e2 = kill_tree env i e1" and nh: "\<not> fork_handover st (sv e i)"
      using ho by (auto simp: e2_def split: if_splits)
    have "i < nsvc e1" using i s1 by simp
    then show thesis unfolding k by (rule sv_kill_tree [of i e1 env]) (use that nh k in blast)
  qed
  have st2: "svc_state (sv e2 i) = svc_state (sv e i)" using s1 s2 by simp
  have fl: "svc_flags (sv e2 i) = svc_flags (sv e i)" using s1 s2 by simp
  have r: "reap_exit env st i e =
      (if has_flag (sv e2 i) SVC_TIMER then
         stop_post env i (log_svc i (if exit_status (sv e2 i) = 0 then ''timer-done'' else ''timer-failed'')
             (timer_rearm env i e2))
       else if fork_handover st (sv e1 i) then
         (if cgroup_path (sv e2 i) = []
            then log_svc i ''pid_file-no-cgroup'' (at i (excise_for EXC_NO_CGROUP) e2)
            else fork_adopt env i e2)
       else stop_post env i (reap_fate env st i e2))"
    unfolding reap_exit_def Let_def e2_def e1_def by (rule refl)
  have fate: "fate_state env st (sv e2 i) = fate_state env st (sv e i)"
    by (simp add: s2 s1 fate_state_cong)
  show ?thesis
    unfolding r exit_state_def
    using i n2 st2 fl ho s2 fate
    by (simp add: st_stop_post st_timer_rearm st_reap_fate st_fork_adopt sv_at_same excise_for_def)
qed

text \<open>An exit is the bound's doing when the binder is held already, or its bound is not up, is being
  stopped, or is not there.\<close>

definition bound_gone :: "engine \<Rightarrow> service_t \<Rightarrow> bool" where
  "bound_gone e s \<longleftrightarrow>
     (case bind_bound (services e) s of
        None \<Rightarrow> True
      | Some t \<Rightarrow> \<not> svc_is_up (sv e t) \<or> ctl_killed (sv e t) \<or>
          (0 < stop_pid (sv e t) \<and> bit (stop_phase (sv e t)) 0 \<and> \<not> bit (stop_phase (sv e t)) 1))"

definition held_exit :: "engine \<Rightarrow> service_t \<Rightarrow> bool" where
  "held_exit e s \<longleftrightarrow> bind_held s \<or> (bind_name s \<noteq> [] \<and> \<not> ctl_killed s \<and> bound_gone e s)"

lemma exit_record_sel [simp]:
  "inst (exit_record st s) = inst s" "svc_flags (exit_record st s) = svc_flags s"
  "child_pid (exit_record st s) = child_pid s" "main_pid (exit_record st s) = main_pid s"
  "ctl_killed (exit_record st s) = ctl_killed s" "listen_open (exit_record st s) = listen_open s"
  "notify_ready (exit_record st s) = notify_ready s" "cgroup_path (exit_record st s) = cgroup_path s"
  "pid_file (exit_record st s) = pid_file s" "fork_state (exit_record st s) = fork_state s"
  "spawn_time_mono (exit_record st s) = spawn_time_mono s" "bind_held (exit_record st s) = bind_held s"
  "bind_name (exit_record st s) = bind_name s" "stop_pid (exit_record st s) = stop_pid s"
  "stop_phase (exit_record st s) = stop_phase s" "dep_name (exit_record st s) = dep_name s"
  "dep_idx (exit_record st s) = dep_idx s" "restart_count (exit_record st s) = restart_count s"
  "dormant_count (exit_record st s) = dormant_count s" "main_wait (exit_record st s) = main_wait s"
  by (simp_all add: exit_record_def split: wait_status.split)

lemma bind_bound_slots_cong:
  assumes "length t2 = length t1" "\<forall>k<length t1. svc_flags (t2 ! k) = svc_flags (t1 ! k)"
  shows "bind_bound_slots bn t2 ds = bind_bound_slots bn t1 ds"
  using assms by (induction ds) auto

lemma services_note_exit: "services (note_exit st i e) = services (at i (exit_record st) e)"
  by (simp add: note_exit_def Let_def)

lemma st_bind_hold: "i < nsvc e \<Longrightarrow> sv (bind_hold i ev e) i =
   (sv e i)\<lparr>bind_held_since := bind_held_since (sv (bind_hold i ev e) i), bind_held := True, bind_died_at := ts_zero\<rparr>"
  by (simp add: bind_hold_def Let_def sv_at_same)

lemma services_first_step:
  "i < nsvc e \<Longrightarrow> services (note_exit st i (at i (\<lambda>s. s\<lparr>last_pid := p, child_pid := 0\<rparr>) e)) =
     (services e)[i := exit_record st ((sv e i)\<lparr>last_pid := p, child_pid := 0\<rparr>)]"
  by (simp add: services_note_exit services_at)

lemma bound_gone_first_step:
  assumes "i < nsvc e" "services e1 = (services e)[i := exit_record st ((sv e i)\<lparr>last_pid := p, child_pid := 0\<rparr>)]"
  shows "bound_gone e1 (sv e1 i) = bound_gone e (sv e i)"
proof -
  have "bind_bound_slots bn (services e1) ds = bind_bound_slots bn (services e) ds" for bn ds
    by (rule bind_bound_slots_cong) (use assms in \<open>auto simp: nth_upd\<close>)
  then have b: "bind_bound (services e1) (sv e1 i) = bind_bound (services e) (sv e i)"
    using assms by (simp add: bind_bound_def)
  have "svc_is_up (sv e1 t) = svc_is_up (sv e t)" "ctl_killed (sv e1 t) = ctl_killed (sv e t)"
    "stop_pid (sv e1 t) = stop_pid (sv e t)" "stop_phase (sv e1 t) = stop_phase (sv e t)" for t
    using assms by (cases "t = i"; simp add: svc_is_up_def)+
  then show ?thesis using b by (simp add: bound_gone_def split: option.split)
qed

lemma sv_reap_bind:
  assumes "i < nsvc e"
  shows "\<exists>since died sr sd. sv (reap_bind env i e) i =
    (sv e i)\<lparr>bind_held_since := since, bind_held := held_exit e (sv e i), bind_died_at := died,
             bind_saved_restarts := sr, bind_saved_dormant := sd\<rparr>"
proof -
  let ?s = "sv e i"
  let ?r = "sv (reap_bind env i e) i"
  have "?r = ?s\<lparr>bind_held_since := bind_held_since ?r, bind_held := held_exit e ?s, bind_died_at := bind_died_at ?r,
      bind_saved_restarts := bind_saved_restarts ?r, bind_saved_dormant := bind_saved_dormant ?r\<rparr>"
  proof (cases "bind_name ?s \<noteq> [] \<and> \<not> bind_held ?s \<and> \<not> ctl_killed ?s")
    case False
    then have "reap_bind env i e = e" "held_exit e ?s = bind_held ?s"
      by (auto simp: reap_bind_def held_exit_def Let_def)
    then show ?thesis by simp
  next
    case t: True
    show ?thesis
    proof (cases "bound_gone e ?s")
      case True
      then have "reap_bind env i e = bind_hold i ''bind-stop'' e" "held_exit e ?s"
        using t by (simp_all add: reap_bind_def held_exit_def bound_gone_def Let_def)
      then show ?thesis using assms by (simp add: bind_hold_def Let_def sv_at_same)
    next
      case False
      then have "\<not> held_exit e ?s" using t by (simp add: held_exit_def)
      then show ?thesis using t False assms
        by (simp add: reap_bind_def bound_gone_def [symmetric] Let_def sv_at_same)
    qed
  qed
  then show ?thesis by blast
qed

lemma nsvc_reap_bind [simp]: "nsvc (reap_bind env i e) = nsvc e"
  using onlyD [OF only_reap_bind [OF only_refl]] by blast

lemma st_reap_held: "i < nsvc e \<Longrightarrow> svc_state (sv (reap_held env i e) i) = STATE_EXCISED"
  by (simp add: reap_held_def st_stop_post st_kill_tree sv_at_same excise_bind_def)

lemma st_reap_handover: "i < nsvc e \<Longrightarrow> svc_state (sv (reap_handover env i e) i) = svc_state (sv e i)"
  by (simp add: reap_handover_def Let_def main_adopt_def mainpid_rejected_def sv_at_same split: option.split)

definition child_state :: "sysenv \<Rightarrow> int \<Rightarrow> wait_status \<Rightarrow> bool \<Rightarrow> service_t \<Rightarrow> u8" where
  "child_state env p st held s =
     (if held then STATE_EXCISED
      else if is_launcher p s \<and> st = Exited 0
      then (if cgroup_path s = [] then STATE_EXCISED else svc_state s)
      else exit_state env st s)"

lemma exit_state_cong:
  assumes "inst s' = inst s" "svc_flags s' = svc_flags s" "listen_open s' = listen_open s"
    "ctl_killed s' = ctl_killed s" "pid_file s' = pid_file s" "fork_state s' = fork_state s"
    "spawn_time_mono s' = spawn_time_mono s" "cgroup_path s' = cgroup_path s \<or> st \<noteq> Exited 0"
  shows "exit_state env st s' = exit_state env st s"
  using assms by (auto simp: exit_state_def fate_state_def fork_handover_def socket_idle_def)

lemma st_reap_child:
  assumes i: "i < nsvc e"
  shows "svc_state (sv (reap_child env p st i e) i) = child_state env p st (held_exit e (sv e i)) (sv e i)"
proof -
  define e1 where "e1 = note_exit st i (at i (\<lambda>s. s\<lparr>last_pid := p, child_pid := 0\<rparr>) e)"
  define e2 where "e2 = reap_bind env i e1"
  let ?s = "sv e i"
  have s1: "services e1 = (services e)[i := exit_record st (?s\<lparr>last_pid := p, child_pid := 0\<rparr>)]"
    using i by (simp add: e1_def services_first_step)
  then have n: "i < nsvc e1" "i < nsvc e2" using i by (simp_all add: e2_def)
  have h1: "held_exit e1 (sv e1 i) = held_exit e ?s"
    using bound_gone_first_step [OF i s1] s1 i by (simp add: held_exit_def)
  obtain since died sr sd where "sv e2 i =
      (sv e1 i)\<lparr>bind_held_since := since, bind_held := held_exit e ?s, bind_died_at := died,
             bind_saved_restarts := sr, bind_saved_dormant := sd\<rparr>"
    using sv_reap_bind [OF n(1)] unfolding e2_def h1 by blast
  then have s2: "sv e2 i = (exit_record st (?s\<lparr>last_pid := p, child_pid := 0\<rparr>))
      \<lparr>bind_held_since := since, bind_held := held_exit e ?s, bind_died_at := died,
       bind_saved_restarts := sr, bind_saved_dormant := sd\<rparr>"
    using s1 i by simp
  have ho: "is_launcher p (sv e2 i) = is_launcher p ?s" by (simp add: s2 is_launcher_def)
  have ex: "exit_state env st (sv e2 i) = exit_state env st ?s"
    by (rule exit_state_cong) (simp_all add: s2)
  have ex': "exit_state env st (sv (kill_tree env i e2) i) = exit_state env st ?s" if x: "st \<noteq> Exited 0"
  proof -
    obtain cg where "sv (kill_tree env i e2) i = (sv e2 i)\<lparr>cgroup_path := cg\<rparr>"
      using sv_kill_tree [OF n(2)] by blast
    then have "exit_state env st (sv (kill_tree env i e2) i) = exit_state env st (sv e2 i)"
      using x by (intro exit_state_cong) simp_all
    then show ?thesis using ex by simp
  qed
  have f2: "bind_held (sv e2 i) = held_exit e ?s" "cgroup_path (sv e2 i) = cgroup_path ?s"
    "svc_state (sv e2 i) = svc_state ?s" by (simp_all add: s2)
  show ?thesis
    unfolding reap_child_def Let_def e1_def [symmetric] e2_def [symmetric] child_state_def
    using n ho ex ex' f2
    by (simp add: st_reap_held st_reap_handover st_reap_exit st_stop_post sv_at_same excise_for_def)
qed

text \<open>A held exit spends nothing of the restart budget and leaves the backoff alone.\<close>

lemma budget_stop_post:
  "i < nsvc e \<Longrightarrow> restart_count (sv (stop_post env i e) i) = restart_count (sv e i) \<and>
     dormant_count (sv (stop_post env i e) i) = dormant_count (sv e i) \<and>
     excise_reason (sv (stop_post env i e) i) = excise_reason (sv e i) \<and>
     failsafe_pid (sv (stop_post env i e) i) = failsafe_pid (sv e i)"
  using services_stop_cmds_begin [of env 2 i e] by (auto simp: stop_post_def)

lemma budget_kill_tree:
  "i < nsvc e \<Longrightarrow> restart_count (sv (kill_tree env i e) i) = restart_count (sv e i) \<and>
     dormant_count (sv (kill_tree env i e) i) = dormant_count (sv e i) \<and>
     excise_reason (sv (kill_tree env i e) i) = excise_reason (sv e i) \<and>
     failsafe_pid (sv (kill_tree env i e) i) = failsafe_pid (sv e i)"
  by (erule sv_kill_tree [of i e env]) simp

lemma held_exit_budget:
  assumes i: "i < nsvc e" and h: "held_exit e (sv e i)"
  shows "restart_count (sv (reap_child env p st i e) i) = restart_count (sv e i) \<and>
    dormant_count (sv (reap_child env p st i e) i) = dormant_count (sv e i) \<and>
    excise_reason (sv (reap_child env p st i e) i) = EXC_BIND \<and>
    failsafe_pid (sv (reap_child env p st i e) i) = failsafe_pid (sv e i)"
proof -
  define e1 where "e1 = note_exit st i (at i (\<lambda>s. s\<lparr>last_pid := p, child_pid := 0\<rparr>) e)"
  define e2 where "e2 = reap_bind env i e1"
  let ?s = "sv e i"
  have s1: "services e1 = (services e)[i := exit_record st (?s\<lparr>last_pid := p, child_pid := 0\<rparr>)]"
    using i by (simp add: e1_def services_first_step)
  then have n: "i < nsvc e1" "i < nsvc e2" using i by (simp_all add: e2_def)
  have h1: "held_exit e1 (sv e1 i)"
    using bound_gone_first_step [OF i s1] s1 i h by (simp add: held_exit_def)
  have f2: "bind_held (sv e2 i)" "restart_count (sv e2 i) = restart_count (sv e1 i)"
    "dormant_count (sv e2 i) = dormant_count (sv e1 i)" "failsafe_pid (sv e2 i) = failsafe_pid (sv e1 i)"
    using sv_reap_bind [OF n(1), of env] h1 unfolding e2_def by force+
  have f1: "restart_count (sv e1 i) = restart_count ?s" "dormant_count (sv e1 i) = dormant_count ?s"
    "failsafe_pid (sv e1 i) = failsafe_pid ?s"
    using i by (simp_all add: s1) (simp add: exit_record_def split: wait_status.split)
  show ?thesis
    unfolding reap_child_def Let_def e1_def [symmetric] e2_def [symmetric]
    using n f1 f2 by (simp add: reap_held_def budget_stop_post budget_kill_tree sv_at_same excise_bind_def set_state_def)
qed

text \<open>The eviction table stays within its array.\<close>

lemma evictions_reap_parts [simp]:
  "evictions (note_exit st i e) = evictions e" "evictions (timer_rearm env i e) = evictions e"
  "evictions (fork_adopt env i e) = evictions e" "evictions (start_failsafe env i e) = evictions e"
  "evictions (reap_bind env i e) = evictions e" "evictions (card_done st i e) = evictions e"
  "evictions (stop_cmds_done env st i e) = evictions e" "evictions (reap_handover env i e) = evictions e"
  by (simp_all add: note_exit_def timer_rearm_def fork_adopt_def start_failsafe_def reap_bind_def
      card_done_def stop_cmds_done_def reap_handover_def main_adopt_def mainpid_rejected_def Let_def
      split: option.split)

lemma evictions_reap_fate:
  "length (evictions e) \<le> MAX_EVICTIONS \<Longrightarrow> length (evictions (reap_fate env st i e)) \<le> MAX_EVICTIONS"
  by (simp add: reap_fate_def Let_def evictions_kill_tree)

lemma evictions_reap_exit:
  "length (evictions e) \<le> MAX_EVICTIONS \<Longrightarrow> length (evictions (reap_exit env st i e)) \<le> MAX_EVICTIONS"
  by (simp add: reap_exit_def Let_def evictions_kill_tree evictions_reap_fate)

lemma evictions_reap_one:
  "length (evictions e) \<le> MAX_EVICTIONS \<Longrightarrow> length (evictions (reap_one env p st e)) \<le> MAX_EVICTIONS"
  using length_eviction_reaped [of env p "evictions e"]
  by (auto simp: reap_one_def reap_child_def reap_held_def Let_def evictions_kill_tree evictions_reap_exit
      split: option.split prod.splits)



text \<open>C9. A binder that goes down because its bound went down is not blamed for it: its restart count,
  its backoff and its failsafe are left alone, and the recorded reason is the bind.\<close>

theorem bound_exit_costs_nothing:
  assumes "i < nsvc e" "bind_held (sv e i) \<or> (bind_name (sv e i) \<noteq> [] \<and> \<not> ctl_killed (sv e i) \<and> bound_gone e (sv e i))"
  shows "restart_count (sv (reap_child env p st i e) i) = restart_count (sv e i) \<and>
    dormant_count (sv (reap_child env p st i e) i) = dormant_count (sv e i) \<and>
    excise_reason (sv (reap_child env p st i e) i) = EXC_BIND \<and>
    failsafe_pid (sv (reap_child env p st i e) i) = failsafe_pid (sv e i)"
  using assms by (intro held_exit_budget) (auto simp: held_exit_def)

theorem bound_exit_costs_nothing_witness:
  "excise_reason (sv (reap_child plain_env 7 (Exited 1) 0
     (engine_init [plain_svc\<lparr>child_pid := 7, bind_name := ''b''\<rparr>])) 0) = EXC_BIND"
proof -
  let ?e = "engine_init [plain_svc\<lparr>child_pid := 7, bind_name := ''b''\<rparr>]"
  have "0 < nsvc ?e" "bind_held (sv ?e 0) \<or> (bind_name (sv ?e 0) \<noteq> [] \<and> \<not> ctl_killed (sv ?e 0) \<and> bound_gone ?e (sv ?e 0))"
    by (simp_all add: engine_init_def plain_svc_def svc_init_defaults_def bound_gone_def bind_bound_def numeral_eq_Suc)
  from bound_exit_costs_nothing [OF this, of plain_env 7 "Exited 1"] show ?thesis by simp
qed

end
