(* ===== verification/SI_Tick.thy ===== *)
theory SI_Tick
  imports SI_Reap
begin

text \<open>
  One pass over one service (\<^verbatim>\<open>tick_service\<close> of \<^verbatim>\<open>engine.c\<close>) with the readiness watch, and the two
  per-pass monitors: \<^verbatim>\<open>monitor_failsafes\<close> and \<^verbatim>\<open>service_watchdog_tick\<close>. \<^verbatim>\<open>tick_service\<close> is split by
  the state the service is in, as its \<^verbatim>\<open>switch\<close> is.
\<close>

abbreviation (input) TICK_USEC :: int where "TICK_USEC \<equiv> 250000"

section \<open>Readiness\<close>

definition ready_path_fresh :: "sysenv \<Rightarrow> service_t \<Rightarrow> bool" where
  "ready_path_fresh env s =
     (case sys_stat env (ready_path s) of
        None \<Rightarrow> False
      | Some st \<Rightarrow>
          \<not> (ready_stale_ino s \<noteq> 0 \<and> st_ino st = ready_stale_ino s \<and> st_dev st = ready_stale_dev s \<and>
             tv_sec (st_ctim st) = tv_sec (ready_stale_ctime s) \<and>
             tv_nsec (st_ctim st) = tv_nsec (ready_stale_ctime s)))"

definition svc_held_on_socket :: "service_t \<Rightarrow> bool" where
  "svc_held_on_socket s \<longleftrightarrow> sock_waiting s \<and> svc_state s = STATE_NEW_PROCESS"

definition ready_live :: "service_t \<Rightarrow> bool" where
  "ready_live s \<longleftrightarrow>
     svc_state s = STATE_FUNDAMENTAL \<and> ready_path s \<noteq> [] \<and> 0 < child_pid s \<and> \<not> ctl_killed s \<and>
     ready_path_verified s"

definition ready_lost :: "sysenv \<Rightarrow> nat \<Rightarrow> engine \<Rightarrow> engine" where
  "ready_lost env i e =
     (let e1 = active_kill_service env i (log_svc i ''readiness-lost'' e) in
      if has_flag (sv e1 i) SVC_NO_RESTART
      then log_svc i ''76-no-restart'' (at i (excise_for EXC_READINESS_LOST) e1)
      else at i (set_state STATE_RECOVERY) (start_failsafe env i e1))"

definition dirname_of :: "string \<Rightarrow> string" where
  "dirname_of p =
     (let d = rev (tl (dropWhile (\<lambda>c. c \<noteq> CHR ''/'') (rev p))) in if d = [] then ''/'' else d)"

definition ready_watch :: "sysenv \<Rightarrow> nat \<Rightarrow> engine \<Rightarrow> engine" where
  "ready_watch env i e =
     (let s = sv e i;
          ok = (CHR ''/'' \<in> set (ready_path s) \<and> sys_inotify_add env (dirname_of (ready_path s)));
          e1 = at i (\<lambda>s. s\<lparr>ready_watched := (if ok then 1 else -1)\<rparr>) e
      in if ok \<and> \<not> sys_exists env (ready_path s) then ready_lost env i e1 else e1)"

definition ready_recheck_one :: "sysenv \<Rightarrow> nat \<Rightarrow> engine \<Rightarrow> engine" where
  "ready_recheck_one env i e =
     (let s = sv e i in
      if \<not> ready_live s \<or> ready_watched s \<le> 0 \<or> 0 < ready_poll_hz s then e
      else if \<not> sys_exists env (ready_path s) then ready_lost env i e
      else at i (\<lambda>s. s\<lparr>ready_watched := 0\<rparr>) e)"

definition ready_recheck_all :: "sysenv \<Rightarrow> engine \<Rightarrow> engine" where
  "ready_recheck_all env e = fold (ready_recheck_one env) [0..<nsvc e] e"

section \<open>The quarantine fuse\<close>

definition fuse_blown :: "engine \<Rightarrow> service_t \<Rightarrow> bool" where
  "fuse_blown e s \<longleftrightarrow>
     list_ex (\<lambda>di. svc_state (sv e (nat di)) = STATE_FRICTION \<or> svc_state (sv e (nat di)) = STATE_EXCISED)
       (takeWhile (\<lambda>di. 0 \<le> di) (take MAX_DEPS (dep_idx s)))"

definition tick_fuse :: "sysenv \<Rightarrow> nat \<Rightarrow> engine \<Rightarrow> engine" where
  "tick_fuse env i e =
     (if fuse (sv e i) \<and> svc_state (sv e i) \<noteq> STATE_EXCISED \<and> fuse_blown e (sv e i) then
        (let e1 = log_svc i ''fuse-tripped'' (at i (excise_for EXC_FUSE) (execute_fuse_cmd env i e))
         in if 0 < child_pid (sv e1 i)
            then at i (\<lambda>s. s\<lparr>child_pid := 0\<rparr>)
                   (kill_tree env i (emit [Kill (child_pid (sv e1 i)) SIGKILL] e1))
            else e1)
      else e)"

section \<open>NEW\_PROCESS\<close>

definition tick_spawn :: "sysenv \<Rightarrow> nat \<Rightarrow> engine \<Rightarrow> engine" where
  "tick_spawn env i e =
     (let e1 = at i (\<lambda>s. s\<lparr>inst := schema_step (inst s) (service_probe_f8 env s (services e))\<rparr>) e in
      if svc_state (sv e1 i) = STATE_FULL_TRUST then
        (let e2 = log_svc i ''spawn'' e1;
             e3 = e2\<lparr>evictions := eviction_forget (service_cgroup_path_for env (sv e2 i)) (evictions e2)\<rparr>
         in case service_spawn env (sv e3 i) of
              (s', effs, ok) \<Rightarrow>
                let e4 = emit effs (at i (\<lambda>_. s') e3)
                in if ok then e4 else log_svc i ''spawn-fail'' (at i (set_state STATE_RECOVERY) e4))
      else log_svc i ''blocked'' e1)"

definition condition_skip :: "sysenv \<Rightarrow> string \<Rightarrow> nat \<Rightarrow> engine \<Rightarrow> engine" where
  "condition_skip env why i e =
     (case service_listen_close (sv e i) of
        (s', effs) \<Rightarrow>
          let e1 = emit effs (at i (\<lambda>_. s') e);
              e2 = (if has_flag (sv e1 i) SVC_TIMER then timer_rearm env i e1
                    else at i (\<lambda>s. mark_boot_ready READY_CONDITION
                                ((set_state STATE_PERFECT s)\<lparr>stable_time := sys_mono env\<rparr>)) e1)
          in log_svc i (take 199 (''condition-skip '' @ take 159 why)) e2)"

definition tick_hold :: "sysenv \<Rightarrow> nat \<Rightarrow> engine \<Rightarrow> engine" where
  "tick_hold env i e =
     (case service_listen_open env (sv e i) of
        (s', effs, ok) \<Rightarrow>
          let e1 = emit effs (at i (\<lambda>_. s') e)
          in if \<not> ok
             then log_svc i ''listen-fail'' (at i (\<lambda>s. excise_for EXC_LISTEN_FAIL (s\<lparr>listen_hold := False\<rparr>)) e1)
             else log_svc i ''socket-wait''
                    (at i (\<lambda>s. mark_boot_ready READY_SOCKET
                       ((set_state STATE_PERFECT s)\<lparr>stable_time := sys_mono env\<rparr>)) e1))"

definition tick_start :: "sysenv \<Rightarrow> nat \<Rightarrow> engine \<Rightarrow> engine" where
  "tick_start env i e =
     (case (if cond (sv e i) = [] then Inr () else service_conditions_met env (sv e i)) of
        Inl why \<Rightarrow> condition_skip env why i e
      | Inr _ \<Rightarrow> if listen_hold (sv e i) then tick_hold env i e else tick_spawn env i e)"

definition fallback_running :: "engine \<Rightarrow> nat \<Rightarrow> bool" where
  "fallback_running e i =
     (case service_fallback i (services e) of None \<Rightarrow> False | Some j \<Rightarrow> 0 < child_pid (sv e j))"

definition tick_new :: "sysenv \<Rightarrow> u8 list \<Rightarrow> nat \<Rightarrow> engine \<Rightarrow> engine" where
  "tick_new env gs i e =
     (let s = sv e i in
      if 0 < failsafe_pid s \<or> 0 < card_pid s \<or> 0 < stop_pid s then e
      else if svc_retry_held s (sys_mono env) then e
      else if \<not> standby_up s \<and> service_is_standby i (services e)
      then log_svc i ''standby'' (at i (\<lambda>s. excise_for EXC_NONE (add_flag SVC_NO_RESTART s)) e)
      else if fallback_live s \<and> fallback_running e i then e
      else if \<not> service_deps_ready s (services e) gs then e
      else if wait_socket s \<noteq> [] \<and> \<not> sys_socket_accepts env (wait_socket s)
      then (if sock_waiting s then e else log_svc i ''wait-socket'' (at i (\<lambda>s. s\<lparr>sock_waiting := True\<rparr>) e))
      else tick_start env i (at i (\<lambda>s. s\<lparr>sock_waiting := False\<rparr>) e))"

section \<open>FULL\_TRUST\<close>

definition ready_now :: "sysenv \<Rightarrow> bool \<Rightarrow> service_t \<Rightarrow> ready_how option" where
  "ready_now env reporter s =
     (if pid_file s \<noteq> [] \<and> fork_state s \<noteq> 1 then None
      else if (notify s \<or> ready_bus_name s \<noteq> []) \<and> notify_ready s
      then Some (if ready_bus_name s \<noteq> [] then READY_BUS else READY_NOTIFY)
      else if service_verifies_limits s then None
      else if ready_path s \<noteq> [] \<and> ready_path_fresh env s then Some READY_PATH
      else if pid_file s \<noteq> [] then (if fork_state s = 1 then Some READY_PIDFILE else None)
      else if ready_timer_due (tv_sec (sys_mono env) - tv_sec (spawn_time_mono s)) (stable_secs s)
                (ready_bus_name s \<noteq> []) (cgroup_path s \<noteq> []) reporter
      then Some READY_TIMER
      else None)"

definition tick_promote :: "sysenv \<Rightarrow> ready_how \<Rightarrow> nat \<Rightarrow> engine \<Rightarrow> engine" where
  "tick_promote env how i e =
     (let e0 = (if how = READY_PATH then at i (\<lambda>s. s\<lparr>ready_path_verified := True\<rparr>) e else e);
          e1 = at i (\<lambda>s. s\<lparr>inst := schema_step (inst s) (service_probe_f8 env s (services e0))\<rparr>) e0;
          e2 = (if svc_state (sv e1 i) = STATE_EXCISED
                then at i (\<lambda>s. s\<lparr>excise_reason := EXC_PROBE\<rparr>) e1 else e1)
      in if svc_state (sv e2 i) \<noteq> STATE_FULL_TRUST
         then log_svc i ''promote''
                (at i (\<lambda>s. mark_boot_ready how (s\<lparr>stable_time := sys_mono env\<rparr>)) e2)
         else e2)"

definition start_timed_out :: "sysenv \<Rightarrow> engine \<Rightarrow> service_t \<Rightarrow> bool" where
  "start_timed_out env e s \<longleftrightarrow>
     0 < start_timeout_sec s \<and> 0 < child_pid s \<and> notify_paused_since e = 0 \<and> \<not> notify_ready s \<and>
     start_timeout_sec s \<le> tv_sec (sys_mono env) - tv_sec (spawn_time_mono s)"

definition tick_start_timeout :: "sysenv \<Rightarrow> nat \<Rightarrow> engine \<Rightarrow> engine" where
  "tick_start_timeout env i e =
     (let e1 = start_failsafe env i (active_kill_service env i (log_svc i ''start-timeout'' e)) in
      if \<not> has_flag (sv e1 i) SVC_CRITICAL \<and> \<not> no_excise (sv e1 i)
      then log_svc i ''76-excised'' (at i (excise_for EXC_START_TIMEOUT) e1)
      else log_svc i ''timeout-recovery'' (at i (set_state STATE_RECOVERY) e1))"

definition tick_fork_wait :: "sysenv \<Rightarrow> nat \<Rightarrow> engine \<Rightarrow> engine" where
  "tick_fork_wait env i e =
     (let e1 = fork_adopt env i e; s = sv e1 i in
      if fork_state s < 0 \<and> tv_sec (fork_wait s) \<le> tv_sec (sys_mono env)
      then log_svc i ''pid_file-missing'' (at i (set_state STATE_RECOVERY)
             (start_failsafe env i (at i (restart_budget_refresh env)
               (kill_tree env i (at i (\<lambda>s. s\<lparr>fork_state := 0\<rparr>) e1)))))
      else e1)"

definition tick_full_trust :: "sysenv \<Rightarrow> nat \<Rightarrow> engine \<Rightarrow> engine" where
  "tick_full_trust env i e =
     (let s = sv e i in
      if start_timed_out env e s then tick_start_timeout env i e
      else if fork_state s < 0 then tick_fork_wait env i e
      else if \<not> has_flag s SVC_ONESHOT \<and> 0 < child_pid s
      then (case ready_now env (bus_reporter_seen e) s of None \<Rightarrow> e | Some how \<Rightarrow> tick_promote env how i e)
      else e)"

section \<open>RECOVERY, FRICTION and DORMANT\<close>

definition tick_retry :: "sysenv \<Rightarrow> string \<Rightarrow> nat \<Rightarrow> engine \<Rightarrow> engine" where
  "tick_retry env ev i e =
     (let e1 = log_svc i ev
            (at i (\<lambda>s. svc_hold_retry ((set_state STATE_NEW_PROCESS s)\<lparr>restart_count := restart_count s + 1\<rparr>)
                        (sys_mono env)) e);
          e2 = (if 0 < restart_sec (sv e1 i) then log_svc i ''restart-hold'' e1 else e1)
      in play_card env i e2)"

definition tick_recovery :: "sysenv \<Rightarrow> nat \<Rightarrow> engine \<Rightarrow> engine" where
  "tick_recovery env i e =
     (let e1 = at i (\<lambda>s. s\<lparr>inst := schema_step (inst s) (service_probe_f9 env i (services e))\<rparr>) e in
      if svc_state (sv e1 i) = STATE_SETTLED then tick_retry env ''retry'' i e1
      else if svc_state (sv e1 i) = STATE_FRICTION then log_svc i ''friction'' e1
      else e1)"

definition tick_friction :: "sysenv \<Rightarrow> nat \<Rightarrow> engine \<Rightarrow> engine" where
  "tick_friction env i e =
     (let e1 = at i (\<lambda>s. s\<lparr>inst := schema_step (inst s) (service_probe_f6 env s)\<rparr>) e in
      if svc_state (sv e1 i) = STATE_RECOVERY then tick_retry env ''retry-deep'' i e1
      else if svc_state (sv e1 i) = STATE_EXCISED then
        (let e2 = engine_friction_verdict env i (kill_tree env i e1)
         in if fallback_live (sv e2 i)
            then (case service_fallback i (services e2) of Some j \<Rightarrow> fallback_up j e2 | None \<Rightarrow> e2)
            else e2)
      else e1)"

definition tick_dormant :: "sysenv \<Rightarrow> nat \<Rightarrow> engine \<Rightarrow> engine" where
  "tick_dormant env i e =
     (if tv_sec (dormant_until (sv e i)) \<le> tv_sec (sys_mono env) then
        (let e1 = log_svc i ''dormant-wake''
                    (at i (\<lambda>s. (set_state STATE_NEW_PROCESS s)\<lparr>restart_count := restart_count s + 1\<rparr>) e);
             e2 = (if fallback_live (sv e1 i)
                   then (case service_fallback i (services e1) of Some j \<Rightarrow> fallback_down env j e1 | None \<Rightarrow> e1)
                   else e1)
         in play_card env i e2)
      else e)"

section \<open>FUNDAMENTAL and PERFECT\<close>

definition ticks_to_wait :: "int \<Rightarrow> int" where
  "ticks_to_wait hz =
     (let loop_hz = 1000000 div TICK_USEC
      in if hz < loop_hz then max 1 (loop_hz div hz) else 1)"

definition ready_poll :: "sysenv \<Rightarrow> nat \<Rightarrow> engine \<Rightarrow> engine" where
  "ready_poll env i e =
     (let s = sv e i in
      if ready_path_verified s \<and> 0 < ready_poll_hz s then
        (if ticks_to_wait (ready_poll_hz s) \<le> ready_check_ticks s + 1 then
           (let e1 = at i (\<lambda>s. s\<lparr>ready_check_ticks := 0\<rparr>) e
            in if \<not> sys_exists env (ready_path s) then ready_lost env i e1 else e1)
         else at i (\<lambda>s. s\<lparr>ready_check_ticks := ready_check_ticks s + 1\<rparr>) e)
      else if ready_path_verified s \<and> ready_watched s < 0 \<and> \<not> sys_exists env (ready_path s)
      then ready_lost env i e
      else e)"

definition tick_fundamental :: "sysenv \<Rightarrow> nat \<Rightarrow> engine \<Rightarrow> engine" where
  "tick_fundamental env i e =
     (let s = sv e i in
      if ready_path s \<noteq> [] \<and> 0 < child_pid s \<and> \<not> ctl_killed s then
        (let e1 = (if \<not> ready_path_verified s \<and> ready_path_fresh env s
                   then at i (\<lambda>s. s\<lparr>ready_path_verified := True\<rparr>) e else e);
             e2 = (if ready_path_verified (sv e1 i) \<and> ready_watched (sv e1 i) = 0
                   then ready_watch env i e1 else e1)
         in if svc_state (sv e2 i) \<noteq> STATE_FUNDAMENTAL then e2 else ready_poll env i e2)
      else e)"

definition timer_due :: "sysenv \<Rightarrow> service_t \<Rightarrow> bool" where
  "timer_due env s \<longleftrightarrow>
     (let now = (if has_flag s SVC_TIMER_CALENDAR then sys_real env else sys_mono env)
      in tv_sec (timer_next s) < tv_sec now \<or>
         (tv_sec now = tv_sec (timer_next s) \<and> tv_nsec (timer_next s) \<le> tv_nsec now))"

definition tick_perfect :: "sysenv \<Rightarrow> nat \<Rightarrow> engine \<Rightarrow> engine" where
  "tick_perfect env i e =
     (if has_flag (sv e i) SVC_TIMER \<and> timer_due env (sv e i)
      then log_svc i ''timer-fire'' (at i (set_state STATE_NEW_PROCESS) e) else e)"

section \<open>The tick\<close>

definition tick_service :: "sysenv \<Rightarrow> u8 list \<Rightarrow> nat \<Rightarrow> engine \<Rightarrow> engine" where
  "tick_service env gs i e0 =
     (let e = tick_fuse env i e0; st = svc_state (sv e i) in
      if st = STATE_NEW_PROCESS then tick_new env gs i e
      else if st = STATE_FULL_TRUST then tick_full_trust env i e
      else if st = STATE_RECOVERY then tick_recovery env i e
      else if st = STATE_FRICTION then tick_friction env i e
      else if st = STATE_DORMANT then tick_dormant env i e
      else if st = STATE_FUNDAMENTAL then tick_fundamental env i e
      else if st = STATE_PERFECT then tick_perfect env i e
      else e)"

section \<open>Monitors\<close>

definition ts_elapsed_ms :: "timespec \<Rightarrow> timespec \<Rightarrow> int" where
  "ts_elapsed_ms now start =
     (let d = tv_nsec now - tv_nsec start
      in (tv_sec now - tv_sec start) * 1000 + (if d < 0 then - ((- d) div 1000000) else d div 1000000))"

definition kill_group :: "int \<Rightarrow> effect list" where
  "kill_group p = [Kill (- p) SIGKILL, Kill p SIGKILL]"

definition monitor_card :: "sysenv \<Rightarrow> nat \<Rightarrow> engine \<Rightarrow> engine" where
  "monitor_card env i e =
     (let p = card_pid (sv e i) in
      if 0 < p \<and> CARD_TIMEOUT_SECS \<le> tv_sec (sys_mono env) - tv_sec (card_start (sv e i)) then
        (let e1 = emit [Kill (- p) SIGKILL, Kill p SIGKILL, Waitpid p] e
         in if sys_wait_block env p then log_svc i ''card-timeout'' (at i (\<lambda>s. s\<lparr>card_pid := 0\<rparr>) e1) else e1)
      else e)"

definition monitor_main_wait :: "sysenv \<Rightarrow> nat \<Rightarrow> engine \<Rightarrow> engine" where
  "monitor_main_wait env i e =
     (if main_wait (sv e i) \<and> tv_sec (main_wait_due (sv e i)) \<le> tv_sec (sys_mono env) then
        stop_post env i
          (at i (\<lambda>s. if has_flag s SVC_NO_RESTART then excise_for EXC_MAIN_PID_TIMEOUT s
                     else set_state STATE_RECOVERY s)
            (start_failsafe env i (at i (restart_budget_refresh env)
              (log_svc i ''main-pid-timeout'' (kill_tree env i (at i (\<lambda>s. s\<lparr>main_wait := False\<rparr>) e))))))
      else e)"

definition monitor_stop :: "sysenv \<Rightarrow> nat \<Rightarrow> engine \<Rightarrow> engine" where
  "monitor_stop env i e =
     (let s = sv e i in
      if 0 < stop_pid s \<and> \<not> bit (stop_phase s) 2 \<and> stop_grace_ms s \<le> ts_elapsed_ms (sys_mono env) (stop_start s) mod 2 ^ 64 then
        at i (\<lambda>s. s\<lparr>stop_phase := stop_phase s OR STOP_TIMED_OUT\<rparr>)
          (emit (if stop_phase s = 1 \<and> 0 < child_pid s then [Kill (child_pid s) SIGTERM] else [])
            (log_svc i ''stop-cmd-timeout''
              (emit (kill_group (stop_pid s)) e)))
      else e)"

definition monitor_failsafe :: "sysenv \<Rightarrow> nat \<Rightarrow> engine \<Rightarrow> engine" where
  "monitor_failsafe env i e =
     (let s = sv e i; p = failsafe_pid s in
      if p \<le> 0 then e
      else if sys_wait env p \<noteq> None \<or> sys_wait_gone env p
      then at i (\<lambda>s. s\<lparr>failsafe_pid := 0\<rparr>) (log_svc i ''failsafe-done'' e)
      else if (if 0 < failsafe_timeout_ms s then failsafe_timeout_ms s else 500) \<le> ts_elapsed_ms (sys_mono env) (failsafe_start s)
      then emit [Kill p SIGKILL] (log_svc i ''failsafe-timeout'' e)
      else e)"

definition monitor_one :: "sysenv \<Rightarrow> nat \<Rightarrow> engine \<Rightarrow> engine" where
  "monitor_one env i e =
     monitor_failsafe env i (monitor_stop env i (monitor_main_wait env i (monitor_card env i e)))"

definition monitor_failsafes :: "sysenv \<Rightarrow> engine \<Rightarrow> engine" where
  "monitor_failsafes env e = fold (monitor_one env) [0..<nsvc e] e"

definition watchdog_one :: "sysenv \<Rightarrow> nat \<Rightarrow> engine \<Rightarrow> engine" where
  "watchdog_one env i e =
     (let s = sv e i; now = sys_mono env in
      if wd_armed_sec s \<le> 0 \<or> child_pid s \<le> 0 \<or> \<not> notify_ready s \<or> ctl_killed s then e
      else if is_frozen s \<or> notify_paused_since e \<noteq> 0
      then at i (\<lambda>s. s\<lparr>last_pet := now, wd_abort_at := (if ts_set (wd_abort_at s) then now else wd_abort_at s)\<rparr>) e
      else if ts_ms_ceil now < svc_wd_due (last_pet s) (wd_abort_at s) (wd_armed_sec s) then e
      else if ts_set (wd_abort_at s)
      then at i (\<lambda>s. s\<lparr>wd_abort_at := ts_zero, last_pet := now\<rparr>)
             (emit [Kill (child_pid s) SIGKILL] (log_svc i ''watchdog-kill'' e))
      else at i (\<lambda>s. s\<lparr>wd_abort_at := now\<rparr>)
             (emit [Kill (child_pid s) SIGABRT] (log_svc i ''watchdog-abort'' e)))"

definition service_watchdog_tick :: "sysenv \<Rightarrow> engine \<Rightarrow> engine" where
  "service_watchdog_tick env e = fold (watchdog_one env) [0..<nsvc e] e"

section \<open>Forks of a service's process\<close>

text \<open>\<^verbatim>\<open>spawns e\<close>: the forks of main processes among the effects so far. Only \<^verbatim>\<open>tick_spawn\<close> adds to it.\<close>

fun is_spawn :: "effect \<Rightarrow> bool" where
  "is_spawn (RunFork FkService n p) = True"
| "is_spawn _ = False"

definition spawns :: "engine \<Rightarrow> effect list" where
  "spawns e = filter is_spawn (trace e)"

lemma is_spawn_service_log [simp]: "\<not> is_spawn (service_log s ev)"
  by (simp add: service_log_def)

lemma spawns_emit: "spawns (emit es e) = spawns e @ filter is_spawn es"
  by (simp add: spawns_def emit_def)

lemma spawns_at [simp]: "spawns (at i f e) = spawns e"
  by (simp add: spawns_def at_def)

lemma spawns_log [simp]: "spawns (log_svc i ev e) = spawns e"
  by (simp add: log_svc_def spawns_emit)

lemma spawns_upd [simp]: "spawns (e\<lparr>evictions := x\<rparr>) = spawns e" "spawns (e\<lparr>services := y\<rparr>) = spawns e"
  by (simp_all add: spawns_def)

lemma release_no_spawn:
  "service_cgroup_release_partition env s = Some effs \<Longrightarrow> filter is_spawn effs = []"
  by (auto simp: service_cgroup_release_partition_def Let_def split: option.splits if_splits)

lemma spawns_kill_tree [simp]: "spawns (kill_tree env i e) = spawns e"
  by (auto simp: kill_tree_def svc_cgroup_kill_tree_def service_cgroup_kill_def spawns_emit release_no_spawn
      Let_def split: option.split prod.splits)

lemma spawns_stop_cmds_begin [simp]: "spawns (fst (stop_cmds_begin env ph i e)) = spawns e"
  by (simp add: stop_cmds_begin_def Let_def spawns_emit)

lemma spawns_stop_main_tail [simp]: "spawns (stop_main_tail env i e) = spawns e"
proof -
  obtain e' b where eb: "stop_cmds_begin env 1 i e = (e', b)" by (cases "stop_cmds_begin env 1 i e")
  then have "spawns e' = spawns e" using spawns_stop_cmds_begin [of env 1 i e] by (simp del: spawns_stop_cmds_begin)
  then show ?thesis using eb by (simp add: stop_main_tail_def spawns_emit)
qed

lemma spawns_bind_stop_mark [simp]: "spawns (bind_stop_mark j ev e) = spawns e"
  by (simp add: bind_stop_mark_def bind_hold_def Let_def)

lemma spawns_binders_loop [simp]: "spawns (binders_loop env js i e) = spawns e"
  by (induction env js i e rule: binders_loop.induct) (simp_all add: binders_loop.simps(2))

lemma spawns_parts [simp]:
  "spawns (stop_main env i e) = spawns e" "spawns (stop_post env i e) = spawns e"
  "spawns (note_exit st i e) = spawns e" "spawns (start_failsafe env i e) = spawns e"
  "spawns (execute_fuse_cmd env i e) = spawns e" "spawns (timer_rearm env i e) = spawns e"
  "spawns (fork_adopt env i e) = spawns e" "spawns (park env i e) = spawns e"
  "spawns (engine_friction_verdict env i e) = spawns e" "spawns (fallback_up i e) = spawns e"
  by (simp_all add: stop_main_def stop_post_def note_exit_def start_failsafe_def execute_fuse_cmd_def
      timer_rearm_def timer_stamp_write_def fork_adopt_def park_def engine_friction_verdict_def fallback_up_def
      spawns_emit Let_def)

lemma spawns_fallback_down [simp]: "spawns (fallback_down env j e) = spawns e"
  by (simp add: fallback_down_def Let_def)

lemma spawns_active_kill [simp]: "spawns (active_kill_service env i e) = spawns e"
  by (simp add: active_kill_service_def Let_def spawns_emit split: option.split)

lemma spawns_play_card [simp]: "spawns (play_card env i e) = spawns e"
  by (simp add: play_card_def Let_def spawns_emit split: option.split)

lemma spawns_ready [simp]:
  "spawns (ready_lost env i e) = spawns e" "spawns (ready_watch env i e) = spawns e"
  "spawns (ready_poll env i e) = spawns e"
  by (simp_all add: ready_lost_def ready_watch_def ready_poll_def Let_def)

lemma spawns_fuse [simp]: "spawns (tick_fuse env i e) = spawns e"
  by (simp add: tick_fuse_def Let_def spawns_emit)

lemma spawns_ticks [simp]:
  "spawns (tick_full_trust env i e) = spawns e" "spawns (tick_recovery env i e) = spawns e"
  "spawns (tick_friction env i e) = spawns e" "spawns (tick_dormant env i e) = spawns e"
  "spawns (tick_fundamental env i e) = spawns e" "spawns (tick_perfect env i e) = spawns e"
  by (simp_all add: tick_full_trust_def tick_start_timeout_def tick_fork_wait_def tick_promote_def
      tick_recovery_def tick_friction_def tick_retry_def tick_dormant_def tick_fundamental_def tick_perfect_def
      Let_def split: option.split)

lemma listen_loop_no_spawn: "listen_open_loop env nm ls fds = Inl effs \<Longrightarrow> filter is_spawn effs = []"
  by (induction ls arbitrary: fds) (auto simp: Let_def filter_empty_conv split: if_splits)

lemma spawns_hold [simp]: "spawns (tick_hold env i e) = spawns e"
  using listen_loop_no_spawn
  by (auto simp: tick_hold_def service_listen_open_def spawns_emit Let_def split: prod.splits sum.splits)

lemma spawns_condition_skip [simp]: "spawns (condition_skip env why i e) = spawns e"
  by (simp add: condition_skip_def service_listen_close_def spawns_emit Let_def filter_empty_conv)

lemma weight_f8:
  "popcount (service_probe_f8 env s table AND F8_MASK) =
     (let (dep_ok, dep_stable) = probe_deps (take MAX_DEPS (dep_idx s)) table True in
      (if sys_exists env (svc_exec s) then 1 else 0) + (if sys_access_x env (svc_exec s) then 1 else 0)
      + (if dep_ok then 1 else 0) + (if dep_stable then 1 else 0)
      + (if 0 < free_mem_kb env then 1 else 0) + (if MEM_MIN_KB \<le> free_mem_kb env then 1 else 0)
      + (if \<not> has_flag s SVC_NEEDS_ROOT \<or> sys_euid env = 0 then 1 else 0) + 1)"
  unfolding service_probe_f8_def Let_def
  by (simp add: flag_or_simps popcount_or_disjoint popcount_flag_if popcount_numeral split: prod.split)

text \<open>Everything a start waits for.\<close>

definition may_spawn :: "sysenv \<Rightarrow> u8 list \<Rightarrow> nat \<Rightarrow> engine \<Rightarrow> bool" where
  "may_spawn env gs i e \<longleftrightarrow>
     (let s = sv e i in
      svc_state s = STATE_NEW_PROCESS \<and> failsafe_pid s \<le> 0 \<and> card_pid s \<le> 0 \<and> stop_pid s \<le> 0 \<and>
      \<not> svc_retry_held s (sys_mono env) \<and> (standby_up s \<or> \<not> service_is_standby i (services e)) \<and>
      \<not> (fallback_live s \<and> fallback_running e i) \<and> service_deps_ready s (services e) gs \<and>
      (wait_socket s = [] \<or> sys_socket_accepts env (wait_socket s)) \<and>
      (cond s = [] \<or> service_conditions_met env s = Inr ()) \<and> \<not> listen_hold s \<and>
      SHIFT_THRESHOLD_8 \<le> popcount (service_probe_f8 env s (services e) AND F8_MASK))"

definition listens :: "sysenv \<Rightarrow> service_t \<Rightarrow> bool" where
  "listens env s \<longleftrightarrow>
     listen s = [] \<or> listen_open s \<noteq> 0 \<or> (\<forall>sp\<in>set (listen s). 0 \<le> sys_listen_one env (svc_name s) sp)"

definition forks :: "sysenv \<Rightarrow> service_t \<Rightarrow> bool" where
  "forks env s \<longleftrightarrow>
     listens env s \<and> sys_pipe_ok env \<and> \<not> slot_refused env s \<and> 0 \<le> sys_fork env FkService (svc_name s)"

lemma listen_open_loop_iff:
  "(\<exists>r. listen_open_loop env nm ls fds = Inr r) \<longleftrightarrow> (\<forall>sp\<in>set ls. 0 \<le> sys_listen_one env nm sp)"
  by (induction ls arbitrary: fds) (auto simp: Let_def)

lemma service_listen_open_split:
  obtains s' effs where "service_listen_open env s = (s', effs, listens env s \<or> listen s = [])"
    "filter is_spawn effs = []" "svc_name s' = svc_name s" "allowed_slot_min s' = allowed_slot_min s"
    "allowed_slot_max s' = allowed_slot_max s"
proof (cases "listen_open s \<noteq> 0")
  case True
  then show thesis using that [of s "[]"] by (simp add: service_listen_open_def listens_def)
next
  case False
  show thesis
  proof (cases "listen_open_loop env (svc_name s) (listen s) []")
    case (Inl effs)
    then have "\<not> listens env s" "listen s \<noteq> []"
      using False listen_open_loop_iff [of env "svc_name s" "listen s" "[]"] by (auto simp: listens_def)
    then show thesis using that [of s effs] Inl False listen_loop_no_spawn [OF Inl]
      by (simp add: service_listen_open_def)
  next
    case (Inr fds)
    then have "listens env s"
      using listen_open_loop_iff [of env "svc_name s" "listen s" "[]"] by (auto simp: listens_def)
    then show thesis using that [of "s\<lparr>listen_fd := fds, listen_open := length (listen s)\<rparr>" "[]"] Inr False
      by (simp add: service_listen_open_def)
  qed
qed

lemma spawn_reset_sel [simp]:
  "listen (spawn_reset env s) = listen s" "listen_open (spawn_reset env s) = listen_open s"
  "svc_name (spawn_reset env s) = svc_name s" "allowed_slot_min (spawn_reset env s) = allowed_slot_min s"
  "allowed_slot_max (spawn_reset env s) = allowed_slot_max s"
  by (simp_all add: spawn_reset_def Let_def split: option.split)

lemma limits_no_spawn: "filter is_spawn (cgroup_apply_limits env s) = []"
  by (simp add: cgroup_apply_limits_def cgroup_limit_writes_def cgroup_partition_writes_def Let_def)

lemma assign_no_spawn: "cgroup_assign env s p = (s', effs) \<Longrightarrow> filter is_spawn effs = []"
  by (auto simp: cgroup_assign_def Let_def split: if_splits)

lemma forked_no_spawn: "spawn_forked env s p = (s', effs, ok) \<Longrightarrow> filter is_spawn effs = []"
  by (auto simp: spawn_forked_def Let_def limits_no_spawn dest: assign_no_spawn split: prod.splits if_splits)

lemma spawn_forks:
  "filter is_spawn (fst (snd (service_spawn env s))) =
     (if forks env s then [RunFork FkService (svc_name s) (sys_fork env FkService (svc_name s))] else [])"
proof -
  let ?s0 = "spawn_reset env s"
  obtain s1 e1 where l: "(if listen ?s0 \<noteq> [] then service_listen_open env ?s0 else (?s0, [], True)) = (s1, e1, listens env s)"
    and n: "filter is_spawn e1 = []" "svc_name s1 = svc_name s" "allowed_slot_min s1 = allowed_slot_min s"
      "allowed_slot_max s1 = allowed_slot_max s"
  proof (cases "listen s = []")
    case True
    then show thesis using that [of ?s0 "[]"] by (simp add: listens_def)
  next
    case False
    have "listens env ?s0 = listens env s" by (simp add: listens_def)
    then show thesis using False that by (rule_tac service_listen_open_split [of env ?s0]) auto
  qed
  have sl: "slot_refused env s1 = slot_refused env s" using n by (simp add: slot_refused_def)
  show ?thesis
    unfolding service_spawn_def Let_def l
    using n sl by (auto simp: forks_def forked_no_spawn split: prod.split)
qed

lemma probe_deps_cong:
  assumes "length t2 = length t1"
    "\<forall>k<length t1. svc_state (t2 ! k) = svc_state (t1 ! k) \<and> svc_flags (t2 ! k) = svc_flags (t1 ! k)"
  shows "probe_deps ds t2 b = probe_deps ds t1 b"
  using assms by (induction ds arbitrary: b) (auto simp: Let_def)

lemma probe_f8_sock:
  "i < nsvc e \<Longrightarrow> service_probe_f8 env ((sv e i)\<lparr>sock_waiting := w\<rparr>) ((services e)[i := (sv e i)\<lparr>sock_waiting := w\<rparr>])
     = service_probe_f8 env (sv e i) (services e)"
  using probe_deps_cong [of "(services e)[i := (sv e i)\<lparr>sock_waiting := w\<rparr>]" "services e"]
  by (simp add: service_probe_f8_def nth_upd)

definition fuse_trips :: "engine \<Rightarrow> nat \<Rightarrow> bool" where
  "fuse_trips e i \<longleftrightarrow> fuse (sv e i) \<and> svc_state (sv e i) \<noteq> STATE_EXCISED \<and> fuse_blown e (sv e i)"

lemma st_tick_fuse:
  assumes i: "i < nsvc e"
  shows "svc_state (sv (tick_fuse env i e) i) = (if fuse_trips e i then STATE_EXCISED else svc_state (sv e i))"
proof -
  have n: "nsvc (execute_fuse_cmd env i e) = nsvc e" "sv (execute_fuse_cmd env i e) i = sv e i"
    by (simp_all add: execute_fuse_cmd_def)
  show ?thesis
    using i n by (simp add: tick_fuse_def fuse_trips_def Let_def sv_at_same excise_for_def st_kill_tree)
qed

lemma tick_fuse_id: "\<not> fuse_trips e i \<Longrightarrow> tick_fuse env i e = e"
  by (auto simp: tick_fuse_def fuse_trips_def)

lemma tick_service_tripped:
  "i < nsvc e \<Longrightarrow> fuse_trips e i \<Longrightarrow> tick_service env gs i e = tick_fuse env i e"
  by (simp add: tick_service_def st_tick_fuse Let_def)

lemma forks_cong [simp]:
  "forks env (s\<lparr>inst := x\<rparr>) = forks env s" "forks env (s\<lparr>sock_waiting := w\<rparr>) = forks env s"
  by (simp_all add: forks_def listens_def slot_refused_def)

lemma spawns_tick_spawn:
  assumes i: "i < nsvc e" and st: "svc_state (sv e i) = STATE_NEW_PROCESS"
  shows "spawns (tick_spawn env i e) = spawns e @
    (if SHIFT_THRESHOLD_8 \<le> popcount (service_probe_f8 env (sv e i) (services e) AND F8_MASK) \<and> forks env (sv e i)
     then [RunFork FkService (svc_name (sv e i)) (sys_fork env FkService (svc_name (sv e i)))] else [])"
proof -
  let ?x = "schema_step (inst (sv e i)) (service_probe_f8 env (sv e i) (services e))"
  have s: "state ?x = (if SHIFT_THRESHOLD_8 \<le> popcount (service_probe_f8 env (sv e i) (services e) AND F8_MASK)
      then STATE_FULL_TRUST else STATE_RECOVERY)"
    using st by (simp add: schema_step_def Let_def)
  have f: "filter is_spawn effs = (if forks env (sv e i) then [RunFork FkService (svc_name (sv e i))
      (sys_fork env FkService (svc_name (sv e i)))] else [])"
    if "service_spawn env ((sv e i)\<lparr>inst := ?x\<rparr>) = (s', effs, ok)" for s' effs ok
    using spawn_forks [of env "(sv e i)\<lparr>inst := ?x\<rparr>"] that by simp
  show ?thesis
    unfolding tick_spawn_def Let_def
    using i s f by (simp add: sv_at_same spawns_emit split: prod.split)
qed


section \<open>Why a service is given up\<close>

text \<open>What killing a service's process, its cgroup and its stop commands leave alone.\<close>

definition core :: "service_t \<Rightarrow> schema_instance_t \<times> u32 \<times> bool \<times> excise_reason_t \<times> u8 \<times> string" where
  "core s = (inst s, svc_flags s, no_excise s, excise_reason s, dormant_count s, ready_path s)"

lemma coreD:
  assumes "core s = core t"
  shows "svc_state s = svc_state t" "has_flag s k = has_flag t k" "no_excise s = no_excise t"
    "excise_reason s = excise_reason t" "dormant_count s = dormant_count t" "ready_path s = ready_path t"
  using assms by (simp_all add: core_def)

lemma core_at:
  "i < nsvc e \<Longrightarrow> core (f (sv e i)) = core (sv e i) \<Longrightarrow> core (sv (at i f e) i) = core (sv e i)"
  by (simp add: sv_at_same)

lemma core_kill_tree: "i < nsvc e \<Longrightarrow> core (sv (kill_tree env i e) i) = core (sv e i)"
  by (erule sv_kill_tree [of i e env]) (simp add: core_def)

lemma core_stop_post: "i < nsvc e \<Longrightarrow> core (sv (stop_post env i e) i) = core (sv e i)"
  using services_stop_cmds_begin [of env 2 i e] by (auto simp: stop_post_def core_def)

lemma core_note_exit: "i < nsvc e \<Longrightarrow> core (sv (note_exit st i e) i) = core (sv e i)"
  by (simp add: note_exit_def Let_def sv_at_same core_def exit_record_def split: wait_status.split)

lemma core_start_failsafe: "i < nsvc e \<Longrightarrow> core (sv (start_failsafe env i e) i) = core (sv e i)"
  by (simp add: start_failsafe_def Let_def sv_at_same core_def)

lemma core_budget [simp]: "core (restart_budget_refresh env s) = core s"
  by (simp add: restart_budget_refresh_def core_def)

lemma core_upd [simp]:
  "core (s\<lparr>child_pid := p\<rparr>) = core s" "core (s\<lparr>fork_state := f\<rparr>) = core s"
  "core (s\<lparr>ready_path_verified := b\<rparr>) = core s" "core (s\<lparr>ready_watched := w\<rparr>) = core s"
  "core (s\<lparr>ready_check_ticks := c\<rparr>) = core s"
  by (simp_all add: core_def)

lemma nsvc_parts [simp]:
  "nsvc (note_exit st i e) = nsvc e" "nsvc (stop_post env i e) = nsvc e"
  using onlyD [OF only_note_exit [OF only_refl]] onlyD [OF only_stop_post [OF only_refl]] by blast+

lemma nsvc_active_kill [simp]: "nsvc (active_kill_service env i e) = nsvc e"
  using onlyD [OF only_active_kill [OF only_refl]] by blast

lemma core_active_kill: "i < nsvc e \<Longrightarrow> core (sv (active_kill_service env i e) i) = core (sv e i)"
proof -
  assume i: "i < nsvc e"
  have *: "core (sv (stop_post env i (kill_tree env i (at i (\<lambda>s. s\<lparr>child_pid := 0\<rparr>) (note_exit st i e')))) i)
      = core (sv e' i)" if "i < nsvc e'" for st e'
    using that by (simp add: core_stop_post core_kill_tree core_note_exit sv_at_same)
  show ?thesis using i by (simp add: active_kill_service_def Let_def * sv_at_same split: option.split)
qed

lemma st_ready_lost:
  assumes i: "i < nsvc e"
  shows "svc_state (sv (ready_lost env i e) i) = (if has_flag (sv e i) SVC_NO_RESTART then STATE_EXCISED else STATE_RECOVERY)"
    and "has_flag (sv e i) SVC_NO_RESTART \<Longrightarrow> excise_reason (sv (ready_lost env i e) i) = EXC_READINESS_LOST"
proof -
  have "core (sv (active_kill_service env i (log_svc i ev e)) i) = core (sv e i)" for ev
    using i by (simp add: core_active_kill)
  note c = coreD [OF this]
  show "svc_state (sv (ready_lost env i e) i) = (if has_flag (sv e i) SVC_NO_RESTART then STATE_EXCISED else STATE_RECOVERY)"
    "has_flag (sv e i) SVC_NO_RESTART \<Longrightarrow> excise_reason (sv (ready_lost env i e) i) = EXC_READINESS_LOST"
    using i by (simp_all add: ready_lost_def Let_def c sv_at_same excise_for_def)
qed

lemma find_index_fromD:
  "find_index_from P m xs = Some k \<Longrightarrow> m \<le> k \<and> k - m < length xs \<and> P (xs ! (k - m))"
proof (induction xs arbitrary: m)
  case (Cons x xs)
  show ?case
  proof (cases "P x")
    case False
    then have "find_index_from P (Suc m) xs = Some k" using Cons.prems by simp
    then have "Suc m \<le> k \<and> k - Suc m < length xs \<and> P (xs ! (k - Suc m))" by (rule Cons.IH)
    then show ?thesis by (simp add: nth_Cons', arith)
  qed (use Cons.prems in simp)
qed simp

lemma fallback_cards_other: "service_fallback_cards cs i table = Some j \<Longrightarrow> j \<noteq> i"
  by (induction cs) (auto dest: find_index_fromD split: if_splits option.splits)

lemma fallback_other: "service_fallback i table = Some j \<Longrightarrow> j \<noteq> i"
  by (simp add: service_fallback_def fallback_cards_other)

lemma sv_fallback_up: "j \<noteq> i \<Longrightarrow> sv (fallback_up j e) i = sv e i"
  by (simp add: fallback_up_def at_def)

lemma nsvc_fallback_up [simp]: "nsvc (fallback_up j e) = nsvc e"
  by (simp add: fallback_up_def)

lemma st_park: "i < nsvc e \<Longrightarrow> svc_state (sv (park env i e) i) = STATE_DORMANT"
  by (simp add: park_def Let_def sv_at_same)

lemma st_play_card:
  assumes "i < nsvc e"
  shows "svc_state (sv (play_card env i e) i) \<in> {svc_state (sv e i), STATE_DORMANT}"
proof (cases "service_fallback i (services e)")
  case None
  then show ?thesis using assms by (simp add: play_card_def Let_def sv_at_same)
next
  case (Some j)
  then show ?thesis using assms by (simp add: play_card_def Let_def sv_at_same st_park)
qed

lemma probe_never_zero: "service_probe_f8 env s table \<noteq> 0"
proof
  assume "service_probe_f8 env s table = 0"
  then have "popcount (service_probe_f8 env s table AND F8_MASK) = 0" by (simp add: popcount_def popcount_loop.simps)
  then show False by (simp add: weight_f8 Let_def split: prod.splits if_splits)
qed

lemma st_full_trust_step:
  "state x = STATE_FULL_TRUST \<Longrightarrow>
    state (schema_step x (service_probe_f8 env s table)) =
      (if service_probe_f8 env s table AND F8_MASK = F8_MASK then STATE_FUNDAMENTAL else STATE_FULL_TRUST)"
  using probe_never_zero [of env s table] by (simp add: schema_step_def Let_def)


text \<open>What each branch may give a service up for.\<close>

definition given_up_why :: "sysenv \<Rightarrow> nat \<Rightarrow> engine \<Rightarrow> excise_reason_t \<Rightarrow> bool" where
  "given_up_why env i e r =
     (let s = sv e i in
      case r of
        EXC_FUSE \<Rightarrow> fuse_trips e i
      | EXC_NONE \<Rightarrow> svc_state s = STATE_NEW_PROCESS \<and> \<not> standby_up s \<and> service_is_standby i (services e)
      | EXC_LISTEN_FAIL \<Rightarrow> svc_state s = STATE_NEW_PROCESS \<and> listen_hold s \<and> \<not> listens env s
      | EXC_START_TIMEOUT \<Rightarrow> svc_state s = STATE_FULL_TRUST \<and> start_timed_out env e s \<and>
          \<not> has_flag s SVC_CRITICAL \<and> \<not> no_excise s
      | EXC_BREAKER \<Rightarrow> svc_state s = STATE_FRICTION \<and> max_restarts s \<le> restart_count s \<and>
          4 \<le> dormant_count s \<and> \<not> has_flag s SVC_CRITICAL \<and> \<not> no_excise s
      | EXC_READINESS_LOST \<Rightarrow> svc_state s = STATE_FUNDAMENTAL \<and> has_flag s SVC_NO_RESTART \<and>
          ready_path s \<noteq> [] \<and> \<not> sys_exists env (ready_path s)
      | _ \<Rightarrow> False)"

abbreviation gone :: "engine \<Rightarrow> nat \<Rightarrow> bool" where
  "gone e i \<equiv> svc_state (sv e i) = STATE_EXCISED"

lemma gone_tick_full_trust:
  assumes i: "i < nsvc e" and st: "svc_state (sv e i) = STATE_FULL_TRUST" and g: "gone (tick_full_trust env i e) i"
  shows "given_up_why env i e (excise_reason (sv (tick_full_trust env i e) i))"
proof (cases "start_timed_out env e (sv e i)")
  case True
  define e1 where "e1 = start_failsafe env i (active_kill_service env i (log_svc i ''start-timeout'' e))"
  have "core (sv e1 i) = core (sv e i)" "i < nsvc e1"
    using i by (simp_all add: e1_def core_start_failsafe core_active_kill)
  note c = coreD [OF this(1)] this(2)
  have t: "tick_full_trust env i e = (if \<not> has_flag (sv e1 i) SVC_CRITICAL \<and> \<not> no_excise (sv e1 i)
      then log_svc i ''76-excised'' (at i (excise_for EXC_START_TIMEOUT) e1)
      else log_svc i ''timeout-recovery'' (at i (set_state STATE_RECOVERY) e1))"
    using True by (simp add: tick_full_trust_def tick_start_timeout_def Let_def e1_def)
  show ?thesis using g st True c unfolding t
    by (simp add: sv_at_same excise_for_def given_up_why_def split: if_splits)
next
  case False
  have "\<not> gone (tick_fork_wait env i e) i"
    using i st by (simp add: tick_fork_wait_def Let_def sv_at_same st_fork_adopt
        onlyD [OF only_fork_adopt [OF only_refl]])
  moreover have "\<not> gone (tick_promote env how i e) i" for how
    using i st by (simp add: tick_promote_def Let_def sv_at_same st_full_trust_step mark_boot_ready_def)
  ultimately show ?thesis using g st False
    by (simp add: tick_full_trust_def Let_def split: if_splits option.splits)
qed

lemma inst_spawn_forked: "spawn_forked env s p = (s', effs, ok) \<Longrightarrow> inst s' = inst s"
  by (auto simp: spawn_forked_def spawn_started_def Let_def dest: cgroup_assign_sel split: prod.splits if_splits)

lemma inst_spawn: "inst (fst (service_spawn env s)) = inst s"
proof -
  let ?s0 = "spawn_reset env s"
  obtain s1 e1 lok where l: "(if listen ?s0 \<noteq> [] then service_listen_open env ?s0 else (?s0, [], True)) = (s1, e1, lok)"
    by (rule prod_cases3)
  then have "inst s1 = inst s" by (auto dest: service_listen_open_sel split: if_splits)
  then show ?thesis unfolding service_spawn_def Let_def l
    by (auto dest: inst_spawn_forked split: prod.split)
qed

lemma gone_tick_spawn:
  assumes i: "i < nsvc e" and st: "svc_state (sv e i) = STATE_NEW_PROCESS"
  shows "\<not> gone (tick_spawn env i e) i"
proof -
  let ?x = "schema_step (inst (sv e i)) (service_probe_f8 env (sv e i) (services e))"
  have s: "state ?x = STATE_FULL_TRUST \<or> state ?x = STATE_RECOVERY"
    using st by (simp add: schema_step_def Let_def)
  have sp: "svc_state s' = state ?x" if "service_spawn env ((sv e i)\<lparr>inst := ?x\<rparr>) = (s', effs, ok)" for s' effs ok
    using inst_spawn [of env "(sv e i)\<lparr>inst := ?x\<rparr>"] that by simp
  show ?thesis
    unfolding tick_spawn_def Let_def
    using i s sp by (auto simp: sv_at_same split: prod.split)
qed

lemma gone_tick_hold:
  assumes i: "i < nsvc e" and g: "gone (tick_hold env i e) i" and h: "listen_hold (sv e i)"
  shows "excise_reason (sv (tick_hold env i e) i) = EXC_LISTEN_FAIL \<and> \<not> listens env (sv e i)"
proof (rule service_listen_open_split [of env "sv e i"])
  fix s' effs
  assume "service_listen_open env (sv e i) = (s', effs, listens env (sv e i) \<or> listen (sv e i) = [])"
  then show ?thesis using i g
    by (auto simp: tick_hold_def Let_def sv_at_same excise_for_def mark_boot_ready_def split: if_splits)
qed

lemma gone_tick_new:
  assumes i: "i < nsvc e" and st: "svc_state (sv e i) = STATE_NEW_PROCESS" and g: "gone (tick_new env gs i e) i"
  shows "given_up_why env i e (excise_reason (sv (tick_new env gs i e) i))"
proof (cases "\<not> (0 < failsafe_pid (sv e i) \<or> 0 < card_pid (sv e i) \<or> 0 < stop_pid (sv e i)) \<and>
    \<not> svc_retry_held (sv e i) (sys_mono env) \<and> \<not> standby_up (sv e i) \<and> service_is_standby i (services e)")
  case True
  then have "tick_new env gs i e = log_svc i ''standby'' (at i (\<lambda>s. excise_for EXC_NONE (add_flag SVC_NO_RESTART s)) e)"
    by (simp add: tick_new_def Let_def)
  then show ?thesis using i st True by (simp add: sv_at_same excise_for_def given_up_why_def)
next
  case False
  let ?e = "at i (\<lambda>s. s\<lparr>sock_waiting := False\<rparr>) e"
  have u: "sv ?e i = (sv e i)\<lparr>sock_waiting := False\<rparr>" "i < nsvc ?e" "svc_state (sv ?e i) = STATE_NEW_PROCESS"
    using i st by (simp_all add: sv_at_same)
  have "tick_new env gs i e = e \<or> tick_new env gs i e = log_svc i ''wait-socket'' (at i (\<lambda>s. s\<lparr>sock_waiting := True\<rparr>) e)
      \<or> tick_new env gs i e = tick_start env i ?e"
  proof (cases "0 < failsafe_pid (sv e i) \<or> 0 < card_pid (sv e i) \<or> 0 < stop_pid (sv e i) \<or> svc_retry_held (sv e i) (sys_mono env)")
    case True
    then show ?thesis by (auto simp: tick_new_def Let_def)
  next
    case f: False
    then have "\<not> (\<not> standby_up (sv e i) \<and> service_is_standby i (services e))" using False by simp
    then show ?thesis using f unfolding tick_new_def Let_def by auto
  qed
  then have t: "tick_new env gs i e = tick_start env i ?e"
    using g st i by (auto simp: sv_at_same)
  have ns: "\<not> gone (condition_skip env why i ?e) i" for why
    using u by (simp add: condition_skip_def service_listen_close_def Let_def sv_at_same st_timer_rearm mark_boot_ready_def)
  have ns2: "\<not> gone (tick_spawn env i ?e) i" by (rule gone_tick_spawn) (use u in simp_all)
  have "tick_start env i ?e = tick_hold env i ?e" "listen_hold (sv ?e i)"
    using g ns ns2 unfolding t tick_start_def by (auto split: if_splits sum.splits)
  with gone_tick_hold [of i ?e env] g u
  show ?thesis unfolding t by (simp add: given_up_why_def st listens_def)
qed

lemma gone_tick_retry:
  assumes "i < nsvc e"
  shows "\<not> gone (tick_retry env ev i e) i"
proof -
  define e1 where "e1 = log_svc i ev
      (at i (\<lambda>s. svc_hold_retry ((set_state STATE_NEW_PROCESS s)\<lparr>restart_count := restart_count s + 1\<rparr>)
                        (sys_mono env)) e)"
  define e2 where "e2 = (if 0 < restart_sec (sv e1 i) then log_svc i ''restart-hold'' e1 else e1)"
  have "svc_state (sv e1 i) = STATE_NEW_PROCESS" "i < nsvc e1"
    using assms by (simp_all add: e1_def sv_at_same svc_hold_retry_def)
  then have "svc_state (sv e2 i) = STATE_NEW_PROCESS" "i < nsvc e2" by (simp_all add: e2_def)
  then show ?thesis using st_play_card [of i e2 env]
    unfolding tick_retry_def Let_def e1_def [symmetric] e2_def [symmetric] by auto
qed

lemma schema_step_recovery:
  "state x = STATE_RECOVERY \<Longrightarrow> state (schema_step x fl) = STATE_SETTLED \<or> state (schema_step x fl) = STATE_FRICTION"
  by (simp add: schema_step_def Let_def)

lemma gone_tick_recovery:
  assumes "i < nsvc e" "svc_state (sv e i) = STATE_RECOVERY"
  shows "\<not> gone (tick_recovery env i e) i"
proof -
  define e1 where "e1 = at i (\<lambda>s. s\<lparr>inst := schema_step (inst s) (service_probe_f9 env i (services e))\<rparr>) e"
  have "svc_state (sv e1 i) = STATE_SETTLED \<or> svc_state (sv e1 i) = STATE_FRICTION" "i < nsvc e1"
    using assms schema_step_recovery [of "inst (sv e i)"] by (auto simp: e1_def sv_at_same)
  then show ?thesis unfolding tick_recovery_def Let_def e1_def [symmetric]
    by (auto simp: gone_tick_retry)
qed

lemma gone_tick_friction:
  assumes i: "i < nsvc e" and st: "svc_state (sv e i) = STATE_FRICTION" and g: "gone (tick_friction env i e) i"
  shows "given_up_why env i e (excise_reason (sv (tick_friction env i e) i))"
proof -
  define e1 where "e1 = at i (\<lambda>s. s\<lparr>inst := schema_step (inst s) (service_probe_f6 env s)\<rparr>) e"
  define e2 where "e2 = engine_friction_verdict env i (kill_tree env i e1)"
  have s1: "svc_state (sv e1 i) = (if restart_count (sv e i) < max_restarts (sv e i) then STATE_RECOVERY else STATE_EXCISED)"
    "i < nsvc e1" using i st by (simp_all add: e1_def sv_at_same friction_step)
  have r: "\<not> restart_count (sv e i) < max_restarts (sv e i)"
    using g s1 gone_tick_retry [of i e1 env] unfolding tick_friction_def Let_def e1_def [symmetric] by auto
  have c: "core (sv (kill_tree env i e1) i) = core (sv e1 i)" using s1 by (simp add: core_kill_tree)
  note d = coreD [OF c]
  have f1: "has_flag (sv e1 i) k = has_flag (sv e i) k" "no_excise (sv e1 i) = no_excise (sv e i)"
    "dormant_count (sv e1 i) = dormant_count (sv e i)" for k
    using i by (simp_all add: e1_def sv_at_same)
  let ?trip = "\<not> has_flag (sv e i) SVC_CRITICAL \<and> \<not> no_excise (sv e i) \<and> 4 \<le> dormant_count (sv e i)"
  have "svc_state (sv e2 i) = (if ?trip then STATE_EXCISED else STATE_DORMANT)"
      "?trip \<longrightarrow> excise_reason (sv e2 i) = EXC_BREAKER"
    using s1 r by (simp_all add: e2_def engine_friction_verdict_def Let_def d f1 sv_at_same st_park)
  moreover have "sv (tick_friction env i e) i = sv e2 i"
    using s1 r fallback_other unfolding tick_friction_def Let_def e1_def [symmetric] e2_def [symmetric]
    by (auto simp: sv_fallback_up split: option.split)
  ultimately show ?thesis using g st r by (auto simp: given_up_why_def split: if_splits)
qed

definition insts :: "engine \<Rightarrow> schema_instance_t list" where
  "insts e = map inst (services e)"

lemma insts_at: "i < nsvc e \<Longrightarrow> inst (f (sv e i)) = inst (sv e i) \<Longrightarrow> insts (at i f e) = insts e"
  by (simp add: insts_def services_at map_update list_update_same_conv)

lemma insts_log [simp]: "insts (log_svc i ev e) = insts e" "insts (emit es e) = insts e"
  by (simp_all add: insts_def)

lemma insts_stop_main_tail [simp]: "insts (stop_main_tail env i e) = insts e"
proof -
  obtain e' b where eb: "stop_cmds_begin env 1 i e = (e', b)" by (cases "stop_cmds_begin env 1 i e")
  then have "insts e' = insts e"
    using services_stop_cmds_begin [of env 1 i e]
    by (cases "i < nsvc e") (auto simp: insts_def map_update list_update_same_conv list_update_beyond)
  then show ?thesis using eb by (simp add: stop_main_tail_def)
qed

lemma insts_bind_stop_mark: "j < nsvc e \<Longrightarrow> insts (bind_stop_mark j ev e) = insts e"
  by (simp add: bind_stop_mark_def bind_hold_def Let_def insts_at)

lemma insts_binders_loop: "insts (binders_loop env js i e) = insts e"
  by (induction env js i e rule: binders_loop.induct) (simp_all add: binders_loop.simps(2) insts_bind_stop_mark)

lemma insts_stop_main [simp]: "insts (stop_main env i e) = insts e"
  by (simp add: stop_main_def insts_binders_loop)

lemma insts_nth: "i < nsvc e \<Longrightarrow> insts e ! i = inst (sv e i)" "length (insts e) = nsvc e"
  by (simp_all add: insts_def)

lemma nsvc_stop_main [simp]: "nsvc (stop_main env i e) = nsvc e"
  using insts_nth(2) insts_stop_main by metis

lemma inst_stop_main: "i < nsvc e \<Longrightarrow> inst (sv (stop_main env j e) i) = inst (sv e i)"
  using insts_nth(1) [of i e] insts_nth(1) [of i "stop_main env j e"] by simp

lemma inst_fallback_down:
  assumes "j \<noteq> i" "i < nsvc e"
  shows "inst (sv (fallback_down env j e) i) = inst (sv e i)" "nsvc (fallback_down env j e) = nsvc e"
  using assms by (simp_all add: fallback_down_def Let_def inst_stop_main) (simp_all add: at_def)

lemma gone_tick_dormant:
  assumes i: "i < nsvc e" and st: "svc_state (sv e i) = STATE_DORMANT"
  shows "\<not> gone (tick_dormant env i e) i"
proof -
  define e1 where "e1 = log_svc i ''dormant-wake''
      (at i (\<lambda>s. (set_state STATE_NEW_PROCESS s)\<lparr>restart_count := restart_count s + 1\<rparr>) e)"
  define e2 where "e2 = (if fallback_live (sv e1 i)
      then (case service_fallback i (services e1) of Some j \<Rightarrow> fallback_down env j e1 | None \<Rightarrow> e1) else e1)"
  have "svc_state (sv e1 i) = STATE_NEW_PROCESS" "i < nsvc e1" using i by (simp_all add: e1_def sv_at_same)
  then have "svc_state (sv e2 i) = STATE_NEW_PROCESS" "i < nsvc e2"
    using inst_fallback_down [of _ i e1 env] fallback_other by (auto simp: e2_def split: option.split)
  then have "\<not> gone (play_card env i e2) i" using st_play_card [of i e2 env] by auto
  then show ?thesis using st unfolding tick_dormant_def Let_def e1_def [symmetric] e2_def [symmetric] by simp
qed

lemma gone_ready_lost:
  assumes "i < nsvc e" "gone (ready_lost env i e) i"
  shows "has_flag (sv e i) SVC_NO_RESTART \<and> excise_reason (sv (ready_lost env i e) i) = EXC_READINESS_LOST"
  using st_ready_lost [OF assms(1), of env] assms(2) by (auto split: if_splits)

lemma gone_ready_poll:
  assumes i: "i < nsvc e" and st: "svc_state (sv e i) = STATE_FUNDAMENTAL" and g: "gone (ready_poll env i e) i"
  shows "\<not> sys_exists env (ready_path (sv e i)) \<and> has_flag (sv e i) SVC_NO_RESTART \<and>
    excise_reason (sv (ready_poll env i e) i) = EXC_READINESS_LOST"
proof -
  let ?e = "at i (\<lambda>s. s\<lparr>ready_check_ticks := 0\<rparr>) e"
  have "(ready_poll env i e = ready_lost env i e \<or> ready_poll env i e = ready_lost env i ?e) \<and>
      \<not> sys_exists env (ready_path (sv e i))"
    using g st i unfolding ready_poll_def Let_def by (auto simp: sv_at_same split: if_splits)
  then show ?thesis using g i gone_ready_lost [of i e env] gone_ready_lost [of i ?e env]
    by (auto simp: sv_at_same)
qed

lemma ready_watch_cases:
  obtains w where "ready_watch env i e = at i (\<lambda>s. s\<lparr>ready_watched := w\<rparr>) e"
  | w where "ready_watch env i e = ready_lost env i (at i (\<lambda>s. s\<lparr>ready_watched := w\<rparr>) e)"
      "\<not> sys_exists env (ready_path (sv e i))"
  unfolding ready_watch_def Let_def by metis

lemma gone_tick_fundamental:
  assumes i: "i < nsvc e" and st: "svc_state (sv e i) = STATE_FUNDAMENTAL" and g: "gone (tick_fundamental env i e) i"
  shows "given_up_why env i e (excise_reason (sv (tick_fundamental env i e) i))"
proof -
  let ?s = "sv e i"
  define e1 where "e1 = (if \<not> ready_path_verified ?s \<and> ready_path_fresh env ?s
                   then at i (\<lambda>s. s\<lparr>ready_path_verified := True\<rparr>) e else e)"
  define e2 where "e2 = (if ready_path_verified (sv e1 i) \<and> ready_watched (sv e1 i) = 0
                   then ready_watch env i e1 else e1)"
  have c1: "core (sv e1 i) = core ?s" "i < nsvc e1" using i by (simp_all add: e1_def sv_at_same)
  have lost: "has_flag ?s SVC_NO_RESTART \<and> excise_reason (sv (ready_lost env i e') i) = EXC_READINESS_LOST"
    if "core (sv e' i) = core ?s" "i < nsvc e'" "gone (ready_lost env i e') i" for e'
    using gone_ready_lost [OF that(2,3)] coreD [OF that(1)] by simp
  have run: "ready_path ?s \<noteq> []" "tick_fundamental env i e =
      (if svc_state (sv e2 i) \<noteq> STATE_FUNDAMENTAL then e2 else ready_poll env i e2)"
    using g st unfolding tick_fundamental_def Let_def e1_def [symmetric] e2_def [symmetric]
    by (auto split: if_splits)
  note d1 = coreD [OF c1(1)]
  have kept: ?thesis if "core (sv e2 i) = core ?s" "i < nsvc e2"
  proof -
    note d2 = coreD [OF that(1)]
    have "tick_fundamental env i e = ready_poll env i e2" using run(2) d2 st by simp
    then show ?thesis using gone_ready_poll [of i e2 env] that(2) g d2 st run(1)
      by (simp add: given_up_why_def)
  qed
  show ?thesis
  proof (cases "e2 = e1")
    case True
    then show ?thesis using c1 kept by simp
  next
    case False
    then have w: "e2 = ready_watch env i e1" by (simp add: e2_def split: if_splits)
    show ?thesis
    proof (rule ready_watch_cases [of env i e1])
      fix w0
      assume "ready_watch env i e1 = at i (\<lambda>s. s\<lparr>ready_watched := w0\<rparr>) e1"
      then show ?thesis using c1 w kept by (simp add: sv_at_same)
    next
      fix w0
      let ?e = "at i (\<lambda>s. s\<lparr>ready_watched := w0\<rparr>) e1"
      assume l: "ready_watch env i e1 = ready_lost env i ?e" "\<not> sys_exists env (ready_path (sv e1 i))"
      have n: "i < nsvc ?e" "core (sv ?e i) = core ?s" using c1 by (simp_all add: sv_at_same)
      have "tick_fundamental env i e = ready_lost env i ?e"
        using run(2) w l st_ready_lost(1) [OF n(1), of env] by simp
      then show ?thesis using lost [OF n(2,1)] g run(1) st l d1
        by (simp add: given_up_why_def)
    qed
  qed
qed

lemma gone_tick_perfect:
  assumes i: "i < nsvc e" and st: "svc_state (sv e i) = STATE_PERFECT"
  shows "\<not> gone (tick_perfect env i e) i"
  using assms by (simp add: tick_perfect_def sv_at_same)





lemma fallback_none: "cards (table ! me) = [] \<Longrightarrow> service_fallback me table = None"
  by (simp add: service_fallback_def)

lemma play_card_none: "cards (sv e i) = [] \<Longrightarrow> play_card env i e = e"
  by (simp add: play_card_def Let_def)

lemma tick_recovery_plain:
  assumes "i < nsvc e" "svc_state (sv e i) = STATE_RECOVERY" "cards (sv e i) = []" "\<not> fuse (sv e i)"
  shows "\<exists>x. state x = STATE_FRICTION \<and> services (tick_service env gs i e) = (services e)[i := (sv e i)\<lparr>inst := x\<rparr>]"
proof -
  let ?x = "schema_step (inst (sv e i)) (service_probe_f9 env i (services e))"
  have x: "state ?x = STATE_FRICTION"
    using assms by (simp add: recovery_step fallback_none)
  have "\<not> fuse_trips e i" using assms by (simp add: fuse_trips_def)
  then have "tick_service env gs i e = tick_recovery env i e"
    using assms by (simp add: tick_service_def tick_fuse_id Let_def)
  then have "services (tick_service env gs i e) = (services e)[i := (sv e i)\<lparr>inst := ?x\<rparr>]"
    using assms x by (simp add: tick_recovery_def Let_def services_at sv_at_same)
  then show ?thesis using x by blast
qed

lemma tick_friction_plain:
  assumes i: "i < nsvc e" and st: "svc_state (sv e i) = STATE_FRICTION"
    and s: "cards (sv e i) = []" "\<not> fuse (sv e i)" "restart_count (sv e i) < max_restarts (sv e i)"
  shows "\<exists>x. state x = STATE_NEW_PROCESS \<and> sv (tick_service env gs i e) i =
    svc_hold_retry ((sv e i)\<lparr>inst := x, restart_count := restart_count (sv e i) + 1\<rparr>) (sys_mono env)"
proof -
  let ?x = "schema_step (inst (sv e i)) (service_probe_f6 env (sv e i))"
  have x: "state ?x = STATE_RECOVERY" using st s by (simp add: friction_step)
  have "\<not> fuse_trips e i" using s by (simp add: fuse_trips_def)
  then have t: "tick_service env gs i e = tick_friction env i e"
    using st by (simp add: tick_service_def tick_fuse_id Let_def)
  have h: "cards (svc_hold_retry s' n) = cards s'" for s' n by (simp add: svc_hold_retry_def)
  have "sv (tick_service env gs i e) i =
      svc_hold_retry ((sv e i)\<lparr>inst := ?x\<lparr>state := STATE_NEW_PROCESS\<rparr>, restart_count := restart_count (sv e i) + 1\<rparr>) (sys_mono env)"
    unfolding t using i x s
    by (simp add: tick_friction_def tick_retry_def Let_def sv_at_same play_card_none h set_state_def)
  then show ?thesis by (intro exI [of _ "?x\<lparr>state := STATE_NEW_PROCESS\<rparr>"]) simp
qed



end
