(* ===== verification/SI_Shutdown.thy ===== *)
theory SI_Shutdown
  imports SI_Tick
begin

text \<open>
  Ordered shutdown (\<^verbatim>\<open>shutdown_ordered\<close> of \<^verbatim>\<open>engine.c\<close>): services are stopped in reverse dependency
  order, \<^verbatim>\<open>stop_first\<close> ones before all others, each with its stop commands and a grace before its
  cgroup is killed. The arrays the function indexes by service are one list of records, \<^verbatim>\<open>shut_slot\<close>;
  its other locals are \<^verbatim>\<open>shut_t\<close>. The loop takes the answers of the kernel for each of its rounds: the
  children \<^verbatim>\<open>waitpid\<close> hands out and the environment of the round, whose clock is read once. Times are
  milliseconds of a clock that only rises, so that the unsigned differences of the code do not wrap.
\<close>

abbreviation (input) SHUT_TOTAL_MS :: int where "SHUT_TOTAL_MS \<equiv> 12000"
abbreviation (input) SHUT_SLOW_MS :: int where "SHUT_SLOW_MS \<equiv> 250"

record shut_slot =
  term_at :: int
  stop_at :: int
  post_at :: int
  sh_alive :: bool
  sh_killed :: bool
  sh_gone :: bool
  was_up :: bool

record shut_t =
  sh_start :: int
  sh_slots :: "shut_slot list"
  sh_round :: int
  sh_held :: bool
  sh_first :: bool

definition ts_ms :: "timespec \<Rightarrow> int" where
  "ts_ms t = tv_sec t * 1000 + tv_nsec t div 1000000"

definition monotonic_ms :: "sysenv \<Rightarrow> int" where
  "monotonic_ms env = ts_ms (sys_mono env)"

section \<open>Dependents, processes and the reaper\<close>

fun shut_deps_loop :: "group_t list \<Rightarrow> int \<Rightarrow> (string \<times> int \<times> int) list \<Rightarrow> bool" where
  "shut_deps_loop grps tgt [] = False"
| "shut_deps_loop grps tgt ((nm, di, gi) # ds) =
     (if nm = [] then False
      else di = tgt \<or>
           (0 \<le> gi \<and> tgt \<in> set (take (grp_member_count (grps ! nat gi)) (grp_member_idx (grps ! nat gi)))) \<or>
           shut_deps_loop grps tgt ds)"

definition shut_depends_on :: "group_t list \<Rightarrow> service_t \<Rightarrow> nat \<Rightarrow> bool" where
  "shut_depends_on grps s tgt = shut_deps_loop grps (int tgt) (take MAX_DEPS (dep_slots s))"

text \<open>The \<^verbatim>\<open>fscanf("%d")\<close> loop over \<^verbatim>\<open>cgroup.procs\<close>; it ends at the first text that is no number.\<close>

function scan_pids :: "string \<Rightarrow> int list" where
  "scan_pids t = (case strtol t of (v, r) \<Rightarrow> if length r < length t then c_int v # scan_pids r else [])"
  by pat_completeness auto
termination
  by (relation "measure length") auto

declare scan_pids.simps [simp del]

definition svc_targets :: "sysenv \<Rightarrow> service_t \<Rightarrow> int list" where
  "svc_targets env s =
     (if 0 < child_pid s then [child_pid s] else []) @
     (if cgroup_path s = [] then []
      else case sys_file env (cgroup_path s @ ''/cgroup.procs'') of
          None \<Rightarrow> []
        | Some t \<Rightarrow> filter (\<lambda>p. 1 < p \<and> p \<noteq> child_pid s) (scan_pids t))"

text \<open>With signal 0 only the count is of interest; \<^verbatim>\<open>kill\<close> succeeds on the processes that exist.\<close>

definition svc_signal_all :: "sysenv \<Rightarrow> service_t \<Rightarrow> int \<Rightarrow> effect list \<times> nat" where
  "svc_signal_all env s sig =
     ((if sig = 0 then [] else map (\<lambda>p. Kill p sig) (svc_targets env s)),
      length (filter (sys_alive env) (svc_targets env s)))"

definition shut_reap_one :: "int \<Rightarrow> engine \<Rightarrow> engine" where
  "shut_reap_one p e =
     (case first_index (\<lambda>s. stop_pid s = p \<or> child_pid s = p) (services e) of
        None \<Rightarrow> e
      | Some i \<Rightarrow> at i (\<lambda>s. if stop_pid s = p then s\<lparr>stop_pid := 0, stop_phase := 0\<rparr> else s\<lparr>child_pid := 0\<rparr>) e)"

definition shut_reap :: "(int \<Rightarrow> bool) \<Rightarrow> int list \<Rightarrow> engine \<Rightarrow> engine" where
  "shut_reap claimed ps e = fold (\<lambda>p e. if claimed p then e else shut_reap_one p e) ps e"

section \<open>One round\<close>

definition slot_at :: "nat \<Rightarrow> (shut_slot \<Rightarrow> shut_slot) \<Rightarrow> shut_t \<Rightarrow> shut_t" where
  "slot_at i f st = st\<lparr>sh_slots := (sh_slots st)[i := f (sh_slots st ! i)]\<rparr>"

abbreviation slot :: "shut_t \<Rightarrow> nat \<Rightarrow> shut_slot" where
  "slot st i \<equiv> sh_slots st ! i"

definition shut_log :: "string \<Rightarrow> engine \<Rightarrow> engine" where
  "shut_log m e = emit [Warn m] e"

text \<open>\<^verbatim>\<open>exec_stop_post\<close> once a service that was up is gone; a stop runner still going is waited for, then
  killed and given a second for the reap.\<close>

definition shut_post :: "sysenv \<Rightarrow> int \<Rightarrow> nat \<Rightarrow> shut_t \<times> engine \<Rightarrow> shut_t \<times> engine" where
  "shut_post env now i = (\<lambda>(st, e).
     (let s = sv e i; b = slot st i in
      if \<not> sh_alive b \<and> was_up b \<and> post_at b = 0 then
        if 0 < stop_pid s then
          (let ran = now - ts_ms (stop_start s) in
           (slot_at i (\<lambda>b. b\<lparr>sh_alive := \<not> sh_killed b \<and> ran < stop_grace_ms s + 1000\<rparr>) st,
            if stop_grace_ms s \<le> ran then emit (kill_group (stop_pid s)) e else e))
        else case stop_cmds_begin env 2 i e of
            (e', started) \<Rightarrow> (if started then slot_at i (\<lambda>b. b\<lparr>post_at := now\<rparr>) st else st, e')
      else (st, e)))"

definition shut_post_wait :: "int \<Rightarrow> nat \<Rightarrow> shut_t \<times> engine \<Rightarrow> shut_t \<times> engine" where
  "shut_post_wait now i = (\<lambda>(st, e).
     (let s = sv e i; b = slot st i in
      if post_at b \<noteq> 0 \<and> 0 < stop_pid s then
        if now - post_at b < stop_grace_ms s then (slot_at i (\<lambda>b. b\<lparr>sh_alive := True\<rparr>) st, e)
        else (st, emit (kill_group (stop_pid s)) e)
      else (st, e)))"

definition shut_gone :: "int \<Rightarrow> nat \<Rightarrow> shut_t \<times> engine \<Rightarrow> shut_t \<times> engine" where
  "shut_gone now i = (\<lambda>(st, e).
     (let b = slot st i in
      if \<not> sh_alive b \<and> term_at b \<noteq> 0 \<and> \<not> sh_killed b \<and> \<not> sh_gone b then
        (slot_at i (\<lambda>b. b\<lparr>sh_gone := True\<rparr>) st,
         if SHUT_SLOW_MS \<le> now - term_at b
         then shut_log (svc_name (sv e i) @ '' down at +'' @ show_int (now - sh_start st) @ '' ms ('' @
                        show_int (now - term_at b) @ '' ms after SIGTERM)'') e
         else e)
      else (st, e)))"

definition shut_look :: "sysenv \<Rightarrow> nat \<Rightarrow> shut_t \<times> engine \<Rightarrow> shut_t \<times> engine" where
  "shut_look env i = (\<lambda>(st, e).
     (let a = (\<not> sh_killed (slot st i) \<and> 0 < snd (svc_signal_all env (sv e i) 0))
      in (slot_at i (\<lambda>b. b\<lparr>sh_alive := a, was_up := (if sh_first st then a else was_up b)\<rparr>) st, e)))"

definition shut_survey_one :: "sysenv \<Rightarrow> nat \<Rightarrow> shut_t \<times> engine \<Rightarrow> shut_t \<times> engine" where
  "shut_survey_one env i x =
     shut_gone (monotonic_ms env) i
       (shut_post_wait (monotonic_ms env) i (shut_post env (monotonic_ms env) i (shut_look env i x)))"

definition shut_survey :: "sysenv \<Rightarrow> shut_t \<times> engine \<Rightarrow> shut_t \<times> engine" where
  "shut_survey env x = fold (shut_survey_one env) [0..<nsvc (snd x)] x"

definition shut_left :: "shut_t \<Rightarrow> bool" where
  "shut_left st \<longleftrightarrow> (\<exists>b \<in> set (sh_slots st). sh_alive b)"

definition shut_hold :: "shut_t \<Rightarrow> engine \<Rightarrow> bool" where
  "shut_hold st e \<longleftrightarrow> (\<exists>i \<in> set [0..<nsvc e]. sh_alive (slot st i) \<and> has_flag (sv e i) SVC_STOP_FIRST)"

definition shut_set_hold :: "sysenv \<Rightarrow> shut_t \<times> engine \<Rightarrow> shut_t \<times> engine" where
  "shut_set_hold env = (\<lambda>(st, e).
     (let now = monotonic_ms env; hold = shut_hold st e in
      if sh_held st \<and> \<not> hold
      then (st\<lparr>sh_start := now, sh_held := hold\<rparr>,
            shut_log (''stop_first services down in '' @ show_int (now - sh_start st) @ '' ms'') e)
      else (st\<lparr>sh_held := hold\<rparr>, e)))"

definition shut_blocked :: "int \<Rightarrow> shut_t \<Rightarrow> engine \<Rightarrow> nat \<Rightarrow> bool" where
  "shut_blocked now st e i \<longleftrightarrow>
     now - sh_start st < SHUT_TOTAL_MS \<and>
     (\<exists>j \<in> set [0..<nsvc e]. j \<noteq> i \<and> sh_alive (slot st j) \<and> shut_depends_on (groups e) (sv e j) i)"

definition shut_kill :: "sysenv \<Rightarrow> nat \<Rightarrow> engine \<Rightarrow> engine" where
  "shut_kill env i e =
     (let e1 = kill_tree env i (shut_log (svc_name (sv e i) @ '' ignored SIGTERM for '' @
                 show_int (stop_grace_ms (sv e i)) @ '' ms, killing'') e)
      in if 0 < child_pid (sv e1 i) then emit [Kill (child_pid (sv e1 i)) SIGKILL] e1 else e1)"

text \<open>The names of the services signalled in the round, \<^verbatim>\<open>msg\<close> with its 319 characters.\<close>

type_synonym shut_line = "string option"

definition shut_term :: "sysenv \<Rightarrow> nat \<Rightarrow> shut_t \<times> engine \<times> shut_line \<Rightarrow> shut_t \<times> engine \<times> shut_line" where
  "shut_term env i = (\<lambda>(st, e, line).
     (let now = monotonic_ms env;
          round = (if line = None then sh_round st + 1 else sh_round st);
          m = (case line of None \<Rightarrow> ''stop '' @ show_int round @ '' (+'' @ show_int (now - sh_start st) @ '' ms):''
                          | Some m \<Rightarrow> m)
      in ((slot_at i (\<lambda>b. b\<lparr>term_at := now\<rparr>) st)\<lparr>sh_round := round\<rparr>,
          emit (fst (svc_signal_all env (sv e i) SIGTERM)) e,
          Some (take 319 (m @ '' '' @ svc_name (sv e i))))))"

text \<open>The last steps of the round for a service whose turn has come: \<^verbatim>\<open>exec_stop\<close>, then SIGTERM.\<close>

definition shut_stop_cmds :: "sysenv \<Rightarrow> nat \<Rightarrow> shut_t \<Rightarrow> engine \<Rightarrow> engine \<times> bool" where
  "shut_stop_cmds env i st e =
     (if stop_at (slot st i) \<noteq> 0 then (e, False)
      else if 0 < stop_pid (sv e i) then (e, True)
      else if exec_stop (sv e i) = [] then (e, False)
      else stop_cmds_begin env 1 i e)"

definition shut_turn :: "sysenv \<Rightarrow> nat \<Rightarrow> shut_t \<times> engine \<times> shut_line \<Rightarrow> shut_t \<times> engine \<times> shut_line" where
  "shut_turn env i = (\<lambda>(st, e, line).
     (let now = monotonic_ms env in
      case shut_stop_cmds env i st e of
        (e1, True) \<Rightarrow> (slot_at i (\<lambda>b. b\<lparr>stop_at := now\<rparr>) st, e1, line)
      | (e1, False) \<Rightarrow>
          if stop_at (slot st i) \<noteq> 0 \<and> 0 < stop_pid (sv e1 i) then
            if now - stop_at (slot st i) < stop_grace_ms (sv e1 i) then (st, e1, line)
            else shut_term env i (st, emit (kill_group (stop_pid (sv e1 i))) e1, line)
          else shut_term env i (st, e1, line)))"

definition shut_stop_one :: "sysenv \<Rightarrow> nat \<Rightarrow> shut_t \<times> engine \<times> shut_line \<Rightarrow> shut_t \<times> engine \<times> shut_line" where
  "shut_stop_one env i = (\<lambda>(st, e, line).
     (let now = monotonic_ms env; b = slot st i in
      if \<not> sh_alive b then (st, e, line)
      else if term_at b \<noteq> 0 then
        if now - term_at b < stop_grace_ms (sv e i) then (st, e, line)
        else (slot_at i (\<lambda>b. b\<lparr>sh_killed := True\<rparr>) st, shut_kill env i e, line)
      else if sh_held st \<and> \<not> has_flag (sv e i) SVC_STOP_FIRST then (st, e, line)
      else if shut_blocked now st e i then (st, e, line)
      else shut_turn env i (st, e, line)))"

definition shut_stop :: "sysenv \<Rightarrow> shut_t \<times> engine \<Rightarrow> shut_t \<times> engine" where
  "shut_stop env = (\<lambda>(st, e).
     (case fold (shut_stop_one env) [0..<nsvc e] (st, e, None) of
        (st', e', line) \<Rightarrow>
          (st'\<lparr>sh_first := False\<rparr>, case line of None \<Rightarrow> e' | Some m \<Rightarrow> shut_log m e')))"

section \<open>The loop\<close>

type_synonym shut_answers = "nat \<Rightarrow> sysenv \<times> int list"

definition shut_begin :: "(int \<Rightarrow> bool) \<Rightarrow> sysenv \<times> int list \<Rightarrow> shut_t \<times> engine \<Rightarrow> shut_t \<times> engine" where
  "shut_begin claimed w = (\<lambda>(st, e). shut_survey (fst w) (st, shut_reap claimed (snd w) e))"

definition shut_rest :: "sysenv \<Rightarrow> shut_t \<times> engine \<Rightarrow> shut_t \<times> engine" where
  "shut_rest env x = shut_stop env (shut_set_hold env x)"

partial_function (option) shut_loop ::
  "(int \<Rightarrow> bool) \<Rightarrow> shut_answers \<Rightarrow> nat \<Rightarrow> shut_t \<times> engine \<Rightarrow> (shut_t \<times> engine) option" where
  "shut_loop claimed w k x =
     (let y = shut_begin claimed (w k) x
      in if \<not> shut_left (fst y)
         then Some (fst y, shut_log (''services down in '' @
                show_int (monotonic_ms (fst (w k)) - sh_start (fst y)) @ '' ms'') (snd y))
         else shut_loop claimed w (Suc k) (shut_rest (fst (w k)) y))"

declare shut_loop.simps [code]

definition slot_init :: shut_slot where
  "slot_init = \<lparr>term_at = 0, stop_at = 0, post_at = 0, sh_alive = False, sh_killed = False,
                sh_gone = False, was_up = False\<rparr>"

definition shut_init :: "sysenv \<Rightarrow> engine \<Rightarrow> shut_t" where
  "shut_init env e =
     \<lparr>sh_start = monotonic_ms env, sh_slots = replicate (nsvc e) slot_init, sh_round = 0,
      sh_held = False, sh_first = True\<rparr>"

definition shutdown_ordered ::
  "(int \<Rightarrow> bool) \<Rightarrow> shut_answers \<Rightarrow> engine \<Rightarrow> (shut_t \<times> engine) option" where
  "shutdown_ordered claimed w e = shut_loop claimed w 0 (shut_init (fst (w 0)) e, e)"

section \<open>What a round leaves alone\<close>

definition shut_plan :: "service_t \<Rightarrow> service_t \<Rightarrow> bool" where
  "shut_plan s t \<longleftrightarrow> dep_slots t = dep_slots s \<and> svc_flags t = svc_flags s \<and> stop_grace_ms t = stop_grace_ms s"

definition slot_le :: "shut_slot \<Rightarrow> shut_slot \<Rightarrow> bool" where
  "slot_le b c \<longleftrightarrow> (term_at b \<noteq> 0 \<longrightarrow> term_at c = term_at b) \<and> (stop_at b \<noteq> 0 \<longrightarrow> stop_at c = stop_at b) \<and>
     (post_at b \<noteq> 0 \<longrightarrow> post_at c = post_at b) \<and> (sh_killed b \<longrightarrow> sh_killed c)"

text \<open>\<^verbatim>\<open>eng_only i e e'\<close>: only service \<^verbatim>\<open>i\<close> changes, and its plan is kept. \<^verbatim>\<open>sh_only P i x y\<close>: moreover only slot
  \<^verbatim>\<open>i\<close> changes, and its old and new contents are related by \<^verbatim>\<open>P\<close>.\<close>

definition eng_only :: "nat \<Rightarrow> engine \<Rightarrow> engine \<Rightarrow> bool" where
  "eng_only i e e' \<longleftrightarrow> only i e e' \<and> groups e' = groups e \<and> (i < nsvc e \<longrightarrow> shut_plan (sv e i) (sv e' i))"

definition sh_only :: "(shut_slot \<Rightarrow> shut_slot \<Rightarrow> bool) \<Rightarrow> nat \<Rightarrow> shut_t \<times> engine \<Rightarrow> shut_t \<times> engine \<Rightarrow> bool" where
  "sh_only P i x y \<longleftrightarrow>
     eng_only i (snd x) (snd y) \<and>
     sh_start (fst y) = sh_start (fst x) \<and> sh_held (fst y) = sh_held (fst x) \<and> sh_first (fst y) = sh_first (fst x) \<and>
     (\<exists>b. sh_slots (fst y) = (sh_slots (fst x))[i := b]) \<and>
     (i < length (sh_slots (fst x)) \<longrightarrow> P (slot (fst x) i) (slot (fst y) i))"

lemma shut_plan_refl [simp]: "shut_plan s s"
  by (simp add: shut_plan_def)

lemma shut_plan_trans: "shut_plan s t \<Longrightarrow> shut_plan t u \<Longrightarrow> shut_plan s u"
  by (simp add: shut_plan_def)

lemma slot_le_refl [simp]: "slot_le b b"
  by (simp add: slot_le_def)

lemma slot_le_trans: "slot_le a b \<Longrightarrow> slot_le b c \<Longrightarrow> slot_le a c"
  by (auto simp: slot_le_def)

lemma shut_plan_upd [simp]:
  "shut_plan s (s\<lparr>stop_pid := p, stop_phase := ph, stop_start := t\<rparr>)"
  "shut_plan s (s\<lparr>stop_pid := p, stop_phase := ph\<rparr>)"
  "shut_plan s (s\<lparr>child_pid := p\<rparr>)"
  "shut_plan s (s\<lparr>cgroup_path := cg\<rparr>)"
  by (simp_all add: shut_plan_def dep_slots_def stop_grace_ms_def)

lemma eng_only_refl [simp]: "eng_only i e e"
  by (simp add: eng_only_def)

lemma eng_only_trans:
  assumes "eng_only i e e'" "eng_only i e' e''"
  shows "eng_only i e e''"
proof -
  have "nsvc e' = nsvc e" using assms(1) onlyD [of i e e'] by (simp add: eng_only_def)
  then show ?thesis
    using assms by (auto simp: eng_only_def intro: only_trans shut_plan_trans)
qed

lemma eng_only_emit [simp]: "eng_only i e (emit es e') \<longleftrightarrow> eng_only i e e'"
  by (simp add: eng_only_def emit_def only_def)

lemma eng_only_log [simp]: "eng_only i e (shut_log m e') \<longleftrightarrow> eng_only i e e'"
  by (simp add: shut_log_def)

lemma eng_only_begin: "eng_only i e (fst (stop_cmds_begin env ph i e))"
proof -
  have "groups (fst (stop_cmds_begin env ph i e)) = groups e"
    by (simp add: stop_cmds_begin_def Let_def at_def emit_def log_svc_def)
  moreover have "shut_plan (sv e i) (sv (fst (stop_cmds_begin env ph i e)) i)" if "i < nsvc e"
    using services_stop_cmds_begin [of env ph i e] that by auto
  ultimately show ?thesis
    using only_stop_cmds_begin [of i e e env ph] by (simp add: eng_only_def)
qed

lemma eng_only_kill_tree: "eng_only i e (kill_tree env i e)"
proof -
  have "groups (kill_tree env i e) = groups e"
    by (simp add: kill_tree_def emit_def split: prod.split)
  then show ?thesis
    unfolding eng_only_def using only_kill_tree [of i e e env] by (auto elim: sv_kill_tree [of i e env])
qed

lemma eng_only_shut_kill: "eng_only i e (shut_kill env i e)"
  unfolding shut_kill_def Let_def
  by (auto intro: eng_only_trans [OF _ eng_only_kill_tree])

lemma sh_onlyI:
  assumes "eng_only i e e'" "P (slot st i) (f (slot st i))"
  shows "sh_only P i (st, e) (slot_at i f st, e')"
  using assms by (auto simp: sh_only_def slot_at_def)

lemma sh_only_same:
  assumes "eng_only i e e'" "P (slot st i) (slot st i)"
  shows "sh_only P i (st, e) (st, e')"
  using assms by (auto simp: sh_only_def intro: exI [of _ "slot st i"])

lemma sh_only_trans:
  assumes "sh_only P i x y" "sh_only Q i y z" "\<And>a b c. P a b \<Longrightarrow> Q b c \<Longrightarrow> R a c"
  shows "sh_only R i x z"
  using assms unfolding sh_only_def by (auto intro: eng_only_trans)

definition alive_why :: "int \<Rightarrow> int \<Rightarrow> shut_slot \<Rightarrow> bool" where
  "alive_why now grace c \<longleftrightarrow>
     (sh_alive c \<longrightarrow> \<not> sh_killed c \<or> (post_at c \<noteq> 0 \<and> now - post_at c < grace))"

text \<open>The steps after the look only ever raise \<^verbatim>\<open>alive\<close>, so a service that does not count as alive was killed
  or answers no signal.\<close>

definition dims :: "shut_slot \<Rightarrow> shut_slot \<Rightarrow> bool" where
  "dims b c \<longleftrightarrow> sh_killed c = sh_killed b \<and> (sh_alive b \<longrightarrow> sh_alive c)"

definition dead_why :: "sysenv \<Rightarrow> service_t \<Rightarrow> shut_slot \<Rightarrow> bool" where
  "dead_why env s c \<longleftrightarrow> (\<not> sh_alive c \<longrightarrow> sh_killed c \<or> snd (svc_signal_all env s 0) = 0)"

lemma dims_dead: "dims b c \<Longrightarrow> dead_why env s b \<Longrightarrow> dead_why env s c"
  by (auto simp: dims_def dead_why_def)

lemma sh_only_look:
  "sh_only (\<lambda>b c. slot_le b c \<and> (sh_alive c \<longrightarrow> \<not> sh_killed c) \<and> dead_why env (sv (snd x) i) c) i x (shut_look env i x)"
  by (cases x) (auto intro!: sh_onlyI simp: shut_look_def Let_def slot_le_def dead_why_def)

lemma sh_only_post:
  "sh_only (\<lambda>b c. slot_le b c \<and> ((sh_alive b \<longrightarrow> \<not> sh_killed b) \<longrightarrow> sh_alive c \<longrightarrow> \<not> sh_killed c) \<and> dims b c) i x (shut_post env now i x)"
proof -
  obtain st e where x: "x = (st, e)" by (cases x)
  obtain e' started where sb: "stop_cmds_begin env 2 i e = (e', started)" by (cases "stop_cmds_begin env 2 i e")
  have "eng_only i e e'" using eng_only_begin [of i e env 2] sb by simp
  then show ?thesis
    unfolding x shut_post_def Let_def sb prod.case
    by (cases "\<not> sh_alive (slot st i) \<and> was_up (slot st i) \<and> post_at (slot st i) = 0")
      (auto intro!: sh_only_same sh_onlyI simp: slot_le_def dims_def)
qed

lemma sh_only_post_wait:
  "sh_only (\<lambda>b c. slot_le b c \<and> ((sh_alive b \<longrightarrow> \<not> sh_killed b) \<longrightarrow> alive_why now (stop_grace_ms (sv (snd x) i)) c) \<and> dims b c) i x (shut_post_wait now i x)"
proof -
  obtain st e where x: "x = (st, e)" by (cases x)
  show ?thesis
    unfolding x shut_post_wait_def Let_def prod.case snd_conv
    by (auto intro!: sh_only_same sh_onlyI simp: slot_le_def alive_why_def dims_def)
qed

lemma sh_only_gone:
  "sh_only (\<lambda>b c. slot_le b c \<and> (alive_why now g b \<longrightarrow> alive_why now g c) \<and> dims b c) i x (shut_gone now' i x)"
proof -
  obtain st e where x: "x = (st, e)" by (cases x)
  show ?thesis
    unfolding x shut_gone_def Let_def prod.case
    by (auto intro!: sh_only_same sh_onlyI simp: slot_le_def alive_why_def dims_def)
qed

definition survey_rel :: "sysenv \<Rightarrow> service_t \<Rightarrow> shut_slot \<Rightarrow> shut_slot \<Rightarrow> bool" where
  "survey_rel env s b c \<longleftrightarrow> slot_le b c \<and> alive_why (monotonic_ms env) (stop_grace_ms s) c \<and> dead_why env s c"

lemma sh_only_survey_one:
  assumes "i < nsvc (snd x)"
  shows "sh_only (survey_rel env (sv (snd x) i)) i x (shut_survey_one env i x)"
proof -
  define now where "now = monotonic_ms env"
  define s where "s = sv (snd x) i"
  define y where "y = shut_look env i x"
  define z where "z = shut_post env now i y"
  have xy: "sh_only (\<lambda>b c. slot_le b c \<and> (sh_alive c \<longrightarrow> \<not> sh_killed c) \<and> dead_why env s c) i x y"
    unfolding y_def s_def by (rule sh_only_look)
  have xz: "sh_only (\<lambda>b c. slot_le b c \<and> (sh_alive c \<longrightarrow> \<not> sh_killed c) \<and> dead_why env s c) i x z"
    by (rule sh_only_trans [OF xy sh_only_post [where i = i and x = y and env = env and now = now, folded z_def]])
      (auto intro: slot_le_trans dims_dead)
  then have g: "stop_grace_ms (sv (snd z) i) = stop_grace_ms s"
    using assms by (simp add: sh_only_def eng_only_def shut_plan_def s_def)
  have xw: "sh_only (\<lambda>b c. slot_le b c \<and> alive_why now (stop_grace_ms s) c \<and> dead_why env s c) i x (shut_post_wait now i z)"
    by (rule sh_only_trans [OF xz sh_only_post_wait [where i = i and x = z and now = now]])
      (auto intro: slot_le_trans dims_dead simp: g)
  show ?thesis
    unfolding shut_survey_one_def now_def [symmetric] y_def [symmetric] z_def [symmetric] s_def [symmetric]
    by (rule sh_only_trans [OF xw sh_only_gone]) (auto intro: slot_le_trans dims_dead simp: survey_rel_def now_def)
qed

text \<open>A pass over all services, one index after the other, gathers what each step does at its index. The
  steps see what the pass started from: their own service and slot, every plan, and whatever of the
  other slots \<^verbatim>\<open>Q\<close> keeps.\<close>

definition sh_agree :: "(shut_slot \<Rightarrow> shut_slot \<Rightarrow> bool) \<Rightarrow> shut_t \<times> engine \<Rightarrow> shut_t \<times> engine \<Rightarrow> bool" where
  "sh_agree Q x y \<longleftrightarrow>
     nsvc (snd y) = nsvc (snd x) \<and> groups (snd y) = groups (snd x) \<and> length (sh_slots (fst y)) = length (sh_slots (fst x)) \<and>
     sh_start (fst y) = sh_start (fst x) \<and> sh_held (fst y) = sh_held (fst x) \<and> sh_first (fst y) = sh_first (fst x) \<and>
     (\<forall>j<nsvc (snd x). shut_plan (sv (snd x) j) (sv (snd y) j) \<and> Q (slot (fst x) j) (slot (fst y) j))"

lemma sh_agree_step:
  assumes "sh_agree Q x y" "sh_only P i y z" "P (slot (fst y) i) (slot (fst z) i) \<Longrightarrow> Q (slot (fst x) i) (slot (fst z) i)"
    "i < nsvc (snd x)" "length (sh_slots (fst x)) = nsvc (snd x)"
  shows "sh_agree Q x z"
    "\<forall>j. j \<noteq> i \<longrightarrow> sv (snd z) j = sv (snd y) j \<and> slot (fst z) j = slot (fst y) j"
    "P (slot (fst y) i) (slot (fst z) i)"
proof -
  have o: "only i (snd y) (snd z)" using assms(2) by (simp add: sh_only_def eng_only_def)
  obtain b where b: "sh_slots (fst z) = (sh_slots (fst y))[i := b]" using assms(2) by (auto simp: sh_only_def)
  show other: "\<forall>j. j \<noteq> i \<longrightarrow> sv (snd z) j = sv (snd y) j \<and> slot (fst z) j = slot (fst y) j"
    using onlyD [OF o] b by simp
  show P: "P (slot (fst y) i) (slot (fst z) i)"
    using assms(1,2,4,5) by (simp add: sh_only_def sh_agree_def)
  have pl: "shut_plan (sv (snd y) i) (sv (snd z) i)"
    using assms(1,2,4) by (simp add: sh_only_def eng_only_def sh_agree_def)
  have "shut_plan (sv (snd x) j) (sv (snd z) j) \<and> Q (slot (fst x) j) (slot (fst z) j)" if "j < nsvc (snd x)" for j
  proof (cases "j = i")
    case True
    then show ?thesis using assms(1,4) pl assms(3) [OF P] by (auto simp: sh_agree_def intro: shut_plan_trans)
  next
    case False
    then show ?thesis using assms(1) other that by (simp add: sh_agree_def)
  qed
  then show "sh_agree Q x z"
    using assms(1,2) b onlyD [OF o] by (simp add: sh_agree_def sh_only_def eng_only_def)
qed

lemma fold_sh:
  fixes pr :: "'c \<Rightarrow> shut_t \<times> engine"
  assumes len: "length (sh_slots (fst (pr x))) = nsvc (snd (pr x))"
    and step: "\<And>i y. i < nsvc (snd (pr x)) \<Longrightarrow> sh_agree Q (pr x) (pr y) \<Longrightarrow>
      sv (snd (pr y)) i = sv (snd (pr x)) i \<Longrightarrow> slot (fst (pr y)) i = slot (fst (pr x)) i \<Longrightarrow>
      sh_only (P i) i (pr y) (pr (f i y))"
    and Q: "\<And>b. Q b b" "\<And>i b c. P i b c \<Longrightarrow> Q b c"
    and m: "m \<le> nsvc (snd (pr x))"
  shows "sh_agree Q (pr x) (pr (fold f [0..<m] x)) \<and>
    (\<forall>i<m. P i (slot (fst (pr x)) i) (slot (fst (pr (fold f [0..<m] x))) i)) \<and>
    (\<forall>i. m \<le> i \<longrightarrow> sv (snd (pr (fold f [0..<m] x))) i = sv (snd (pr x)) i \<and>
       slot (fst (pr (fold f [0..<m] x))) i = slot (fst (pr x)) i)"
  using m
proof (induction m)
  case 0
  then show ?case by (simp add: sh_agree_def Q(1))
next
  case (Suc m)
  define y where "y = fold f [0..<m] x"
  have IH: "sh_agree Q (pr x) (pr y)" "\<forall>i<m. P i (slot (fst (pr x)) i) (slot (fst (pr y)) i)"
    "\<forall>i. m \<le> i \<longrightarrow> sv (snd (pr y)) i = sv (snd (pr x)) i \<and> slot (fst (pr y)) i = slot (fst (pr x)) i"
    using Suc by (simp_all add: y_def)
  have o: "sh_only (P m) m (pr y) (pr (f m y))"
    using Suc.prems IH by (intro step) auto
  have same: "slot (fst (pr y)) m = slot (fst (pr x)) m" using IH(3) by simp
  note ag = sh_agree_step [OF IH(1) o _ _ len, unfolded same, OF Q(2) [of m]]
  have "\<forall>i<Suc m. P i (slot (fst (pr x)) i) (slot (fst (pr (f m y))) i)"
    using ag(2,3) IH(2) Suc.prems by (auto simp: less_Suc_eq)
  then show ?case
    using ag(1,2) IH(3) Suc.prems by (simp add: y_def [symmetric])
qed

text \<open>The survey: every slot only gains marks, and whoever counts as alive has not been killed, or has its
  \<^verbatim>\<open>exec_stop_post\<close> still within its grace.\<close>

lemma survey_pass:
  assumes "length (sh_slots (fst x)) = nsvc (snd x)"
  shows "sh_agree slot_le x (shut_survey env x) \<and>
    (\<forall>i<nsvc (snd x). survey_rel env (sv (snd x) i) (slot (fst x) i) (slot (fst (shut_survey env x)) i))"
proof -
  have "sh_only (survey_rel env (sv (snd x) i)) i y (shut_survey_one env i y)"
    if "i < nsvc (snd x)" "sh_agree slot_le x y" "sv (snd y) i = sv (snd x) i" for i y
    using sh_only_survey_one [of i y env] that by (simp add: sh_agree_def)
  then show ?thesis
    using fold_sh [where pr = id and x = x and Q = slot_le and f = "shut_survey_one env" and m = "nsvc (snd x)" and
      P = "\<lambda>i. survey_rel env (sv (snd x) i)"] assms
    by (simp add: shut_survey_def survey_rel_def)
qed

definition pr2 :: "'a \<times> 'b \<times> 'c \<Rightarrow> 'a \<times> 'b" where
  "pr2 t = (fst t, fst (snd t))"

text \<open>Why a service that is alive gets no mark in a round.\<close>

definition must_wait :: "sysenv \<Rightarrow> shut_t \<Rightarrow> engine \<Rightarrow> nat \<Rightarrow> bool" where
  "must_wait env st e i \<longleftrightarrow>
     (let now = monotonic_ms env; b = slot st i; g = stop_grace_ms (sv e i) in
      sh_killed b \<or> (term_at b \<noteq> 0 \<and> now - term_at b < g) \<or> (stop_at b \<noteq> 0 \<and> now - stop_at b < g) \<or>
      (sh_held st \<and> \<not> has_flag (sv e i) SVC_STOP_FIRST) \<or> shut_blocked now st e i)"

definition marks :: "shut_slot \<Rightarrow> nat" where
  "marks b = of_bool (term_at b \<noteq> 0) + of_bool (stop_at b \<noteq> 0) + of_bool (post_at b \<noteq> 0) + of_bool (sh_killed b)"

definition stop_rel :: "bool \<Rightarrow> shut_slot \<Rightarrow> shut_slot \<Rightarrow> bool" where
  "stop_rel w b c \<longleftrightarrow> slot_le b c \<and> sh_alive c = sh_alive b \<and> (sh_alive b \<longrightarrow> w \<or> marks b < marks c)"

lemma stop_relI:
  "slot_le b c \<Longrightarrow> sh_alive c = sh_alive b \<Longrightarrow> (sh_alive b \<Longrightarrow> \<not> w \<Longrightarrow> marks b < marks c) \<Longrightarrow> stop_rel w b c"
  by (auto simp: stop_rel_def)

lemma sh_only_term:
  assumes "eng_only i e e'" "term_at (slot st i) = 0" "monotonic_ms env \<noteq> 0"
  shows "sh_only (stop_rel w) i (st, e) (pr2 (shut_term env i (st, e', line)))"
proof -
  have "sh_only (stop_rel w) i (st, e) (slot_at i (\<lambda>b. b\<lparr>term_at := monotonic_ms env\<rparr>) st, e')"
    using assms by (intro sh_onlyI stop_relI) (auto simp: slot_le_def marks_def)
  then show ?thesis by (simp add: shut_term_def Let_def pr2_def sh_only_def)
qed

lemma stop_cmds_eng: "eng_only i e (fst (shut_stop_cmds env i st e))"
  using eng_only_begin [of i e env 1] by (simp add: shut_stop_cmds_def)

lemma sh_only_turn:
  assumes i: "i < nsvc e" and t: "term_at (slot st i) = 0" "monotonic_ms env \<noteq> 0"
    and w: "stop_at (slot st i) \<noteq> 0 \<and> monotonic_ms env - stop_at (slot st i) < stop_grace_ms (sv e i) \<Longrightarrow> w"
  shows "sh_only (stop_rel w) i (st, e) (pr2 (shut_turn env i (st, e, line)))"
proof -
  obtain e1 b where sc: "shut_stop_cmds env i st e = (e1, b)" by (cases "shut_stop_cmds env i st e")
  have e1: "eng_only i e e1" using stop_cmds_eng [of i e env st] sc by simp
  then have g: "stop_grace_ms (sv e1 i) = stop_grace_ms (sv e i)" using i by (simp add: eng_only_def shut_plan_def)
  show ?thesis
  proof (cases b)
    case True
    then have "stop_at (slot st i) = 0" using sc by (auto simp: shut_stop_cmds_def split: if_splits)
    then have "sh_only (stop_rel w) i (st, e) (slot_at i (\<lambda>b. b\<lparr>stop_at := monotonic_ms env\<rparr>) st, e1)"
      using e1 t by (intro sh_onlyI stop_relI) (auto simp: slot_le_def marks_def)
    then show ?thesis using True sc by (simp add: shut_turn_def pr2_def)
  next
    case False
    have "sh_only (stop_rel w) i (st, e) (st, e1)"
      if "stop_at (slot st i) \<noteq> 0" "monotonic_ms env - stop_at (slot st i) < stop_grace_ms (sv e1 i)"
      using e1 w that g by (intro sh_only_same stop_relI) auto
    then have waits: "sh_only (stop_rel w) i (st, e) (pr2 (st, e1, line))"
      if "stop_at (slot st i) \<noteq> 0" "monotonic_ms env - stop_at (slot st i) < stop_grace_ms (sv e1 i)"
      using that by (simp add: pr2_def)
    show ?thesis
      using False sc waits e1 t by (auto simp: shut_turn_def Let_def intro!: sh_only_term)
  qed
qed

lemma sh_only_stop_one:
  assumes "i < nsvc e" "monotonic_ms env \<noteq> 0"
  shows "sh_only (stop_rel (must_wait env st e i)) i (st, e) (pr2 (shut_stop_one env i (st, e, line)))"
proof -
  define ok where "ok = (\<lambda>t :: shut_t \<times> engine \<times> shut_line. sh_only (stop_rel (must_wait env st e i)) i (st, e) (pr2 t))"
  have stay: "ok (st, e, line)" if "\<not> sh_alive (slot st i) \<or> must_wait env st e i"
    using that unfolding ok_def pr2_def fst_conv snd_conv by (intro sh_only_same stop_relI) auto
  have kill: "ok (slot_at i (\<lambda>b. b\<lparr>sh_killed := True\<rparr>) st, shut_kill env i e, line)"
    unfolding ok_def pr2_def fst_conv snd_conv
    by (intro sh_onlyI stop_relI eng_only_shut_kill) (auto simp: slot_le_def marks_def must_wait_def Let_def)
  have turn: "ok (shut_turn env i (st, e, line))" if "term_at (slot st i) = 0"
    using assms that unfolding ok_def by (intro sh_only_turn) (simp_all add: must_wait_def Let_def)
  have wait: "ok (st, e, line)"
    if "(term_at (slot st i) \<noteq> 0 \<and> monotonic_ms env - term_at (slot st i) < stop_grace_ms (sv e i)) \<or>
      (sh_held st \<and> \<not> has_flag (sv e i) SVC_STOP_FIRST) \<or> shut_blocked (monotonic_ms env) st e i"
    using that by (intro stay) (auto simp: must_wait_def Let_def)
  have "ok (shut_stop_one env i (st, e, line))"
    unfolding shut_stop_one_def Let_def prod.case using stay wait kill turn by simp
  then show ?thesis by (simp add: ok_def)
qed

lemma shut_blocked_agree:
  assumes "sh_agree Q x y" "\<And>b c. Q b c \<Longrightarrow> sh_alive c = sh_alive b"
  shows "shut_blocked now (fst y) (snd y) i = shut_blocked now (fst x) (snd x) i"
proof -
  have "sh_alive (slot (fst y) j) = sh_alive (slot (fst x) j)" if "j < nsvc (snd x)" for j
    using assms that by (simp add: sh_agree_def)
  moreover have "shut_depends_on (groups (snd y)) (sv (snd y) j) i = shut_depends_on (groups (snd x)) (sv (snd x) j) i"
    if "j < nsvc (snd x)" for j
    using assms(1) that by (simp add: sh_agree_def shut_depends_on_def shut_plan_def)
  moreover have "nsvc (snd y) = nsvc (snd x)" "sh_start (fst y) = sh_start (fst x)"
    using assms(1) by (simp_all add: sh_agree_def)
  ultimately show ?thesis by (auto simp: shut_blocked_def)
qed

lemma must_wait_agree:
  assumes "sh_agree Q x y" "\<And>b c. Q b c \<Longrightarrow> sh_alive c = sh_alive b"
    "sv (snd y) i = sv (snd x) i" "slot (fst y) i = slot (fst x) i"
  shows "must_wait env (fst y) (snd y) i = must_wait env (fst x) (snd x) i"
proof -
  have "sh_held (fst y) = sh_held (fst x)" using assms(1) by (simp add: sh_agree_def)
  then show ?thesis
    using assms(3,4) shut_blocked_agree [OF assms(1,2)] by (simp add: must_wait_def Let_def)
qed

definition alive_same :: "shut_slot \<Rightarrow> shut_slot \<Rightarrow> bool" where
  "alive_same b c \<longleftrightarrow> slot_le b c \<and> sh_alive c = sh_alive b"

lemma stop_prefix:
  assumes len: "length (sh_slots st) = nsvc e" and now: "monotonic_ms env \<noteq> 0" and m: "m \<le> nsvc e"
  shows "(let y = pr2 (fold (shut_stop_one env) [0..<m] (st, e, None)) in
    sh_agree alive_same (st, e) y \<and> (\<forall>i<m. stop_rel (must_wait env st e i) (slot st i) (slot (fst y) i)) \<and>
    (\<forall>i. m \<le> i \<longrightarrow> sv (snd y) i = sv e i \<and> slot (fst y) i = slot st i))"
proof -
  define x :: "shut_t \<times> engine \<times> shut_line" where "x = (st, e, None)"
  have p [simp]: "pr2 x = (st, e)" by (simp add: x_def pr2_def)
  have Q: "alive_same b b" "stop_rel w b c \<Longrightarrow> alive_same b c" "alive_same b c \<Longrightarrow> sh_alive c = sh_alive b" for b c w
    by (auto simp: alive_same_def stop_rel_def)
  have "sh_only (stop_rel (must_wait env st e i)) i (pr2 y) (pr2 (shut_stop_one env i y))"
    if "i < nsvc e" "sh_agree alive_same (st, e) (pr2 y)" "sv (snd (pr2 y)) i = sv e i" "slot (fst (pr2 y)) i = slot st i" for i y
  proof -
    obtain st' e' l where y: "y = (st', e', l)" by (cases y)
    have "must_wait env st' e' i = must_wait env st e i"
      using must_wait_agree [OF that(2) Q(3)] that(3,4) by (simp add: y pr2_def)
    moreover have "i < nsvc e'" using that(1,2) by (simp add: sh_agree_def y pr2_def)
    ultimately show ?thesis using sh_only_stop_one [of i e' env st' l] now by (simp add: y pr2_def)
  qed
  then show ?thesis
    using fold_sh [where pr = pr2 and x = x and Q = alive_same and f = "shut_stop_one env" and m = m and
      P = "\<lambda>i. stop_rel (must_wait env st e i)"] len Q(1,2) m by (simp add: x_def [symmetric] Let_def)
qed

lemma stop_pass:
  assumes "length (sh_slots st) = nsvc e" "monotonic_ms env \<noteq> 0"
  shows "(let y = pr2 (fold (shut_stop_one env) [0..<nsvc e] (st, e, None)) in
    sh_agree slot_le (st, e) y \<and> (\<forall>i<nsvc e. stop_rel (must_wait env st e i) (slot st i) (slot (fst y) i)))"
  using stop_prefix [OF assms, of "nsvc e"] by (simp add: Let_def sh_agree_def alive_same_def)

lemma shut_stop_pass:
  assumes "length (sh_slots st) = nsvc e" "monotonic_ms env \<noteq> 0" "shut_stop env (st, e) = (st', e')"
  shows "nsvc e' = nsvc e" "groups e' = groups e" "length (sh_slots st') = nsvc e" "sh_start st' = sh_start st"
    "sh_held st' = sh_held st"
    "i < nsvc e \<Longrightarrow> shut_plan (sv e i) (sv e' i) \<and> stop_rel (must_wait env st e i) (slot st i) (slot st' i)"
proof -
  obtain st1 e1 line where f: "fold (shut_stop_one env) [0..<nsvc e] (st, e, None) = (st1, e1, line)"
    by (cases "fold (shut_stop_one env) [0..<nsvc e] (st, e, None)")
  have g: "groups (shut_log m d) = groups d" for m d by (simp add: shut_log_def emit_def)
  have l: "services (shut_log m d) = services d" for m d by (simp add: shut_log_def)
  show "nsvc e' = nsvc e" "groups e' = groups e" "length (sh_slots st') = nsvc e" "sh_start st' = sh_start st"
    "sh_held st' = sh_held st"
    "i < nsvc e \<Longrightarrow> shut_plan (sv e i) (sv e' i) \<and> stop_rel (must_wait env st e i) (slot st i) (slot st' i)"
    using stop_pass [OF assms(1,2)] assms(1,3) f
    by (auto simp: shut_stop_def pr2_def Let_def sh_agree_def g l split: option.splits)
qed

section \<open>The rounds of a shutdown\<close>

primrec shut_states :: "(int \<Rightarrow> bool) \<Rightarrow> shut_answers \<Rightarrow> shut_t \<times> engine \<Rightarrow> nat \<Rightarrow> shut_t \<times> engine" where
  "shut_states claimed w x 0 = x"
| "shut_states claimed w x (Suc k) = shut_rest (fst (w k)) (shut_begin claimed (w k) (shut_states claimed w x k))"

definition shut_seen :: "(int \<Rightarrow> bool) \<Rightarrow> shut_answers \<Rightarrow> shut_t \<times> engine \<Rightarrow> nat \<Rightarrow> shut_t \<times> engine" where
  "shut_seen claimed w x k = shut_begin claimed (w k) (shut_states claimed w x k)"

definition sh_le :: "shut_t \<times> engine \<Rightarrow> shut_t \<times> engine \<Rightarrow> bool" where
  "sh_le x y \<longleftrightarrow>
     nsvc (snd y) = nsvc (snd x) \<and> groups (snd y) = groups (snd x) \<and> length (sh_slots (fst y)) = length (sh_slots (fst x)) \<and>
     (\<forall>j<nsvc (snd x). shut_plan (sv (snd x) j) (sv (snd y) j) \<and> slot_le (slot (fst x) j) (slot (fst y) j))"

lemma sh_le_refl [simp]: "sh_le x x"
  by (simp add: sh_le_def)

lemma sh_le_trans: "sh_le x y \<Longrightarrow> sh_le y z \<Longrightarrow> sh_le x z"
  unfolding sh_le_def by (auto intro: shut_plan_trans slot_le_trans)

lemma agree_le: "sh_agree slot_le x y \<Longrightarrow> sh_le x y"
  by (simp add: sh_agree_def sh_le_def)

lemma sh_le_reap_one: "sh_le (st, e) (st, shut_reap_one p e)"
proof (cases "first_index (\<lambda>s. stop_pid s = p \<or> child_pid s = p) (services e)")
  case (Some i)
  then show ?thesis
    by (auto simp: sh_le_def shut_reap_one_def at_def nth_upd)
next
  case None
  show ?thesis unfolding shut_reap_one_def None by simp
qed

lemma sh_le_reap: "sh_le (st, e) (st, shut_reap claimed ps e)"
proof (induction ps arbitrary: e)
  case (Cons p ps)
  have "sh_le (st, e) (st, if claimed p then e else shut_reap_one p e)"
    using sh_le_reap_one by simp
  from sh_le_trans [OF this Cons.IH] show ?case by (simp add: shut_reap_def)
qed (simp add: shut_reap_def)

lemma begin_le:
  assumes "length (sh_slots (fst x)) = nsvc (snd x)"
  shows "sh_le x (shut_begin claimed w x) \<and>
    (\<forall>i<nsvc (snd x). alive_why (monotonic_ms (fst w)) (stop_grace_ms (sv (snd x) i)) (slot (fst (shut_begin claimed w x)) i))"
proof -
  obtain st e where x: "x = (st, e)" by (cases x)
  define e1 where "e1 = shut_reap claimed (snd w) e"
  have r: "sh_le (st, e) (st, e1)" unfolding e1_def by (rule sh_le_reap)
  have l: "length (sh_slots st) = nsvc e1" using r assms x by (simp add: sh_le_def)
  note s = survey_pass [of "(st, e1)" "fst w", unfolded fst_conv snd_conv, OF l]
  have "sh_le (st, e) (shut_survey (fst w) (st, e1))"
    using sh_le_trans [OF r agree_le] s by blast
  moreover have "stop_grace_ms (sv e1 i) = stop_grace_ms (sv e i)" if "i < nsvc e" for i
    using r that by (simp add: sh_le_def shut_plan_def)
  moreover have "nsvc e1 = nsvc e" using r by (simp add: sh_le_def)
  ultimately show ?thesis using s by (simp add: x shut_begin_def e1_def [symmetric] survey_rel_def)
qed

lemma rest_le:
  assumes "length (sh_slots st) = nsvc e" "monotonic_ms env \<noteq> 0" "shut_rest env (st, e) = (st', e')"
  shows "sh_le (st, e) (st', e')" "sh_held st' = shut_hold st e"
    "sh_start st' = (if sh_held st \<and> \<not> shut_hold st e then monotonic_ms env else sh_start st)"
    "i < nsvc e \<Longrightarrow> sh_alive (slot st i) \<Longrightarrow> marks (slot st' i) = marks (slot st i) \<Longrightarrow>
       must_wait env (st\<lparr>sh_held := shut_hold st e, sh_start := sh_start st'\<rparr>) e i"
proof -
  obtain st1 e1 where h: "shut_set_hold env (st, e) = (st1, e1)" by (cases "shut_set_hold env (st, e)")
  have e1: "services e1 = services e" "groups e1 = groups e"
    and st1: "sh_slots st1 = sh_slots st" "sh_held st1 = shut_hold st e"
      "sh_start st1 = (if sh_held st \<and> \<not> shut_hold st e then monotonic_ms env else sh_start st)"
    using h by (auto simp: shut_set_hold_def Let_def shut_log_def emit_def split: if_splits)
  have l: "length (sh_slots st1) = nsvc e1" using assms(1) e1 st1 by simp
  have r: "shut_stop env (st1, e1) = (st', e')" using assms(3) h by (simp add: shut_rest_def)
  note p = shut_stop_pass [OF l assms(2) r]
  show "sh_held st' = shut_hold st e"
    and start: "sh_start st' = (if sh_held st \<and> \<not> shut_hold st e then monotonic_ms env else sh_start st)"
    using p(4,5) st1 by simp_all
  have "shut_plan (sv e i) (sv e' i) \<and> slot_le (slot st i) (slot st' i)" if "i < nsvc e" for i
    using p(6) [of i] that e1 st1 by (simp add: stop_rel_def)
  then show "sh_le (st, e) (st', e')" using p(1,2,3) e1 st1 assms(1) by (simp add: sh_le_def)
  show "must_wait env (st\<lparr>sh_held := shut_hold st e, sh_start := sh_start st'\<rparr>) e i"
    if "i < nsvc e" "sh_alive (slot st i)" "marks (slot st' i) = marks (slot st i)"
  proof -
    have "must_wait env st1 e1 i" using p(6) [of i] that e1 st1 by (simp add: stop_rel_def)
    then show ?thesis
      using e1 st1 start by (simp add: must_wait_def shut_blocked_def Let_def)
  qed
qed

section \<open>The shutdown ends\<close>

definition total_marks :: "shut_t \<Rightarrow> nat" where
  "total_marks st = (\<Sum>i<length (sh_slots st). marks (slot st i))"

lemma slot_le_marks: "slot_le b c \<Longrightarrow> marks b \<le> marks c"
  by (auto simp: slot_le_def marks_def of_bool_def)

lemma marks_same:
  "slot_le b c \<Longrightarrow> marks c = marks b \<Longrightarrow>
   term_at c = term_at b \<and> stop_at c = stop_at b \<and> post_at c = post_at b \<and> sh_killed c = sh_killed b"
  by (auto simp: slot_le_def marks_def of_bool_def split: if_splits)

lemma total_marks_le: "total_marks st \<le> 4 * length (sh_slots st)"
proof -
  have "marks b \<le> 4" for b by (simp add: marks_def of_bool_def)
  then have "total_marks st \<le> (\<Sum>i<length (sh_slots st). 4)" unfolding total_marks_def by (intro sum_mono) auto
  then show ?thesis by simp
qed

lemma sh_le_total:
  assumes "sh_le x y" "length (sh_slots (fst x)) = nsvc (snd x)"
  shows "total_marks (fst x) \<le> total_marks (fst y)"
    "total_marks (fst y) = total_marks (fst x) \<Longrightarrow> j < nsvc (snd x) \<Longrightarrow> marks (slot (fst y) j) = marks (slot (fst x) j)"
proof -
  have l: "length (sh_slots (fst y)) = nsvc (snd x)" using assms by (simp add: sh_le_def)
  have m: "marks (slot (fst x) i) \<le> marks (slot (fst y) i)" if "i < nsvc (snd x)" for i
    using assms that by (auto simp: sh_le_def intro: slot_le_marks)
  show "total_marks (fst x) \<le> total_marks (fst y)"
    unfolding total_marks_def l assms(2) using m by (intro sum_mono) auto
  show "marks (slot (fst y) j) = marks (slot (fst x) j)"
    if "total_marks (fst y) = total_marks (fst x)" "j < nsvc (snd x)"
  proof (rule ccontr)
    assume "marks (slot (fst y) j) \<noteq> marks (slot (fst x) j)"
    then have "marks (slot (fst x) j) < marks (slot (fst y) j)" using m [OF that(2)] by simp
    then have "total_marks (fst x) < total_marks (fst y)"
      unfolding total_marks_def l assms(2) using m that(2) by (intro sum_strict_mono_ex1) auto
    then show False using that(1) by simp
  qed
qed

lemma bounded_mono_stable:
  fixes f :: "nat \<Rightarrow> nat"
  assumes "\<And>k. f k \<le> f (Suc k)" "\<And>k. f k \<le> b"
  shows "\<exists>K. \<forall>k. K \<le> k \<longrightarrow> f k = f K"
proof -
  have mono: "f i \<le> f j" if "i \<le> j" for i j using assms(1) that by (rule lift_Suc_mono_le)
  have "range f \<subseteq> {..b}" using assms(2) by blast
  then have fin: "finite (range f)" by (rule finite_subset) simp
  have "Max (range f) \<in> range f" using fin by (rule Max_in) simp
  then obtain K where K: "f K = Max (range f)" by force
  have "f k = f K" if "K \<le> k" for k
    using mono [OF that] Max_ge [OF fin, of "f k"] K by simp
  then show ?thesis by blast
qed

lemma finite_bound: "\<exists>M :: int. \<forall>i<n. f i \<le> M" for n :: nat
proof (induction n)
  case (Suc n)
  then obtain M where "\<forall>i<n. f i \<le> M" by auto
  then have "\<forall>i<Suc n. f i \<le> max M (f n)" by (auto simp: less_Suc_eq)
  then show ?case by blast
qed simp

lemma clock_grows:
  fixes c :: "nat \<Rightarrow> int"
  assumes "0 < c 0" "\<And>k. c k < c (Suc k)"
  shows "int k < c k"
proof (induction k)
  case (Suc k)
  then show ?case using assms(2) [of k] by simp
qed (simp add: assms(1))

text \<open>A clock that is past zero and rises from round to round.\<close>

definition rising :: "shut_answers \<Rightarrow> bool" where
  "rising w \<longleftrightarrow> 0 < monotonic_ms (fst (w 0)) \<and> (\<forall>k. monotonic_ms (fst (w k)) < monotonic_ms (fst (w (Suc k))))"

lemma rising_gt: "rising w \<Longrightarrow> int k < monotonic_ms (fst (w k))"
  unfolding rising_def by (rule clock_grows) auto

lemma round_le:
  assumes "length (sh_slots (fst z)) = nsvc (snd z)" "monotonic_ms (fst u) \<noteq> 0"
  shows "sh_le z (shut_begin cl u z)" "sh_le (shut_begin cl u z) (shut_rest (fst u) (shut_begin cl u z))"
proof -
  obtain st e where y: "shut_begin cl u z = (st, e)" by (cases "shut_begin cl u z")
  obtain st' e' where r: "shut_rest (fst u) (st, e) = (st', e')" by (cases "shut_rest (fst u) (st, e)")
  show b: "sh_le z (shut_begin cl u z)" using begin_le [OF assms(1), of cl u] by simp
  then have "length (sh_slots st) = nsvc e" using assms(1) y by (simp add: sh_le_def)
  from rest_le(1) [OF this assms(2) r]
  show "sh_le (shut_begin cl u z) (shut_rest (fst u) (shut_begin cl u z))" by (simp add: y r)
qed

lemma rising_nz: "rising w \<Longrightarrow> monotonic_ms (fst (w k)) \<noteq> 0"
  using rising_gt [of w k] by auto

lemma sh_le_len: "sh_le x y \<Longrightarrow> length (sh_slots (fst x)) = nsvc (snd x) \<Longrightarrow> length (sh_slots (fst y)) = nsvc (snd y)"
  by (simp add: sh_le_def)

lemma states_from:
  assumes "length (sh_slots (fst x)) = nsvc (snd x)" "rising w"
  shows "sh_le x (shut_states cl w x k)"
proof (induction k)
  case (Suc k)
  note r = round_le [OF sh_le_len [OF Suc assms(1)] rising_nz [OF assms(2), of k], of cl]
  from sh_le_trans [OF Suc sh_le_trans [OF r]] show ?case by simp
qed simp

lemma states_le:
  assumes "length (sh_slots (fst x)) = nsvc (snd x)" "rising w"
  shows "sh_le (shut_states cl w x k) (shut_seen cl w x k)" "sh_le (shut_seen cl w x k) (shut_states cl w x (Suc k))"
  using round_le [OF sh_le_len [OF states_from [OF assms, of cl k] assms(1)] rising_nz [OF assms(2), of k], of cl]
  by (simp_all add: shut_seen_def)

lemma states_mono:
  assumes "length (sh_slots (fst x)) = nsvc (snd x)" "rising w" "K \<le> k"
  shows "sh_le (shut_states cl w x K) (shut_states cl w x k)"
  using assms(3)
proof (induction rule: dec_induct)
  case (step k)
  then show ?case using states_le [OF assms(1,2), of cl k] sh_le_trans by blast
qed simp

lemma shut_loop_unroll:
  assumes "\<And>j. j < k \<Longrightarrow> shut_left (fst (shut_seen cl w x j))"
  shows "shut_loop cl w 0 x = shut_loop cl w k (shut_states cl w x k)"
  using assms
proof (induction k)
  case (Suc k)
  then have "shut_loop cl w 0 x = shut_loop cl w k (shut_states cl w x k)" by simp
  also have "\<dots> = shut_loop cl w (Suc k) (shut_states cl w x (Suc k))"
    using Suc.prems [of k] by (subst shut_loop.simps) (simp add: shut_seen_def Let_def)
  finally show ?case .
qed simp

lemma shut_loop_stops:
  assumes "\<not> shut_left (fst (shut_seen cl w x k))"
  obtains m e' where "shut_loop cl w 0 x = Some (fst (shut_seen cl w x m), e')" "\<not> shut_left (fst (shut_seen cl w x m))"
    "\<And>j. j < m \<Longrightarrow> shut_left (fst (shut_seen cl w x j))" "services e' = services (snd (shut_seen cl w x m))"
proof -
  define m where "m = (LEAST k. \<not> shut_left (fst (shut_seen cl w x k)))"
  have m: "\<not> shut_left (fst (shut_seen cl w x m))" unfolding m_def using assms by (rule LeastI)
  have before: "shut_left (fst (shut_seen cl w x j))" if "j < m" for j
    using not_less_Least that unfolding m_def by blast
  have "shut_loop cl w 0 x = shut_loop cl w m (shut_states cl w x m)"
    by (rule shut_loop_unroll) (rule before)
  also have "\<dots> = Some (fst (shut_seen cl w x m), shut_log (''services down in '' @
      show_int (monotonic_ms (fst (w m)) - sh_start (fst (shut_seen cl w x m))) @ '' ms'') (snd (shut_seen cl w x m)))"
    using m by (subst shut_loop.simps) (simp add: shut_seen_def Let_def)
  finally show thesis by (rule that [OF _ m before]) (simp_all add: shut_log_def)
qed

lemma marks_stable:
  assumes len: "length (sh_slots (fst x)) = nsvc (snd x)" and ris: "rising w"
    and same: "\<And>k. K \<le> k \<Longrightarrow> total_marks (fst (shut_states cl w x k)) = total_marks (fst (shut_states cl w x K))"
    and i: "i < nsvc (snd x)" and k: "K \<le> k"
  shows "term_at (slot (fst (shut_states cl w x k)) i) = term_at (slot (fst (shut_states cl w x K)) i) \<and>
    stop_at (slot (fst (shut_states cl w x k)) i) = stop_at (slot (fst (shut_states cl w x K)) i) \<and>
    post_at (slot (fst (shut_states cl w x k)) i) = post_at (slot (fst (shut_states cl w x K)) i)"
proof -
  have xK: "sh_le x (shut_states cl w x K)" by (rule states_from [OF len ris])
  have n: "i < nsvc (snd (shut_states cl w x K))" using xK i by (simp add: sh_le_def)
  have le: "sh_le (shut_states cl w x K) (shut_states cl w x k)" by (rule states_mono [OF len ris k])
  have "marks (slot (fst (shut_states cl w x k)) i) = marks (slot (fst (shut_states cl w x K)) i)"
    by (rule sh_le_total(2) [OF le sh_le_len [OF xK len] same [OF k] n])
  moreover have "slot_le (slot (fst (shut_states cl w x K)) i) (slot (fst (shut_states cl w x k)) i)"
    using le n by (simp add: sh_le_def)
  ultimately show ?thesis using marks_same by blast
qed

text \<open>Once no more marks are set and every grace has passed, whoever is alive waits for a \<^verbatim>\<open>stop_first\<close> service
  or for one that depends on it.\<close>

lemma quiet_round:
  assumes len: "length (sh_slots (fst x)) = nsvc (snd x)" and ris: "rising w"
    and same: "\<And>k. K \<le> k \<Longrightarrow> total_marks (fst (shut_states cl w x k)) = total_marks (fst (shut_states cl w x K))"
    and k: "K \<le> k" "i < nsvc (snd x)" and al: "sh_alive (slot (fst (shut_seen cl w x k)) i)"
    and late: "\<And>t. t \<in> {term_at (slot (fst (shut_states cl w x K)) i), stop_at (slot (fst (shut_states cl w x K)) i),
        post_at (slot (fst (shut_states cl w x K)) i)} \<Longrightarrow> t + stop_grace_ms (sv (snd x) i) \<le> monotonic_ms (fst (w k))"
  shows "(shut_hold (fst (shut_seen cl w x k)) (snd (shut_seen cl w x k)) \<and> \<not> has_flag (sv (snd x) i) SVC_STOP_FIRST) \<or>
    shut_blocked (monotonic_ms (fst (w k)))
      ((fst (shut_seen cl w x k))\<lparr>sh_start := sh_start (fst (shut_states cl w x (Suc k)))\<rparr>) (snd (shut_seen cl w x k)) i"
proof -
  define z where "z = shut_states cl w x k"
  obtain st e where y: "shut_seen cl w x k = (st, e)" by (cases "shut_seen cl w x k")
  obtain st' e' where s: "shut_states cl w x (Suc k) = (st', e')" by (cases "shut_states cl w x (Suc k)")
  have r: "shut_rest (fst (w k)) (st, e) = (st', e')" using s y by (simp add: shut_seen_def)
  have xz: "sh_le x z" and zy: "sh_le z (st, e)" and ys: "sh_le (st, e) (st', e')"
    using states_from [OF len ris] states_le [OF len ris, of cl k] y s by (simp_all add: z_def)
  have xy: "sh_le x (st, e)" by (rule sh_le_trans [OF xz zy])
  have lz: "length (sh_slots (fst z)) = nsvc (snd z)" by (rule sh_le_len [OF xz len])
  have ly: "length (sh_slots st) = nsvc e" using sh_le_len [OF zy lz] by simp
  have n: "i < nsvc (snd z)" "i < nsvc e" using k(2) xz xy by (simp_all add: sh_le_def)
  have plan: "shut_plan (sv (snd x) i) (sv e i)" "shut_plan (sv (snd x) i) (sv (snd z) i)"
    using xy xz k(2) by (simp_all add: sh_le_def)
  have t: "total_marks st' = total_marks (fst z)" using same [of k] same [of "Suc k"] k(1) s by (simp add: z_def)
  then have t': "total_marks st = total_marks (fst z)" "total_marks st' = total_marks st"
    using sh_le_total(1) [OF zy lz] sh_le_total(1) [OF ys] ly by simp_all
  have m: "marks (slot st' i) = marks (slot st i)" "marks (slot st i) = marks (slot (fst z) i)"
    using sh_le_total(2) [OF ys, of i] sh_le_total(2) [OF zy lz, of i] t' ly n by simp_all
  have "slot_le (slot (fst z) i) (slot st i)" using zy n by (simp add: sh_le_def)
  note f = marks_same [OF this m(2)]
  have g: "term_at (slot st i) = term_at (slot (fst (shut_states cl w x K)) i) \<and> stop_at (slot st i) = stop_at (slot (fst (shut_states cl w x K)) i) \<and>
      post_at (slot st i) = post_at (slot (fst (shut_states cl w x K)) i)"
    using f marks_stable [OF len ris same k(2) k(1)] by (simp add: z_def)
  have past: "term_at (slot st i) + stop_grace_ms (sv (snd x) i) \<le> monotonic_ms (fst (w k))"
    "stop_at (slot st i) + stop_grace_ms (sv (snd x) i) \<le> monotonic_ms (fst (w k))"
    "post_at (slot st i) + stop_grace_ms (sv (snd x) i) \<le> monotonic_ms (fst (w k))"
    using late g by simp_all
  have al': "sh_alive (slot st i)" using al y by simp
  have "alive_why (monotonic_ms (fst (w k))) (stop_grace_ms (sv (snd z) i)) (slot st i)"
    using begin_le [OF lz, of cl "w k"] n y by (simp add: shut_seen_def z_def)
  then have "\<not> sh_killed (slot st i)"
    using al' past plan(2) by (auto simp: alive_why_def shut_plan_def)
  moreover have "must_wait (fst (w k)) (st\<lparr>sh_held := shut_hold st e, sh_start := sh_start st'\<rparr>) e i"
    using rest_le(4) [OF ly rising_nz [OF ris] r n(2) al' m(1)] .
  ultimately show ?thesis
    using past plan(1) y s by (auto simp: must_wait_def Let_def shut_plan_def shut_blocked_def)
qed

text \<open>Who depends on whom, as the shutdown reads it.\<close>

definition shut_order :: "engine \<Rightarrow> (nat \<times> nat) set" where
  "shut_order e = {(j, i). j < nsvc e \<and> i < nsvc e \<and> j \<noteq> i \<and> shut_depends_on (groups e) (sv e j) i}"

lemma order_le: "sh_le x y \<Longrightarrow> shut_order (snd y) = shut_order (snd x)"
  by (auto simp: shut_order_def sh_le_def shut_plan_def shut_depends_on_def)

lemma not_all_blocked:
  assumes "acyclic (shut_order e)" "i < nsvc e" "sh_alive (slot st i)"
  obtains m where "m < nsvc e" "sh_alive (slot st m)" "\<not> shut_blocked now st e m"
proof -
  have "finite (shut_order e)"
    by (rule finite_subset [of _ "{..<nsvc e} \<times> {..<nsvc e}"]) (auto simp: shut_order_def)
  then have "wf (shut_order e)" using assms(1) by (rule finite_acyclic_wf)
  then obtain m where "m \<in> {i. i < nsvc e \<and> sh_alive (slot st i)}"
      "\<forall>j. (j, m) \<in> shut_order e \<longrightarrow> j \<notin> {i. i < nsvc e \<and> sh_alive (slot st i)}"
    using assms(2,3) by (elim wfE_min [where x = i and Q = "{i. i < nsvc e \<and> sh_alive (slot st i)}"]) auto
  then show thesis by (intro that [of m]) (auto simp: shut_blocked_def shut_order_def)
qed

lemma held_start:
  assumes len: "length (sh_slots (fst x)) = nsvc (snd x)" and ris: "rising w"
  shows "sh_held (fst (shut_states cl w x (Suc k))) = shut_hold (fst (shut_seen cl w x k)) (snd (shut_seen cl w x k))"
    "shut_hold (fst (shut_seen cl w x k)) (snd (shut_seen cl w x k)) \<or> \<not> sh_held (fst (shut_states cl w x k)) \<Longrightarrow>
     sh_start (fst (shut_states cl w x (Suc k))) = sh_start (fst (shut_states cl w x k))"
proof -
  define z where "z = shut_states cl w x k"
  have lz: "length (sh_slots (fst z)) = nsvc (snd z)" unfolding z_def by (rule sh_le_len [OF states_from [OF len ris] len])
  obtain st e where y: "shut_seen cl w x k = (st, e)" by (cases "shut_seen cl w x k")
  obtain st' e' where s: "shut_states cl w x (Suc k) = (st', e')" by (cases "shut_states cl w x (Suc k)")
  have r: "shut_rest (fst (w k)) (st, e) = (st', e')" using s y by (simp add: shut_seen_def)
  have le: "sh_le z (st, e)" using states_le(1) [OF len ris, of cl k] by (simp add: z_def y)
  have ly: "length (sh_slots st) = nsvc e" using sh_le_len [OF le lz] by simp
  have "sh_held st = sh_held (fst z) \<and> sh_start st = sh_start (fst z)"
  proof -
    define e1 where "e1 = shut_reap cl (snd (w k)) (snd z)"
    have "length (sh_slots (fst z)) = nsvc e1"
      using sh_le_reap [of "fst z" "snd z" cl "snd (w k)"] lz by (simp add: sh_le_def e1_def)
    then show ?thesis
      using survey_pass [of "(fst z, e1)" "fst (w k)"] y
      by (simp add: sh_agree_def shut_seen_def shut_begin_def e1_def z_def split_beta)
  qed
  then show "sh_held (fst (shut_states cl w x (Suc k))) = shut_hold (fst (shut_seen cl w x k)) (snd (shut_seen cl w x k))"
    "shut_hold (fst (shut_seen cl w x k)) (snd (shut_seen cl w x k)) \<or> \<not> sh_held (fst (shut_states cl w x k)) \<Longrightarrow>
     sh_start (fst (shut_states cl w x (Suc k))) = sh_start (fst (shut_states cl w x k))"
    using rest_le(2,3) [OF ly rising_nz [OF ris] r] s y by (auto simp: z_def)
qed

text \<open>Everybody cannot wait for ever: the dependency order has a last one, and a \<^verbatim>\<open>stop_first\<close> service is no
  longer held back by its dependents once \<^verbatim>\<open>SHUT_TOTAL_MS\<close> have passed.\<close>

lemma no_endless_wait:
  assumes len: "length (sh_slots (fst x)) = nsvc (snd x)" and ris: "rising w" and acy: "acyclic (shut_order (snd x))"
    and left: "\<And>k. shut_left (fst (shut_seen cl w x k))"
    and wait: "\<And>k i. L \<le> k \<Longrightarrow> i < nsvc (snd x) \<Longrightarrow> sh_alive (slot (fst (shut_seen cl w x k)) i) \<Longrightarrow>
      (shut_hold (fst (shut_seen cl w x k)) (snd (shut_seen cl w x k)) \<and> \<not> has_flag (sv (snd x) i) SVC_STOP_FIRST) \<or>
      shut_blocked (monotonic_ms (fst (w k)))
        ((fst (shut_seen cl w x k))\<lparr>sh_start := sh_start (fst (shut_states cl w x (Suc k)))\<rparr>) (snd (shut_seen cl w x k)) i"
  shows False
proof -
  define Y where "Y = shut_seen cl w x"
  define start where "start = (\<lambda>k. sh_start (fst (shut_states cl w x k)))"
  have xY: "sh_le x (Y k)" for k
    using sh_le_trans [OF states_from [OF len ris] states_le(1) [OF len ris]] by (simp add: Y_def)
  have n: "nsvc (snd (Y k)) = nsvc (snd x)" "length (sh_slots (fst (Y k))) = nsvc (snd x)" for k
    using xY [of k] len by (simp_all add: sh_le_def)
  have hold: "shut_hold (fst (Y k)) (snd (Y k))" if "L \<le> k" for k
  proof (rule ccontr)
    assume no: "\<not> shut_hold (fst (Y k)) (snd (Y k))"
    obtain i where i: "i < nsvc (snd (Y k))" "sh_alive (slot (fst (Y k)) i)"
      using left [of k] n [of k] by (auto simp: shut_left_def Y_def in_set_conv_nth)
    have "acyclic (shut_order (snd (Y k)))" using acy order_le [OF xY [of k]] by simp
    then obtain m where "m < nsvc (snd (Y k))" "sh_alive (slot (fst (Y k)) m)"
        "\<not> shut_blocked (monotonic_ms (fst (w k))) ((fst (Y k))\<lparr>sh_start := start (Suc k)\<rparr>) (snd (Y k)) m"
      using not_all_blocked [of "snd (Y k)" i "(fst (Y k))\<lparr>sh_start := start (Suc k)\<rparr>"] i by auto
    then show False using wait [OF that, of m] no n by (simp add: Y_def start_def)
  qed
  have const: "start k = start (Suc L)" if "Suc L \<le> k" for k
    using that
  proof (induction rule: dec_induct)
    case (step k)
    then show ?case using held_start(2) [OF len ris, of cl k] hold [of k] by (simp add: start_def Y_def)
  qed simp
  define k where "k = max (Suc L) (nat (start (Suc L) + 12000))"
  have Lk: "L \<le> k" by (simp add: k_def)
  have "start (Suc L) + 12000 < monotonic_ms (fst (w k))" using rising_gt [OF ris, of k] by (simp add: k_def)
  then have "start (Suc k) + 12000 < monotonic_ms (fst (w k))" using const [of "Suc k"] by (simp add: k_def)
  then have nb: "\<not> shut_blocked (monotonic_ms (fst (w k))) ((fst (Y k))\<lparr>sh_start := start (Suc k)\<rparr>) (snd (Y k)) i" for i
    by (simp add: shut_blocked_def)
  obtain i where i: "i < nsvc (snd x)" "sh_alive (slot (fst (Y k)) i)" "has_flag (sv (snd (Y k)) i) SVC_STOP_FIRST"
    using hold [OF Lk] n [of k] by (auto simp: shut_hold_def)
  then have "has_flag (sv (snd x) i) SVC_STOP_FIRST" using xY [of k] by (simp add: sh_le_def shut_plan_def)
  then show False using wait [OF Lk, of i] i nb [of i] by (simp add: Y_def start_def)
qed

lemma shut_finishes:
  assumes len: "length (sh_slots (fst x)) = nsvc (snd x)" and ris: "rising w" and acy: "acyclic (shut_order (snd x))"
  shows "\<exists>k. \<not> shut_left (fst (shut_seen cl w x k))"
proof (rule ccontr)
  assume "\<not> ?thesis"
  then have left: "shut_left (fst (shut_seen cl w x k))" for k by simp
  define X where "X = shut_states cl w x"
  define Y where "Y = shut_seen cl w x"
  define n where "n = nsvc (snd x)"
  have xX: "sh_le x (X k)" and XY: "sh_le (X k) (Y k)" and xY: "sh_le x (Y k)" for k
    using states_from [OF len ris, of cl k] states_le(1) [OF len ris, of cl k] sh_le_trans by (auto simp: X_def Y_def)
  have up: "total_marks (fst (X k)) \<le> total_marks (fst (X (Suc k)))" for k
    using sh_le_total(1) [OF states_mono [OF len ris, of k "Suc k" cl] sh_le_len [OF states_from [OF len ris] len]]
    by (simp add: X_def)
  have bd: "total_marks (fst (X k)) \<le> 4 * n" for k
    using total_marks_le [of "fst (X k)"] xX [of k] len by (simp add: sh_le_def n_def)
  obtain K where K': "\<forall>k. K \<le> k \<longrightarrow> total_marks (fst (X k)) = total_marks (fst (X K))"
    using bounded_mono_stable [of "\<lambda>k. total_marks (fst (X k))", OF up bd] ..
  then have K: "total_marks (fst (X k)) = total_marks (fst (X K))" if "K \<le> k" for k using that by blast
  define f where "f = (\<lambda>i. max (term_at (slot (fst (X K)) i)) (max (stop_at (slot (fst (X K)) i)) (post_at (slot (fst (X K)) i))) +
      stop_grace_ms (sv (snd x) i))"
  obtain M where M: "\<forall>i<n. f i \<le> M" using finite_bound [of n f] by blast
  define L where "L = max K (nat M)"
  have wait: "(shut_hold (fst (Y k)) (snd (Y k)) \<and> \<not> has_flag (sv (snd x) i) SVC_STOP_FIRST) \<or>
      shut_blocked (monotonic_ms (fst (w k))) ((fst (Y k))\<lparr>sh_start := sh_start (fst (X (Suc k)))\<rparr>) (snd (Y k)) i"
    if "L \<le> k" "i < n" "sh_alive (slot (fst (Y k)) i)" for k i
  proof -
    have "M < monotonic_ms (fst (w k))" using rising_gt [OF ris, of k] that(1) by (simp add: L_def nat_le_iff)
    moreover have "f i \<le> M" using M that(2) by blast
    ultimately have "t + stop_grace_ms (sv (snd x) i) \<le> monotonic_ms (fst (w k))"
      if "t \<in> {term_at (slot (fst (X K)) i), stop_at (slot (fst (X K)) i), post_at (slot (fst (X K)) i)}" for t
      using that by (auto simp: f_def)
    moreover have "K \<le> k" using that(1) by (simp add: L_def)
    ultimately show ?thesis
      unfolding X_def Y_def using that(2,3) quiet_round [OF len ris K [unfolded X_def]] by (simp add: X_def Y_def n_def)
  qed
  show False
    by (rule no_endless_wait [OF len ris acy left wait [unfolded X_def Y_def n_def]])
qed

text \<open>Looking at the services does not change which processes they have.\<close>

definition procs_same :: "engine \<Rightarrow> engine \<Rightarrow> bool" where
  "procs_same e e' \<longleftrightarrow> (\<forall>j. child_pid (sv e' j) = child_pid (sv e j) \<and> cgroup_path (sv e' j) = cgroup_path (sv e j))"

lemma procs_same_refl [simp]: "procs_same e e"
  by (simp add: procs_same_def)

lemma procs_same_trans: "procs_same a b \<Longrightarrow> procs_same b c \<Longrightarrow> procs_same a c"
  by (simp add: procs_same_def)

lemma procs_same_emit [simp]: "procs_same e (emit es e') = procs_same e e'" "procs_same e (shut_log m e') = procs_same e e'"
  by (simp_all add: procs_same_def shut_log_def)

lemma procs_same_begin: "procs_same e (fst (stop_cmds_begin env ph i e))"
  using services_stop_cmds_begin [of env ph i e]
  by (cases "i < nsvc e") (auto simp: procs_same_def nth_list_update list_update_beyond)

lemma procs_same_survey_one: "procs_same (snd x) (snd (shut_survey_one env i x))"
proof -
  obtain st e where x: "x = (st, e)" by (cases x)
  have look: "snd (shut_look env i x) = e" by (simp add: shut_look_def x Let_def)
  have post: "procs_same (snd y) (snd (shut_post env now i y))" for y now
    using procs_same_begin [of "snd y" env 2 i] by (cases y) (auto simp: shut_post_def Let_def split: prod.split)
  have wait: "procs_same (snd y) (snd (shut_post_wait now i y))" for y now
    by (cases y) (simp add: shut_post_wait_def Let_def)
  have gone: "procs_same (snd y) (snd (shut_gone now i y))" for y now
    by (cases y) (simp add: shut_gone_def Let_def)
  show ?thesis
    unfolding shut_survey_one_def using look post wait gone x by (metis procs_same_trans snd_conv)
qed

lemma procs_same_survey: "procs_same (snd x) (snd (shut_survey env x))"
proof -
  have "procs_same (snd y) (snd (fold (shut_survey_one env) js y))" for js y
  proof (induction js arbitrary: y)
    case (Cons j js)
    then show ?case using procs_same_survey_one procs_same_trans by (metis fold_simps(2))
  qed simp
  then show ?thesis by (simp add: shut_survey_def)
qed

lemma targets_same: "procs_same e e' \<Longrightarrow> svc_signal_all env (sv e' j) sig = svc_signal_all env (sv e j) sig"
proof -
  assume "procs_same e e'"
  then have "child_pid (sv e' j) = child_pid (sv e j)" "cgroup_path (sv e' j) = cgroup_path (sv e j)"
    by (simp_all add: procs_same_def)
  then show ?thesis unfolding svc_signal_all_def svc_targets_def by (simp only:)
qed

lemma seen_dead:
  assumes len: "length (sh_slots (fst x)) = nsvc (snd x)" and ris: "rising w" and i: "i < nsvc (snd x)"
    and dead: "\<not> sh_alive (slot (fst (shut_seen cl w x k)) i)"
  shows "sh_killed (slot (fst (shut_seen cl w x k)) i) \<or>
    snd (svc_signal_all (fst (w k)) (sv (snd (shut_seen cl w x k)) i) 0) = 0"
proof -
  define z where "z = shut_states cl w x k"
  define e1 where "e1 = shut_reap cl (snd (w k)) (snd z)"
  have xz: "sh_le x z" unfolding z_def by (rule states_from [OF len ris])
  have lz: "length (sh_slots (fst z)) = nsvc (snd z)" by (rule sh_le_len [OF xz len])
  have le: "length (sh_slots (fst z)) = nsvc e1" "nsvc e1 = nsvc (snd z)"
    using sh_le_reap [of "fst z" "snd z" cl "snd (w k)"] lz by (simp_all add: sh_le_def e1_def)
  have y: "shut_seen cl w x k = shut_survey (fst (w k)) (fst z, e1)"
    by (simp add: shut_seen_def shut_begin_def z_def e1_def split_beta)
  have "i < nsvc e1" using i xz le by (simp add: sh_le_def)
  then have "dead_why (fst (w k)) (sv e1 i) (slot (fst (shut_seen cl w x k)) i)"
    using survey_pass [of "(fst z, e1)" "fst (w k)"] le(1) y by (simp add: survey_rel_def)
  then show ?thesis
    using dead targets_same [OF procs_same_survey [of "(fst z, e1)" "fst (w k)"]] y by (simp add: dead_why_def)
qed

section \<open>What the shutdown does to the services\<close>

text \<open>\<^verbatim>\<open>emits P e e'\<close>: the effects added to the trace satisfy \<^verbatim>\<open>P\<close>.\<close>

definition emits :: "(effect \<Rightarrow> bool) \<Rightarrow> engine \<Rightarrow> engine \<Rightarrow> bool" where
  "emits P e e' \<longleftrightarrow> (\<exists>es. trace e' = trace e @ es \<and> (\<forall>x\<in>set es. P x))"

lemma emits_refl [simp]: "emits P e e"
  by (simp add: emits_def)

lemma emits_trans: "emits P a b \<Longrightarrow> emits P b c \<Longrightarrow> emits P a c"
  unfolding emits_def by (metis Un_iff append_assoc set_append)

lemma emits_emit: "emits P e e' \<Longrightarrow> \<forall>x\<in>set es. P x \<Longrightarrow> emits P e (emit es e')"
  by (auto simp: emits_def emit_def)

lemma emits_mono: "emits P e e' \<Longrightarrow> (\<And>x. P x \<Longrightarrow> Q x) \<Longrightarrow> emits Q e e'"
  unfolding emits_def by blast

lemma emits_drop: "emits P e e' \<Longrightarrow> x \<in> set (drop (length (trace e)) (trace e')) \<Longrightarrow> P x"
  by (auto simp: emits_def)

text \<open>The effects that stop a service: SIGTERM, the start of \<^verbatim>\<open>exec_stop\<close>, and the kill of its cgroup.\<close>

fun stops_service :: "effect \<Rightarrow> bool" where
  "stops_service (Kill p sig) \<longleftrightarrow> sig = SIGTERM"
| "stops_service (RunFork (FkStop ph) nm p) \<longleftrightarrow> ph = 1"
| "stops_service (CgKill cg) \<longleftrightarrow> True"
| "stops_service x \<longleftrightarrow> False"

text \<open>The turn of service \<^verbatim>\<open>i\<close> has come: it is alive, no \<^verbatim>\<open>stop_first\<close> service it is not one of is still
  alive, and no other service that is alive depends on it, unless the total time is over.\<close>

definition its_turn :: "int \<Rightarrow> shut_t \<Rightarrow> engine \<Rightarrow> nat \<Rightarrow> bool" where
  "its_turn now st e i \<longleftrightarrow>
     i < nsvc e \<and> sh_alive (slot st i) \<and> term_at (slot st i) = 0 \<and>
     (has_flag (sv e i) SVC_STOP_FIRST \<or> (\<forall>j<nsvc e. sh_alive (slot st j) \<longrightarrow> \<not> has_flag (sv e j) SVC_STOP_FIRST)) \<and>
     (now - sh_start st < SHUT_TOTAL_MS \<longrightarrow>
        (\<forall>j<nsvc e. j \<noteq> i \<and> sh_alive (slot st j) \<longrightarrow> \<not> shut_depends_on (groups e) (sv e j) i))"

definition stop_justified :: "sysenv \<Rightarrow> shut_t \<Rightarrow> engine \<Rightarrow> effect \<Rightarrow> bool" where
  "stop_justified env st e x \<longleftrightarrow>
     (\<forall>p. x = Kill p SIGTERM \<longrightarrow> (\<exists>i. its_turn (monotonic_ms env) st e i \<and> p \<in> set (svc_targets env (sv e i)))) \<and>
     (\<forall>nm p. x = RunFork (FkStop 1) nm p \<longrightarrow> (\<exists>i. its_turn (monotonic_ms env) st e i \<and> nm = svc_name (sv e i))) \<and>
     (\<forall>cg. x = CgKill cg \<longrightarrow> (\<exists>i<nsvc e. cg = cgroup_path (sv e i) \<and> sh_alive (slot st i) \<and>
        term_at (slot st i) \<noteq> 0 \<and> stop_grace_ms (sv e i) \<le> monotonic_ms env - term_at (slot st i)))"

lemma quiet_justified: "\<not> stops_service x \<Longrightarrow> stop_justified env st e x"
  by (auto simp: stop_justified_def)

abbreviation quiet :: "engine \<Rightarrow> engine \<Rightarrow> bool" where
  "quiet \<equiv> emits (\<lambda>x. \<not> stops_service x)"

lemma quiet_log: "quiet e (shut_log m e)"
  unfolding shut_log_def by (rule emits_emit) simp_all

lemma quiet_group: "quiet e (emit (kill_group p) e)"
  by (rule emits_emit) (simp_all add: kill_group_def)

lemma begin_emits:
  assumes "\<And>p. ph = 1 \<Longrightarrow> P (RunFork (FkStop ph) (svc_name (sv e i)) p)" "\<And>x. \<not> stops_service x \<Longrightarrow> P x"
  shows "emits P e (fst (stop_cmds_begin env ph i e))"
proof -
  have "P (RunFork (FkStop ph) (svc_name (sv e i)) p)" for p using assms by (cases "ph = 1") auto
  then show ?thesis
    by (auto simp: stop_cmds_begin_def Let_def log_svc_def service_log_def emits_def emit_def at_def intro: assms(2))
qed

lemma quiet_reap: "trace (shut_reap cl ps e) = trace e"
proof (induction ps arbitrary: e)
  case (Cons p ps)
  have "trace (shut_reap_one p e) = trace e" by (simp add: shut_reap_one_def at_def split: option.split)
  then show ?case using Cons by (simp add: shut_reap_def)
qed (simp add: shut_reap_def)

lemma quiet_survey_one: "quiet (snd x) (snd (shut_survey_one env i x))"
proof -
  have look: "snd (shut_look env i x) = snd x" by (simp add: shut_look_def Let_def split: prod.split)
  have post: "quiet (snd y) (snd (shut_post env now i y))" for y now
  proof -
    obtain st e where y: "y = (st, e)" by (cases y)
    obtain e' b where sb: "stop_cmds_begin env 2 i e = (e', b)" by (cases "stop_cmds_begin env 2 i e")
    have "quiet e e'" using begin_emits [of 2 "\<lambda>x. \<not> stops_service x" e i env] sb by simp
    then show ?thesis by (simp add: y shut_post_def Let_def sb quiet_group)
  qed
  have wait: "quiet (snd y) (snd (shut_post_wait now i y))" for y now
    by (cases y) (simp add: shut_post_wait_def Let_def quiet_group)
  have gone: "quiet (snd y) (snd (shut_gone now i y))" for y now
    by (cases y) (simp add: shut_gone_def Let_def quiet_log)
  show ?thesis
    unfolding shut_survey_one_def
    using emits_trans [OF emits_trans [OF post wait] gone] look by metis
qed

lemma quiet_survey: "quiet (snd x) (snd (shut_survey env x))"
proof -
  have "quiet (snd y) (snd (fold (shut_survey_one env) js y))" for js y
  proof (induction js arbitrary: y)
    case (Cons j js)
    from emits_trans [OF quiet_survey_one Cons.IH] show ?case by simp
  qed simp
  then show ?thesis by (simp add: shut_survey_def)
qed

text \<open>What service \<^verbatim>\<open>i\<close>'s step may do, and that the step does no more.\<close>

definition justified_at :: "sysenv \<Rightarrow> shut_t \<Rightarrow> engine \<Rightarrow> nat \<Rightarrow> effect \<Rightarrow> bool" where
  "justified_at env st e i x \<longleftrightarrow>
     (\<forall>p. x = Kill p SIGTERM \<longrightarrow> its_turn (monotonic_ms env) st e i \<and> p \<in> set (svc_targets env (sv e i))) \<and>
     (\<forall>nm p. x = RunFork (FkStop 1) nm p \<longrightarrow> its_turn (monotonic_ms env) st e i \<and> nm = svc_name (sv e i)) \<and>
     (\<forall>cg. x = CgKill cg \<longrightarrow> cg = cgroup_path (sv e i) \<and> sh_alive (slot st i) \<and>
        term_at (slot st i) \<noteq> 0 \<and> stop_grace_ms (sv e i) \<le> monotonic_ms env - term_at (slot st i))"

lemma quiet_justified_at: "\<not> stops_service x \<Longrightarrow> justified_at env st e i x"
  by (auto simp: justified_at_def)

lemma quiet_at: "quiet e' e'' \<Longrightarrow> emits (justified_at env st e i) e' e''"
  by (erule emits_mono) (rule quiet_justified_at)

lemma kill_tree_emits:
  assumes "\<And>x. \<not> stops_service x \<Longrightarrow> P x" "P (CgKill (cgroup_path (sv e i)))"
  shows "emits P e (kill_tree env i e)"
proof -
  obtain s' evs effs where k: "svc_cgroup_kill_tree env (sv e i) (evictions e) = (s', evs, effs)"
    by (cases "svc_cgroup_kill_tree env (sv e i) (evictions e)")
  have "P x" if "x \<in> set effs" for x
  proof -
    have "effs = snd (service_cgroup_kill env (sv e i))"
      using k by (simp add: svc_cgroup_kill_tree_def Let_def split: prod.splits)
    then have "\<not> stops_service x \<or> x = CgKill (cgroup_path (sv e i))"
      using that by (auto simp: service_cgroup_kill_def service_cgroup_release_partition_def Let_def split: if_splits option.splits)
    then show ?thesis using assms by blast
  qed
  then show ?thesis by (auto simp: kill_tree_def k emits_def emit_def)
qed

lemma shut_kill_emits:
  assumes "sh_alive (slot st i)" "term_at (slot st i) \<noteq> 0" "stop_grace_ms (sv e i) \<le> monotonic_ms env - term_at (slot st i)"
  shows "emits (justified_at env st e i) e (shut_kill env i e)"
proof -
  have "emits (justified_at env st e i) e (kill_tree env i (shut_log m e))" for m
  proof (rule emits_trans [OF quiet_at [OF quiet_log] kill_tree_emits])
    show "justified_at env st e i (CgKill (cgroup_path (sv (shut_log m e) i)))"
      using assms by (simp add: justified_at_def shut_log_def)
  qed (rule quiet_justified_at)
  then show ?thesis
    unfolding shut_kill_def Let_def by (auto intro!: emits_emit quiet_justified_at)
qed

lemma shut_turn_emits:
  assumes "its_turn (monotonic_ms env) st e i"
  shows "emits (justified_at env st e i) e (fst (snd (shut_turn env i (st, e, line))))"
proof -
  obtain e1 b where sc: "shut_stop_cmds env i st e = (e1, b)" by (cases "shut_stop_cmds env i st e")
  have "emits (justified_at env st e i) e (fst (stop_cmds_begin env 1 i e))"
    using assms by (intro begin_emits) (auto simp: justified_at_def)
  then have e1: "emits (justified_at env st e i) e e1"
    using sc by (auto simp: shut_stop_cmds_def split: if_splits)
  have same: "sv e1 i = sv e i" if "\<not> b"
    using sc that by (auto simp: shut_stop_cmds_def stop_cmds_begin_def Let_def split: if_splits)
  have sig: "\<forall>x\<in>set (fst (svc_signal_all env (sv e i) SIGTERM)). justified_at env st e i x"
    using assms by (auto simp: svc_signal_all_def justified_at_def)
  have sent: "emits (justified_at env st e i) e (fst (snd (shut_term env i (st, d, line))))"
    if "emits (justified_at env st e i) e d" "sv d i = sv e i" for d
    using emits_emit [OF that(1) sig] that(2) by (simp add: shut_term_def Let_def)
  have "emits (justified_at env st e i) e (emit (kill_group p) e1)" for p
    by (rule emits_trans [OF e1 quiet_at [OF quiet_group]])
  then show ?thesis
    using e1 same sent by (cases b) (simp_all add: shut_turn_def Let_def sc)
qed

lemma shut_stop_one_emits:
  assumes "i < nsvc e" "sh_held st = shut_hold st e"
  shows "emits (justified_at env st e i) e (fst (snd (shut_stop_one env i (st, e, line))))"
proof -
  have "its_turn (monotonic_ms env) st e i"
    if "sh_alive (slot st i)" "term_at (slot st i) = 0" "\<not> (sh_held st \<and> \<not> has_flag (sv e i) SVC_STOP_FIRST)"
      "\<not> shut_blocked (monotonic_ms env) st e i"
    using that assms by (auto simp: its_turn_def shut_blocked_def shut_hold_def)
  then show ?thesis
    using shut_kill_emits [of st i e env] shut_turn_emits [of env st e i line]
    by (simp add: shut_stop_one_def Let_def)
qed

lemma its_turn_agree:
  assumes "sh_agree alive_same (st, e) (st', e')" "sv e' i = sv e i" "slot st' i = slot st i"
  shows "its_turn now st' e' i = its_turn now st e i"
proof -
  have "sh_alive (slot st' j) = sh_alive (slot st j) \<and> svc_flags (sv e' j) = svc_flags (sv e j) \<and>
      shut_depends_on (groups e') (sv e' j) i = shut_depends_on (groups e) (sv e j) i" if "j < nsvc e" for j
    using assms(1) that by (simp add: sh_agree_def alive_same_def shut_plan_def shut_depends_on_def)
  moreover have "nsvc e' = nsvc e" "sh_start st' = sh_start st" using assms(1) by (simp_all add: sh_agree_def)
  ultimately show ?thesis using assms(2,3) by (simp add: its_turn_def)
qed

lemma justified_at_sound: "i < nsvc e \<Longrightarrow> justified_at env st e i x \<Longrightarrow> stop_justified env st e x"
  unfolding stop_justified_def justified_at_def by blast

lemma stop_fold_emits:
  assumes len: "length (sh_slots st) = nsvc e" and now: "monotonic_ms env \<noteq> 0" and held: "sh_held st = shut_hold st e"
    and m: "m \<le> nsvc e"
  shows "emits (stop_justified env st e) e (fst (snd (fold (shut_stop_one env) [0..<m] (st, e, None))))"
  using m
proof (induction m)
  case (Suc m)
  obtain st1 e1 l where y: "fold (shut_stop_one env) [0..<m] (st, e, None) = (st1, e1, l)"
    by (cases "fold (shut_stop_one env) [0..<m] (st, e, None)")
  have ag: "sh_agree alive_same (st, e) (st1, e1)" "sv e1 m = sv e m" "slot st1 m = slot st m"
    using stop_prefix [OF len now, of m] Suc.prems y by (simp_all add: Let_def pr2_def)
  have "sh_alive (slot st1 j) = sh_alive (slot st j) \<and> svc_flags (sv e1 j) = svc_flags (sv e j)" if "j < nsvc e" for j
    using ag(1) that by (simp add: sh_agree_def alive_same_def shut_plan_def)
  then have hold: "sh_held st1 = shut_hold st1 e1" and n: "nsvc e1 = nsvc e"
    using ag(1) held by (auto simp: sh_agree_def shut_hold_def)
  have "emits (justified_at env st1 e1 m) e1 (fst (snd (shut_stop_one env m (st1, e1, l))))"
    using Suc.prems n hold by (intro shut_stop_one_emits) simp_all
  moreover have "justified_at env st1 e1 m = justified_at env st e m"
    by (rule ext) (simp add: justified_at_def its_turn_agree [OF ag] ag(2,3))
  ultimately have "emits (justified_at env st e m) e1 (fst (snd (shut_stop_one env m (st1, e1, l))))" by simp
  then have "emits (stop_justified env st e) e1 (fst (snd (shut_stop_one env m (st1, e1, l))))"
    by (rule emits_mono) (rule justified_at_sound, use Suc.prems in simp_all)
  then show ?case using Suc y by (auto intro: emits_trans)
qed simp

text \<open>The state a round's stops are decided in: the survey's, with the hold and the start of its phase.\<close>

definition shut_decide :: "(int \<Rightarrow> bool) \<Rightarrow> shut_answers \<Rightarrow> shut_t \<times> engine \<Rightarrow> nat \<Rightarrow> shut_t \<times> engine" where
  "shut_decide claimed w x k = shut_set_hold (fst (w k)) (shut_seen claimed w x k)"

lemma decide_held:
  "sh_held (fst (shut_set_hold env y)) = shut_hold (fst (shut_set_hold env y)) (snd (shut_set_hold env y)) \<and>
   sh_slots (fst (shut_set_hold env y)) = sh_slots (fst y) \<and> services (snd (shut_set_hold env y)) = services (snd y) \<and>
   quiet (snd y) (snd (shut_set_hold env y))"
  by (cases y) (auto simp: shut_set_hold_def Let_def shut_hold_def quiet_log, simp_all add: shut_log_def)

lemma round_emits:
  assumes len: "length (sh_slots (fst x)) = nsvc (snd x)" and ris: "rising w"
  shows "emits (\<lambda>y. \<exists>k. stop_justified (fst (w k)) (fst (shut_decide cl w x k)) (snd (shut_decide cl w x k)) y)
    (snd (shut_states cl w x k)) (snd (shut_states cl w x (Suc k)))"
proof -
  let ?P = "\<lambda>y. \<exists>k. stop_justified (fst (w k)) (fst (shut_decide cl w x k)) (snd (shut_decide cl w x k)) y"
  obtain st e where d: "shut_decide cl w x k = (st, e)" by (cases "shut_decide cl w x k")
  have q: "emits ?P a b" if "quiet a b" for a b
    using that by (rule emits_mono) (blast intro: quiet_justified)
  define z where "z = shut_states cl w x k"
  have seen: "quiet (snd z) (snd (shut_seen cl w x k))"
    using quiet_survey [of "(fst z, shut_reap cl (snd (w k)) (snd z))" "fst (w k)"] quiet_reap [of cl "snd (w k)" "snd z"]
    by (simp add: shut_seen_def shut_begin_def z_def split_beta emits_def)
  have h: "sh_held st = shut_hold st e" "sh_slots st = sh_slots (fst (shut_seen cl w x k))"
      "services e = services (snd (shut_seen cl w x k))" "quiet (snd (shut_seen cl w x k)) e"
    using decide_held [of "fst (w k)" "shut_seen cl w x k"] d by (simp_all add: shut_decide_def)
  have "sh_le x (shut_seen cl w x k)"
    by (rule sh_le_trans [OF states_from [OF len ris] states_le(1) [OF len ris]])
  then have l: "length (sh_slots st) = nsvc e" using sh_le_len len h by simp
  obtain st' e' line where f: "fold (shut_stop_one (fst (w k))) [0..<nsvc e] (st, e, None) = (st', e', line)"
    by (cases "fold (shut_stop_one (fst (w k))) [0..<nsvc e] (st, e, None)")
  have "emits (stop_justified (fst (w k)) st e) e e'"
    using stop_fold_emits [OF l rising_nz [OF ris, of k] h(1) order_refl] f by simp
  then have "emits ?P e e'" by (rule emits_mono) (rule exI [of _ k], simp add: d)
  moreover have "snd (shut_states cl w x (Suc k)) = (case line of None \<Rightarrow> e' | Some m \<Rightarrow> shut_log m e')"
    using d f by (simp add: shut_rest_def shut_decide_def shut_seen_def shut_stop_def)
  ultimately show ?thesis
    using emits_trans [OF q [OF emits_trans [OF seen h(4)]]] q [OF quiet_log]
    by (auto simp: z_def split: option.split intro: emits_trans)
qed

lemma shut_loop_result:
  assumes "shut_loop cl w k y = Some r" "y = shut_states cl w x k"
  shows "\<exists>m ms. snd r = shut_log ms (snd (shut_seen cl w x m))"
proof -
  define P :: "(int \<Rightarrow> bool) \<Rightarrow> shut_answers \<Rightarrow> nat \<Rightarrow> shut_t \<times> engine \<Rightarrow> shut_t \<times> engine \<Rightarrow> bool"
    where "P = (\<lambda>cl w k y r. \<forall>x. y = shut_states cl w x k \<longrightarrow> (\<exists>m ms. snd r = shut_log ms (snd (shut_seen cl w x m))))"
  have step: "P cl w k y r"
    if IH: "\<And>cl w k y r. f cl w k y = Some r \<Longrightarrow> P cl w k y r"
      and eq: "(let z = shut_begin cl (w k) y
         in if \<not> shut_left (fst z)
            then Some (fst z, shut_log (''services down in '' @
                   show_int (monotonic_ms (fst (w k)) - sh_start (fst z)) @ '' ms'') (snd z))
            else f cl w (Suc k) (shut_rest (fst (w k)) z)) = Some r" for f cl w k y r
  proof (unfold P_def, intro allI impI)
    fix x assume y: "y = shut_states cl w x k"
    define z where "z = shut_begin cl (w k) y"
    have z: "z = shut_seen cl w x k" using y by (simp add: shut_seen_def z_def)
    show "\<exists>m ms. snd r = shut_log ms (snd (shut_seen cl w x m))"
    proof (cases "shut_left (fst z)")
      case True
      then have "P cl w (Suc k) (shut_rest (fst (w k)) z) r" using eq by (intro IH) (simp add: z_def Let_def)
      moreover have "shut_rest (fst (w k)) z = shut_states cl w x (Suc k)" using y by (simp add: z_def)
      ultimately show ?thesis unfolding P_def by blast
    next
      case False
      then have "snd r = shut_log (''services down in '' @ show_int (monotonic_ms (fst (w k)) - sh_start (fst z)) @ '' ms'') (snd z)"
        using eq by (auto simp: z_def [symmetric])
      then show ?thesis unfolding z by blast
    qed
  qed
  have "P cl w k y r"
    by (rule shut_loop.raw_induct [of P "(((cl, w), k), y)" r, unfolded prod.case, OF step assms(1)])
  then show ?thesis unfolding P_def using assms(2) by blast
qed

lemma run_emits:
  assumes "length (sh_slots (fst x)) = nsvc (snd x)" "rising w"
  shows "emits (\<lambda>y. \<exists>k. stop_justified (fst (w k)) (fst (shut_decide cl w x k)) (snd (shut_decide cl w x k)) y)
    (snd x) (snd (shut_seen cl w x m))"
proof -
  let ?P = "\<lambda>y. \<exists>k. stop_justified (fst (w k)) (fst (shut_decide cl w x k)) (snd (shut_decide cl w x k)) y"
  have "emits ?P (snd x) (snd (shut_states cl w x m))"
  proof (induction m)
    case (Suc m)
    from emits_trans [OF Suc round_emits [OF assms]] show ?case .
  qed simp
  moreover have "quiet (snd (shut_states cl w x m)) (snd (shut_seen cl w x m))"
    using quiet_survey [of "(fst (shut_states cl w x m), shut_reap cl (snd (w m)) (snd (shut_states cl w x m)))" "fst (w m)"]
      quiet_reap [of cl "snd (w m)" "snd (shut_states cl w x m)"]
    by (simp add: shut_seen_def shut_begin_def split_beta emits_def)
  then have "emits ?P (snd (shut_states cl w x m)) (snd (shut_seen cl w x m))"
    by (rule emits_mono) (blast intro: quiet_justified)
  ultimately show ?thesis by (rule emits_trans)
qed

text \<open>C7. Services are stopped in reverse dependency order. Whenever a shutdown sends SIGTERM to a process,
  or starts an \<^verbatim>\<open>exec_stop\<close> list, it is the turn of the service it belongs to in that round: the service
  is alive, it is a \<^verbatim>\<open>stop_first\<close> one or none of those is alive, and before \<^verbatim>\<open>SHUT_TOTAL_MS\<close> have passed no
  other live service depends on it. And a cgroup is killed only when its service was sent SIGTERM at
  least its grace ago and is still alive.\<close>

theorem shutdown_in_order:
  assumes "rising w" "shutdown_ordered claimed w e = Some (st, e')"
    "x \<in> set (drop (length (trace e)) (trace e'))"
  shows "\<exists>k sk ek. (sk, ek) = shut_decide claimed w (shut_init (fst (w 0)) e, e) k \<and> stop_justified (fst (w k)) sk ek x"
proof -
  define y where "y = (shut_init (fst (w 0)) e, e)"
  have len: "length (sh_slots (fst y)) = nsvc (snd y)" by (simp add: y_def shut_init_def)
  obtain m ms where e': "e' = shut_log ms (snd (shut_seen claimed w y m))"
    using shut_loop_result [of claimed w 0 y "(st, e')" y] assms(2) by (auto simp: shutdown_ordered_def y_def)
  define P where "P = (\<lambda>x. \<exists>k. stop_justified (fst (w k)) (fst (shut_decide claimed w y k)) (snd (shut_decide claimed w y k)) x)"
  have "emits P e (snd (shut_seen claimed w y m))"
    using run_emits [OF len assms(1), of claimed m] by (simp add: P_def y_def)
  moreover have "emits P (snd (shut_seen claimed w y m)) e'"
    unfolding e' by (rule emits_mono [OF quiet_log]) (auto simp: P_def intro: quiet_justified)
  ultimately have "P x" using assms(3) by (intro emits_drop [OF emits_trans])
  then show ?thesis unfolding P_def y_def by (metis prod.collapse)
qed


text \<open>A host on which nothing ever dies, with two services, the second depending on the first.\<close>

definition shut_example :: engine where
  "shut_example =
     \<lparr>services = [plain_svc\<lparr>child_pid := 10\<rparr>,
                  plain_svc\<lparr>svc_name := ''b'', child_pid := 11, dep_name := ''a'' # replicate 7 [],
                            dep_idx := 0 # replicate 7 (-1)\<rparr>],
      groups = [], evictions = [], fdstore = [], bus_reporter_seen = False, notify_paused_since = 0,
      ready_event_due = 0, ready_backstop_due = 0, trace = []\<rparr>"

definition shut_clock :: shut_answers where
  "shut_clock k = (plain_env\<lparr>sys_mono := \<lparr>tv_sec = int k + 1, tv_nsec = 0\<rparr>\<rparr>, [])"

lemma shut_clock_rising: "rising shut_clock"
  by (simp add: rising_def shut_clock_def monotonic_ms_def ts_ms_def)

lemma shut_example_order: "shut_order shut_example \<subseteq> {(1, 0)}"
proof -
  have "\<not> shut_depends_on (groups shut_example) (sv shut_example 0) 1" by code_simp
  moreover have "nsvc shut_example = 2" by (simp add: shut_example_def)
  ultimately show ?thesis by (auto simp: shut_order_def less_2_cases_iff)
qed


text \<open>The same table on a host where a service dies on SIGTERM: the second before the first.\<close>

definition shut_dying :: shut_answers where
  "shut_dying k = ((fst (shut_clock k))\<lparr>sys_alive := (\<lambda>p. k = 0 \<or> (k = 1 \<and> p = 10))\<rparr>, [])"

lemma shut_dying_run:
  "map_option (\<lambda>(st, e'). drop (length (trace shut_example)) (trace e')) (shutdown_ordered (\<lambda>_. False) shut_dying shut_example) =
   Some [Kill 11 SIGTERM, Warn ''stop 1 (+0 ms): b'', Warn ''b down at +1000 ms (1000 ms after SIGTERM)'',
         Kill 10 SIGTERM, Warn ''stop 2 (+1000 ms): a'', Warn ''a down at +2000 ms (1000 ms after SIGTERM)'',
         Warn ''services down in 2000 ms'']"
  by code_simp

theorem shutdown_in_order_witness:
  "rising shut_dying \<and>
   (\<exists>st e'. shutdown_ordered (\<lambda>_. False) shut_dying shut_example = Some (st, e') \<and>
     Kill 10 SIGTERM \<in> set (drop (length (trace shut_example)) (trace e')) \<and>
     (\<exists>k sk ek. (sk, ek) = shut_decide (\<lambda>_. False) shut_dying (shut_init (fst (shut_dying 0)) shut_example, shut_example) k \<and>
       stop_justified (fst (shut_dying k)) sk ek (Kill 10 SIGTERM)))"
proof -
  have r: "rising shut_dying"
    using shut_clock_rising by (simp add: rising_def shut_dying_def monotonic_ms_def)
  obtain st e' where e': "shutdown_ordered (\<lambda>_. False) shut_dying shut_example = Some (st, e')"
      "Kill 10 SIGTERM \<in> set (drop (length (trace shut_example)) (trace e'))"
    using shut_dying_run by (auto simp: map_option_eq_Some)
  show ?thesis using r e' shutdown_in_order [OF r e'] by blast
qed

end
