(* ===== verification/SI_Words.thy ===== *)
theory SI_Words
  imports SI_Prelude "HOL-Library.Monad_Syntax"
begin

text \<open>
  The text routines of \<^verbatim>\<open>service.c\<close> between a configuration file and a program's arguments: the
  command-line splitter with its quotes, the expansion of \<^verbatim>\<open>$NAME\<close> and \<^verbatim>\<open>${NAME}\<close>, and the reader of
  an \<^verbatim>\<open>env_file=\<close>. A \<^verbatim>\<open>char *\<close> that walks a buffer is the rest of the string; \<^verbatim>\<open>getenv\<close> is a parameter.
  A failed \<^verbatim>\<open>malloc\<close> is not modelled.
\<close>

section \<open>Splitting a command line\<close>

abbreviation (input) SQ :: char where "SQ \<equiv> CHR 0x27"
abbreviation (input) DQ :: char where "DQ \<equiv> CHR 0x22"
abbreviation (input) BS :: char where "BS \<equiv> CHR 0x5C"

definition word_space :: "char \<Rightarrow> bool" where
  "word_space c \<longleftrightarrow> c = CHR '' '' \<or> c = CHR 0x09 \<or> c = CHR 0x0A \<or> c = CHR 0x0D"

text \<open>The text of a double-quoted part after its opening quote and what follows the closing one, \<^verbatim>\<open>None\<close>
  when the string ends first.\<close>

fun dq_part :: "string \<Rightarrow> string \<times> string option" where
  "dq_part [] = ([], None)"
| "dq_part [c] = (if c = DQ then ([], Some []) else ([c], None))"
| "dq_part (c # d # s) =
     (if c = DQ then ([], Some (d # s))
      else if c = BS then (let (w, r) = dq_part s in (d # w, r))
      else (let (w, r) = dq_part (d # s) in (c # w, r)))"

definition sq_part :: "string \<Rightarrow> string \<times> string option" where
  "sq_part s =
     (takeWhile (\<lambda>c. c \<noteq> SQ) s,
      case dropWhile (\<lambda>c. c \<noteq> SQ) s of [] \<Rightarrow> None | q # r \<Rightarrow> Some r)"

lemma dq_part_shorter: "dq_part s = (w, Some r) \<Longrightarrow> length r < length s"
  by (induction s arbitrary: w rule: dq_part.induct) (auto split: if_splits list.splits prod.splits)

lemma sq_part_shorter: "sq_part s = (w, Some r) \<Longrightarrow> length r < length s"
  using length_dropWhile_le [of "\<lambda>c. c \<noteq> SQ" s] by (auto simp: sq_part_def split: list.splits)

text \<open>One word: the loop over \<^verbatim>\<open>*s && !strchr(" \t\n\r", *s)\<close>, with the rest of the string;
  \<^verbatim>\<open>None\<close> is the jump to \<^verbatim>\<open>bad\<close>.\<close>

function one_word :: "bool \<Rightarrow> string \<Rightarrow> (string \<times> string) option" where
  "one_word relax [] = Some ([], [])"
| "one_word relax (c # s) =
     (if word_space c then Some ([], c # s)
      else if c = SQ then
        (case sq_part s of
           (w, None) \<Rightarrow> if relax then Some (w, []) else None
         | (w, Some r) \<Rightarrow> map_option (apfst ((@) w)) (one_word relax r))
      else if c = DQ then
        (case dq_part s of
           (w, None) \<Rightarrow> if relax then Some (w, []) else None
         | (w, Some r) \<Rightarrow> map_option (apfst ((@) w)) (one_word relax r))
      else if c = BS \<and> s \<noteq> [] then map_option (apfst ((#) (hd s))) (one_word relax (tl s))
      else map_option (apfst ((#) c)) (one_word relax s))"
  by pat_completeness auto
termination
  by (relation "measure (\<lambda>(r, s). length s)")
     (auto dest!: sq_part_shorter [OF sym] dq_part_shorter [OF sym])

declare one_word.simps [simp del]
lemmas one_word_Nil [simp] = one_word.simps(1)

primrec split_words :: "nat \<Rightarrow> bool \<Rightarrow> string \<Rightarrow> string list option" where
  "split_words 0 relax s = (if dropWhile word_space s = [] then Some [] else None)"
| "split_words (Suc n) relax s =
     (let t = dropWhile word_space s in
      if t = [] then Some []
      else do { (w, r) \<leftarrow> one_word relax t;
                ws \<leftarrow> split_words n relax r;
                Some (w # ws) })"

definition service_split_cmdline :: "nat \<Rightarrow> string \<Rightarrow> string list option" where
  "service_split_cmdline mx s = split_words mx False s"

section \<open>Expanding arguments\<close>

definition env_name_ok :: "string \<Rightarrow> bool" where
  "env_name_ok s \<longleftrightarrow>
     (case s of
        [] \<Rightarrow> False
      | c # cs \<Rightarrow> (c_isalpha c \<or> c = CHR ''_'') \<and>
                   (\<forall>x\<in>set cs. c_isalpha x \<or> c_isdigit x \<or> x = CHR ''_''))"

text \<open>\<^verbatim>\<open>open_memstream\<close> succeeds. A variable's name is cut to the 255 characters of \<^verbatim>\<open>name\<close>.\<close>

function expand_arg :: "(string \<Rightarrow> string option) \<Rightarrow> string \<Rightarrow> string" where
  "expand_arg getenv [] = []"
| "expand_arg getenv (c # s) =
     (if c = CHR ''$'' \<and> s \<noteq> [] \<and> hd s = CHR ''$'' then CHR ''$'' # expand_arg getenv (tl s)
      else if c = CHR ''$'' \<and> s \<noteq> [] \<and> hd s = CHR 0x7B \<and> CHR 0x7D \<in> set (tl s) \<and>
              env_name_ok (takeWhile (\<lambda>x. x \<noteq> CHR 0x7D) (tl s))
      then (case getenv (take 255 (takeWhile (\<lambda>x. x \<noteq> CHR 0x7D) (tl s))) of None \<Rightarrow> [] | Some v \<Rightarrow> v)
           @ expand_arg getenv (drop 1 (dropWhile (\<lambda>x. x \<noteq> CHR 0x7D) (tl s)))
      else c # expand_arg getenv s)"
  by pat_completeness auto
termination
proof (relation "measure (\<lambda>(g, s). length s)", goal_cases)
  case (3 getenv c s)
  then show ?case using length_dropWhile_le [of "\<lambda>x. x \<noteq> CHR 0x7D" "tl s"] by (cases s) auto
qed auto

declare expand_arg.simps(2) [simp del]

fun service_expand_argv :: "(string \<Rightarrow> string option) \<Rightarrow> nat \<Rightarrow> string list \<Rightarrow> string list option" where
  "service_expand_argv getenv mx [] = Some []"
| "service_expand_argv getenv mx (a # as) =
     (if a \<noteq> [] \<and> hd a = CHR ''$'' \<and> env_name_ok (tl a) then
        do { ws \<leftarrow> split_words mx True (case getenv (tl a) of None \<Rightarrow> [] | Some v \<Rightarrow> v);
             rest \<leftarrow> service_expand_argv getenv (mx - length ws) as;
             Some (ws @ rest) }
      else if mx = 0 then None
      else do { rest \<leftarrow> service_expand_argv getenv (mx - 1) as;
                Some (expand_arg getenv a # rest) })"

section \<open>Reading an environment file\<close>

text \<open>The double-quoted part of a value: a backslash before a newline drops both, before one of
  \<^verbatim>\<open>"\`$\<close> it is dropped, before anything else it stays.\<close>

fun env_dq :: "string \<Rightarrow> string \<times> string" where
  "env_dq [] = ([], [])"
| "env_dq [c] = (if c = DQ then ([], []) else ([c], []))"
| "env_dq (c # d # s) =
     (if c = DQ then ([], d # s)
      else if c = BS \<and> d = CHR 0x0A then env_dq s
      else if c = BS \<and> d \<in> {DQ, BS, CHR 0x60, CHR ''$''} then (let (w, r) = env_dq s in (d # w, r))
      else (let (w, r) = env_dq (d # s) in (c # w, r)))"

lemma length_env_dq: "env_dq s = (w, r) \<Longrightarrow> length w + length r \<le> length s"
  by (induction s arbitrary: w r rule: env_dq.induct)
     (fastforce split: if_splits list.splits prod.splits)+

text \<open>The value from \<^verbatim>\<open>p\<close> on. \<^verbatim>\<open>out\<close> is what the buffer holds, \<^verbatim>\<open>keep\<close> its length without trailing
  unquoted blanks.\<close>

function env_value :: "string \<Rightarrow> string \<Rightarrow> nat \<Rightarrow> string \<times> string" where
  "env_value [] out keep = (take keep out, [])"
| "env_value (c # p) out keep =
     (if c = CHR 0x0A then (take keep out, c # p)
      else if c = SQ then
        (let out' = out @ takeWhile (\<lambda>x. x \<noteq> SQ) p
         in env_value (drop 1 (dropWhile (\<lambda>x. x \<noteq> SQ) p)) out' (length out'))
      else if c = DQ then (let (w, r) = env_dq p in env_value r (out @ w) (length (out @ w)))
      else if c = BS \<and> p \<noteq> [] then
        (if hd p = CHR 0x0A then env_value (tl p) out keep
         else env_value (tl p) (out @ [hd p]) (length out + 1))
      else env_value p (out @ [c])
             (if c \<noteq> CHR '' '' \<and> c \<noteq> CHR 0x09 \<and> c \<noteq> CHR 0x0D then length out + 1 else keep))"
  by pat_completeness auto
termination
proof (relation "measure (\<lambda>(s, out, keep). length s)", goal_cases)
  case (2 c p out keep out')
  then show ?case using length_dropWhile_le [of "\<lambda>x. x \<noteq> SQ" p] by auto
qed (auto dest!: length_env_dq [OF sym])

declare env_value.simps(2) [simp del]

lemma env_value_step:
  obtains "env_value (c # p) out keep = (take keep out, c # p)"
  | r out' keep' where "env_value (c # p) out keep = env_value r out' keep'"
      "length r \<le> length p" "length out' + length r \<le> length out + Suc (length p)"
proof (cases "c = CHR 0x0A")
  case nl: False
  note e = env_value.simps(2) [of c p out keep]
  show ?thesis
  proof (cases "c = SQ")
    case True
    have "length (takeWhile (\<lambda>x. x \<noteq> SQ) p) + length (dropWhile (\<lambda>x. x \<noteq> SQ) p) = length p"
      by (metis length_append takeWhile_dropWhile_id)
    then show ?thesis using that(2) e True by (simp add: Let_def)
  next
    case sq: False
    show ?thesis
    proof (cases "c = DQ")
      case True
      obtain w r where dq: "env_dq p = (w, r)" by (cases "env_dq p")
      then show ?thesis using that(2) e True length_env_dq [OF dq] by (simp add: Let_def)
    next
      case dq: False
      show ?thesis
      proof (cases "c = BS \<and> p \<noteq> []")
        case True
        then show ?thesis using that(2) e nl by (cases "hd p = CHR 0x0A") simp_all
      next
        case False
        then have "env_value (c # p) out keep = env_value p (out @ [c])
            (if c \<noteq> CHR '' '' \<and> c \<noteq> CHR 0x09 \<and> c \<noteq> CHR 0x0D then length out + 1 else keep)"
          by (simp only: e nl sq dq if_False)
        then show ?thesis by (rule that(2)) simp_all
      qed
    qed
  qed
qed (use that(1) in \<open>simp add: env_value.simps(2)\<close>)

lemma length_env_value: "length (snd (env_value s out keep)) \<le> length s"
proof (induction "length s" arbitrary: s out keep rule: less_induct)
  case less
  show ?case
  proof (cases s)
    case (Cons c p)
    show ?thesis
    proof (rule env_value_step [of c p out keep])
      fix r out' keep'
      assume "env_value (c # p) out keep = env_value r out' keep'" "length r \<le> length p"
      with less [of r out' keep'] Cons show ?thesis by simp
    qed (simp add: Cons)
  qed simp
qed

definition rtrim_blank :: "string \<Rightarrow> string" where
  "rtrim_blank s = rev (dropWhile (\<lambda>c. c = CHR '' '' \<or> c = CHR 0x09) (rev s))"

text \<open>One turn of the outer loop on a string that does not start with blank space: the assignment it
  accepted, if any, and what is left.\<close>

definition env_entry :: "string \<Rightarrow> string option \<times> string" where
  "env_entry p =
     (if hd p = CHR ''#'' \<or> hd p = CHR '';'' then (None, dropWhile (\<lambda>c. c \<noteq> CHR 0x0A) p)
      else
        (let k = (if starts_with ''export '' p then drop 7 p else p);
             ke = takeWhile (\<lambda>c. c \<noteq> CHR ''='' \<and> c \<noteq> CHR 0x0A) k;
             q = dropWhile (\<lambda>c. c \<noteq> CHR ''='' \<and> c \<noteq> CHR 0x0A) k
         in if q = [] \<or> hd q \<noteq> CHR ''='' then (None, q)
            else
              (let nm = rtrim_blank ke;
                   pre = nm @ ''='';
                   (kv, r) = env_value (dropWhile (\<lambda>c. c = CHR '' '' \<or> c = CHR 0x09) (tl q)) pre (length pre)
               in (if env_name_ok nm then Some kv else None, r))))"

lemma env_entry_shorter:
  assumes "p \<noteq> []" "\<not> word_space (hd p)" "env_entry p = (e, r)"
  shows "length r < length p"
proof -
  obtain c s where p: "p = c # s" and c: "\<not> word_space c" using assms by (cases p) auto
  then have hp: "hd p = c" by simp
  define k where "k = (if starts_with ''export '' p then drop 7 p else p)"
  define ke where "ke = takeWhile (\<lambda>c. c \<noteq> CHR ''='' \<and> c \<noteq> CHR 0x0A) k"
  define q where "q = dropWhile (\<lambda>c. c \<noteq> CHR ''='' \<and> c \<noteq> CHR 0x0A) k"
  have k: "k = p \<or> length k < length p" by (auto simp: k_def p)
  have kq: "k = ke @ q" by (simp add: ke_def q_def)
  show ?thesis
  proof (cases "c = CHR ''#'' \<or> c = CHR '';''")
    case True
    then have "r = dropWhile (\<lambda>c. c \<noteq> CHR 0x0A) s" using assms p by (auto simp: env_entry_def)
    then show ?thesis using length_dropWhile_le [of "\<lambda>c. c \<noteq> CHR 0x0A" s] p by simp
  next
    case com: False
    note e = env_entry_def [of p, folded k_def, unfolded Let_def, folded ke_def q_def]
    show ?thesis
    proof (cases "q = [] \<or> hd q \<noteq> CHR ''=''")
      case True
      then have r: "r = q" using assms(3) com hp unfolding e by simp
      have "k \<noteq> p" if "ke = []"
      proof
        assume "k = p"
        then have k': "k = c # s" by (simp only: p)
        have "q = c # s" using kq k' by (simp only: \<open>ke = []\<close> append_Nil)
        moreover have "c = CHR ''='' \<or> c = CHR 0x0A"
          using \<open>ke = []\<close> unfolding ke_def k' by (simp split: if_splits)
        ultimately show False using True c by (auto simp: word_space_def)
      qed
      then show ?thesis using k kq r by (cases "ke = []") (auto simp: nat_less_le)
    next
      case False
      let ?v = "dropWhile (\<lambda>c. c = CHR '' '' \<or> c = CHR 0x09) (tl q)"
      have "r = snd (env_value ?v (rtrim_blank ke @ ''='') (length (rtrim_blank ke @ ''='')))"
        using assms(3) com hp False unfolding e by (simp split: prod.splits)
      then have "length r \<le> length ?v" using length_env_value by metis
      also have "\<dots> \<le> length (tl q)" by (rule length_dropWhile_le)
      finally show ?thesis using k kq False by (cases q) auto
    qed
  qed
qed

lemma env_step_shorter:
  assumes "env_entry (dropWhile word_space p) = (e, r)" "dropWhile word_space p \<noteq> []"
  shows "length r < length p"
proof -
  have "length r < length (dropWhile word_space p)"
    using env_entry_shorter [OF assms(2) hd_dropWhile [OF assms(2)] assms(1)] .
  also have "\<dots> \<le> length p" by (rule length_dropWhile_le)
  finally show ?thesis .
qed

function env_pairs :: "nat \<Rightarrow> string \<Rightarrow> string list" where
  "env_pairs mx p =
     (let t = dropWhile word_space p in
      if p = [] \<or> mx = 0 \<or> t = [] then []
      else case env_entry t of
             (Some kv, r) \<Rightarrow> kv # env_pairs (mx - 1) r
           | (None, r) \<Rightarrow> env_pairs mx r)"
  by pat_completeness auto
termination
  by (relation "measure (\<lambda>(mx, s). length s)") (auto dest: env_step_shorter [OF sym])

declare env_pairs.simps [simp del]

text \<open>\<^verbatim>\<open>content\<close> is what \<^verbatim>\<open>service_open_trusted\<close> opened, \<^verbatim>\<open>None\<close> when it refused.\<close>

definition service_env_file_read :: "string option \<Rightarrow> nat \<Rightarrow> string list option" where
  "service_env_file_read content mx = map_option (\<lambda>f. env_pairs mx (take 65536 f)) content"

section \<open>Quoting undone\<close>

text \<open>A word in double quotes with a backslash before each quote and backslash, and a line of such words.\<close>

definition esc_char :: "char \<Rightarrow> string" where
  "esc_char c = (if c = DQ \<or> c = BS then [BS, c] else [c])"

definition show_word :: "string \<Rightarrow> string" where
  "show_word w = DQ # concat (map esc_char w) @ [DQ]"

fun show_cmdline :: "string list \<Rightarrow> string" where
  "show_cmdline [] = []"
| "show_cmdline [w] = show_word w"
| "show_cmdline (w # ws) = show_word w @ CHR '' '' # show_cmdline ws"

lemma dq_part_close [simp]: "dq_part (DQ # r) = ([], Some r)"
  by (cases r) auto

lemma dq_part_plain: "c \<noteq> DQ \<Longrightarrow> c \<noteq> BS \<Longrightarrow> r \<noteq> [] \<Longrightarrow> dq_part (c # r) = apfst ((#) c) (dq_part r)"
  by (cases r) (auto split: prod.splits)

lemma dq_part_show: "dq_part (concat (map esc_char w) @ DQ # r) = (w, Some r)"
  by (induction w) (auto simp: esc_char_def dq_part_plain)

lemma one_word_show:
  assumes "r = [] \<or> word_space (hd r)"
  shows "one_word relax (show_word w @ r) = Some (w, r)"
proof -
  have "one_word relax r = Some ([], r)" using assms by (cases r) (auto simp: one_word.simps)
  then show ?thesis
    by (simp add: show_word_def one_word.simps(2) [of relax DQ] dq_part_show word_space_def)
qed

lemma skip_show_word: "dropWhile word_space (show_word w @ r) = show_word w @ r"
  by (simp add: show_word_def word_space_def)

lemma show_cmdline_start: "dropWhile word_space (CHR '' '' # show_cmdline ws) = show_cmdline ws"
  by (cases ws rule: show_cmdline.cases) (simp_all add: skip_show_word [of _ "[]", simplified] skip_show_word word_space_def)

lemma split_show:
  "split_words n relax (show_cmdline ws) = (if length ws \<le> n then Some ws else None) \<and>
   split_words n relax (CHR '' '' # show_cmdline ws) = split_words n relax (show_cmdline ws)"
proof (induction ws arbitrary: n rule: show_cmdline.induct)
  case 1
  then show ?case by (cases n) (simp_all add: word_space_def)
next
  case (2 w)
  have "show_word w \<noteq> []" by (simp add: show_word_def)
  then show ?case using skip_show_word [of w "[]"] one_word_show [of "[]" relax w] show_cmdline_start [of "[w]"]
    by (cases n; cases "n - 1") (simp_all add: word_space_def)
next
  case (3 w v vs)
  let ?r = "CHR '' '' # show_cmdline (v # vs)"
  have "one_word relax (show_word w @ ?r) = Some (w, ?r)" by (rule one_word_show) (simp add: word_space_def)
  moreover have "show_word w \<noteq> []" by (simp add: show_word_def)
  ultimately show ?case using skip_show_word [of w ?r] 3 show_cmdline_start [of "w # v # vs"]
    by (cases n) simp_all
qed

definition dollar_esc :: "string \<Rightarrow> string" where
  "dollar_esc a = concat (map (\<lambda>c. if c = CHR ''$'' then ''$$'' else [c]) a)"

lemma expand_dollar_esc: "expand_arg getenv (dollar_esc a) = a"
  by (induction a) (simp_all add: dollar_esc_def expand_arg.simps(2))

lemma dollar_esc_literal: "\<not> (dollar_esc a \<noteq> [] \<and> hd (dollar_esc a) = CHR ''$'' \<and> env_name_ok (tl (dollar_esc a)))"
  by (cases a) (auto simp: dollar_esc_def env_name_ok_def c_isalpha_def char_code_def)

lemma expand_argv_literal:
  "service_expand_argv getenv mx (map dollar_esc args) = (if length args \<le> mx then Some args else None)"
  by (induction args arbitrary: mx) (use dollar_esc_literal in \<open>auto simp: expand_dollar_esc\<close>)

definition env_esc :: "char \<Rightarrow> string" where
  "env_esc c = (if c \<in> {DQ, BS, CHR 0x60, CHR ''$''} then [BS, c] else [c])"

definition show_env :: "string \<times> string \<Rightarrow> string" where
  "show_env = (\<lambda>(k, v). k @ ''='' @ DQ # concat (map env_esc v) @ [DQ, CHR 0x0A])"

lemma env_dq_close [simp]: "env_dq (DQ # r) = ([], r)"
  by (cases r) auto

lemma env_dq_plain: "c \<noteq> DQ \<Longrightarrow> c \<noteq> BS \<Longrightarrow> r \<noteq> [] \<Longrightarrow> env_dq (c # r) = apfst ((#) c) (env_dq r)"
  by (cases r) (auto split: prod.splits)

lemma env_dq_show: "env_dq (concat (map env_esc v) @ DQ # r) = (v, r)"
  by (induction v) (auto simp: env_esc_def env_dq_plain)

lemma env_name_chars: "env_name_ok k \<Longrightarrow> c \<in> set k \<Longrightarrow> c_isalpha c \<or> c_isdigit c \<or> c = CHR ''_''"
  by (auto simp: env_name_ok_def split: list.splits)

lemma env_name_not:
  assumes "env_name_ok k" "c \<in> set k"
  shows "c \<noteq> CHR ''='' \<and> c \<noteq> CHR 0x0A \<and> c \<noteq> CHR '' '' \<and> c \<noteq> CHR 0x09 \<and> c \<noteq> CHR ''#'' \<and>
    c \<noteq> CHR '';'' \<and> \<not> word_space c"
  using env_name_chars [OF assms] by (auto simp: c_isalpha_def c_isdigit_def char_code_def word_space_def)

lemma rtrim_env_name: "env_name_ok k \<Longrightarrow> rtrim_blank k = k"
proof -
  assume k: "env_name_ok k"
  then have "k \<noteq> []" by (auto simp: env_name_ok_def)
  then obtain b c where bc: "k = b @ [c]" using rev_exhaust by blast
  then show ?thesis using env_name_not [OF k, of c] by (simp add: rtrim_blank_def)
qed

lemma no_export: "env_name_ok k \<Longrightarrow> \<not> starts_with ''export '' (k @ CHR ''='' # r)"
proof
  assume k: "env_name_ok k" and "starts_with ''export '' (k @ CHR ''='' # r)"
  then obtain t where t: "k @ CHR ''='' # r = ''export '' @ t" by (auto simp: starts_with_iff)
  have sp: "CHR '' '' \<notin> set k" using env_name_not [OF k] by blast
  from t consider us where "k = ''export '' @ us" | us where "''export '' = k @ us" "us @ t = CHR ''='' # r"
    unfolding append_eq_append_conv2 by metis
  then show False
  proof cases
    case (2 us)
    then have "us \<noteq> []" using sp by force
    then have "CHR ''='' \<in> set us" using 2(2) by (cases us) auto
    moreover have "set us \<subseteq> set ''export ''" unfolding 2(1) by simp
    ultimately show False by auto
  qed (use sp in auto)
qed

lemma env_entry_show:
  assumes k: "env_name_ok k"
  shows "env_entry (show_env (k, v) @ r) = (Some (k @ ''='' @ v), CHR 0x0A # r)"
proof -
  let ?q = "CHR ''='' # DQ # concat (map env_esc v) @ DQ # CHR 0x0A # r"
  have p: "show_env (k, v) @ r = k @ ?q" by (simp add: show_env_def)
  have ne: "k \<noteq> []" using k by (auto simp: env_name_ok_def)
  then have hd: "hd (k @ ?q) \<noteq> CHR ''#'' \<and> hd (k @ ?q) \<noteq> CHR '';''" using env_name_not [OF k, of "hd k"] by simp
  have tw: "takeWhile (\<lambda>c. c \<noteq> CHR ''='' \<and> c \<noteq> CHR 0x0A) (k @ ?q) = k"
    using env_name_not [OF k] by (simp add: takeWhile_append2)
  have dw: "dropWhile (\<lambda>c. c \<noteq> CHR ''='' \<and> c \<noteq> CHR 0x0A) (k @ ?q) = ?q"
    using env_name_not [OF k] by (simp add: dropWhile_append2)
  have v: "env_value (DQ # concat (map env_esc v) @ DQ # CHR 0x0A # r) (k @ ''='') n = (k @ ''='' @ v, CHR 0x0A # r)" for n
    by (simp add: env_value.simps(2) [of DQ] env_value.simps(2) [of "CHR 0x0A"] env_dq_show)
  show ?thesis unfolding p env_entry_def Let_def
    using hd no_export [OF k, of "DQ # concat (map env_esc v) @ DQ # CHR 0x0A # r"] k
    by (simp add: tw dw v rtrim_env_name)
qed

lemma env_pairs_nl: "env_pairs mx (CHR 0x0A # s) = env_pairs mx s"
proof -
  have "dropWhile word_space (CHR 0x0A # s) = dropWhile word_space s" by (simp add: word_space_def)
  then show ?thesis by (simp only: env_pairs.simps [of mx "CHR 0x0A # s"] env_pairs.simps [of mx s]) auto
qed

lemma env_pairs_show:
  "\<forall>kv\<in>set kvs. env_name_ok (fst kv) \<Longrightarrow>
   env_pairs mx (concat (map show_env kvs)) = take mx (map (\<lambda>(k, v). k @ ''='' @ v) kvs)"
proof (induction kvs arbitrary: mx)
  case Nil
  then show ?case by (simp add: env_pairs.simps)
next
  case (Cons kv kvs)
  obtain k v where kv: "kv = (k, v)" by (cases kv)
  let ?p = "show_env (k, v) @ concat (map show_env kvs)"
  have k: "env_name_ok k" using Cons.prems kv by simp
  then have "k \<noteq> []" by (auto simp: env_name_ok_def)
  then have ws: "dropWhile word_space ?p = ?p" and ne: "show_env (k, v) \<noteq> []"
    using env_name_not [OF k, of "hd k"] by (cases k; simp add: show_env_def)+
  have "env_pairs mx ?p = (if mx = 0 then [] else (k @ ''='' @ v) # env_pairs (mx - 1) (concat (map show_env kvs)))"
    by (subst env_pairs.simps) (simp add: Let_def ws ne env_entry_show [OF k] env_pairs_nl)
  then show ?case using Cons kv by (cases mx) simp_all
qed

section \<open>Properties\<close>

text \<open>C27. Splitting a command line (\<^verbatim>\<open>exec_pre=\<close>, \<^verbatim>\<open>exec_stop=\<close>, \<^verbatim>\<open>card=exec:\<close>) inverts quoting: a line that
  writes each word between double quotes, with a backslash before each quote and backslash, splits into
  exactly those words, empty ones and blanks inside words included, when they fit the caller's array;
  and it is refused, not truncated, when there is one word too many. An argument whose dollars are
  doubled is passed on unexpanded whatever the environment holds.\<close>

theorem cmdline_roundtrip:
  "service_split_cmdline mx (show_cmdline ws) = (if length ws \<le> mx then Some ws else None) \<and>
   service_expand_argv getenv mx (map dollar_esc ws) = (if length ws \<le> mx then Some ws else None)"
  using split_show [of mx False ws] expand_argv_literal by (simp add: service_split_cmdline_def)



end
