(* ===== verification/SI_Parse.thy ===== *)
theory SI_Parse
  imports SI_Probe SI_Words SI_Lines "HOL-Library.List_Lexorder" "HOL-Library.Char_ord"
begin

text \<open>
  The service file parser of \<^verbatim>\<open>service.c\<close>: one \<^verbatim>\<open>key=value\<close> line of a \<^verbatim>\<open>.svc\<close> file or drop-in, the resource
  limits, the checks after the last line, the drop-in directories of a file, and the loading of a
  directory. The state of a parse is the service under construction and \<^verbatim>\<open>pc->dep_slot\<close>;
  \<^verbatim>\<open>pc->argc\<close> is one more than the arguments stored. Every rejection is a value of \<^verbatim>\<open>parse_err\<close>.
  The user database, address parsing, \<^verbatim>\<open>realpath\<close> and the file system are parameters.
\<close>

section \<open>Errors and parameters\<close>

datatype parse_err =
    ErrDropinName | ErrRlimit | ErrExecSpace | ErrArgs | ErrEnv | ErrEnvFile | ErrExecPre | ErrExecStop
  | ErrCard | ErrListen | ErrCondition | ErrWaitSocket | ErrSocketMode | ErrBindTwice | ErrBind | ErrDeps
  | ErrKeepCaps | ErrAmbientCaps | ErrNs | ErrLandlock | ErrRwPath | ErrLandlockTcp | ErrVerify | ErrWorkingDir
  | ErrOpen | ErrRefused | ErrLongLine | ErrHides | ErrLandlockExec | ErrLandlockPre | ErrLandlockNnp
  | ErrBindTimer | ErrBindSlot | ErrVerifyNotify | ErrMainPidNotify | ErrTemplate | ErrNoName

record passwd =
  pw_name :: string
  pw_uid :: u32
  pw_gid :: u32

record parse_env =
  pe_getpwnam :: "string \<Rightarrow> passwd option"
  pe_getpwuid :: "u32 \<Rightarrow> passwd option"
  pe_inet4 :: "string \<Rightarrow> bool"
  pe_inet6 :: "string \<Rightarrow> bool"
  pe_realpath :: "string \<Rightarrow> string option"
  pe_hardening :: bool

abbreviation (input) MAX_ARGV :: nat where "MAX_ARGV \<equiv> 64"
abbreviation (input) MAX_ENV :: nat where "MAX_ENV \<equiv> 16"
abbreviation (input) MAX_ENV_FILES :: nat where "MAX_ENV_FILES \<equiv> 4"
abbreviation (input) MAX_EXEC_PRE :: nat where "MAX_EXEC_PRE \<equiv> 8"
abbreviation (input) MAX_CARDS :: nat where "MAX_CARDS \<equiv> 4"
abbreviation (input) MAX_LISTEN :: nat where "MAX_LISTEN \<equiv> 4"
abbreviation (input) MAX_COND :: nat where "MAX_COND \<equiv> 8"
abbreviation (input) MAX_RW_PATHS :: nat where "MAX_RW_PATHS \<equiv> 8"
abbreviation (input) MAX_LANDLOCK :: nat where "MAX_LANDLOCK \<equiv> 16"

abbreviation (input) HARD_NNP :: nat where "HARD_NNP \<equiv> 0"
abbreviation (input) HARD_PT :: nat where "HARD_PT \<equiv> 1"
abbreviation (input) HARD_PS :: nat where "HARD_PS \<equiv> 2"
abbreviation (input) HARD_PH :: nat where "HARD_PH \<equiv> 3"

type_synonym parse_state = "service_t \<times> nat"
type_synonym line_outcome = "(parse_err + parse_state) option"

definition is_blank :: "char \<Rightarrow> bool" where
  "is_blank c \<longleftrightarrow> c = CHR '' '' \<or> c = CHR 0x09"

abbreviation skip_blank :: "string \<Rightarrow> string" where
  "skip_blank \<equiv> dropWhile is_blank"

definition upd_child :: "(svc_child_t \<Rightarrow> svc_child_t) \<Rightarrow> service_t \<Rightarrow> service_t" where
  "upd_child f s = s\<lparr>svc_child := f (svc_child s)\<rparr>"

text \<open>A branch that keeps the service, one that rejects it.\<close>

abbreviation (input) keeps :: "service_t \<Rightarrow> nat \<Rightarrow> line_outcome" where
  "keeps s slot \<equiv> Some (Inr (s, slot))"

abbreviation (input) rejects :: "parse_err \<Rightarrow> line_outcome" where
  "rejects e \<equiv> Some (Inl e)"

definition strcaseeq :: "string \<Rightarrow> string \<Rightarrow> bool" where
  "strcaseeq a b \<longleftrightarrow> map c_tolower a = map c_tolower b"

section \<open>Values\<close>

text \<open>\<^verbatim>\<open>strtok_r\<close> to the end: the maximal runs of characters outside the separators.\<close>

lemma tokens_shorter:
  assumes "x \<in> set s" "\<not> sep x"
  shows "length (dropWhile (\<lambda>c. \<not> sep c) (dropWhile sep s)) < length s"
proof -
  have "dropWhile sep s \<noteq> []" using assms by auto
  then obtain c t where t: "dropWhile sep s = c # t" by (cases "dropWhile sep s") auto
  then have "\<not> sep c" using hd_dropWhile [of sep s] by simp
  moreover have "length (c # t) \<le> length s" using length_dropWhile_le [of sep s] unfolding t .
  ultimately show ?thesis unfolding t using length_dropWhile_le [of "\<lambda>c. \<not> sep c" t] by simp
qed

function tokens :: "(char \<Rightarrow> bool) \<Rightarrow> string \<Rightarrow> string list" where
  "tokens sep s =
     (let t = dropWhile sep s in
      if t = [] then [] else takeWhile (\<lambda>c. \<not> sep c) t # tokens sep (dropWhile (\<lambda>c. \<not> sep c) t))"
  by pat_completeness auto
termination
  by (relation "measure (\<lambda>(sep, s). length s)") (auto dest: tokens_shorter)

declare tokens.simps [simp del]

definition cap_table :: "string list" where
  "cap_table = [''CAP_CHOWN'', ''CAP_DAC_OVERRIDE'', ''CAP_DAC_READ_SEARCH'', ''CAP_FOWNER'', ''CAP_FSETID'',
     ''CAP_KILL'', ''CAP_SETGID'', ''CAP_SETUID'', ''CAP_SETPCAP'', ''CAP_LINUX_IMMUTABLE'',
     ''CAP_NET_BIND_SERVICE'', ''CAP_NET_BROADCAST'', ''CAP_NET_ADMIN'', ''CAP_NET_RAW'', ''CAP_IPC_LOCK'',
     ''CAP_IPC_OWNER'', ''CAP_SYS_MODULE'', ''CAP_SYS_RAWIO'', ''CAP_SYS_CHROOT'', ''CAP_SYS_PTRACE'',
     ''CAP_SYS_PACCT'', ''CAP_SYS_ADMIN'', ''CAP_SYS_BOOT'', ''CAP_SYS_NICE'', ''CAP_SYS_RESOURCE'',
     ''CAP_SYS_TIME'', ''CAP_SYS_TTY_CONFIG'', ''CAP_MKNOD'', ''CAP_LEASE'', ''CAP_AUDIT_WRITE'',
     ''CAP_AUDIT_CONTROL'', ''CAP_SETFCAP'', ''CAP_MAC_OVERRIDE'', ''CAP_MAC_ADMIN'', ''CAP_SYSLOG'',
     ''CAP_WAKE_ALARM'', ''CAP_BLOCK_SUSPEND'', ''CAP_AUDIT_READ'', ''CAP_PERFMON'', ''CAP_BPF'',
     ''CAP_CHECKPOINT_RESTORE'']"

text \<open>The table lists the capabilities in the order of their kernel numbers, 0 to 40.\<close>

definition cap_name_to_val :: "string \<Rightarrow> nat option" where
  "cap_name_to_val name = first_index (\<lambda>n. n = name) cap_table"

fun cap_mask :: "string list \<Rightarrow> u64 \<Rightarrow> u64 option" where
  "cap_mask [] m = Some m"
| "cap_mask (tok # toks) m =
     (let t = rtrim_blank (skip_blank tok) in
      if t = [] then cap_mask toks m
      else case cap_name_to_val t of
             None \<Rightarrow> None
           | Some v \<Rightarrow> cap_mask toks (m OR push_bit v 1))"

definition parse_cap_list :: "string \<Rightarrow> u64 option" where
  "parse_cap_list csv = cap_mask (tokens (\<lambda>c. c = CHR '','') (take 511 csv)) 0"

definition parse_ns_bool :: "string \<Rightarrow> u8 option" where
  "parse_ns_bool val = (if val = ''0'' then Some 0 else if val = ''1'' then Some 1 else None)"

definition parse_protect_system :: "string \<Rightarrow> u8 option" where
  "parse_protect_system val = (if val = ''full'' then Some 2 else parse_ns_bool val)"

definition parse_partition :: "string \<Rightarrow> partition_t" where
  "parse_partition val =
     (if strcaseeq val ''isolated'' then PART_ISOLATED
      else if strcaseeq val ''root'' then PART_ROOT else PART_MEMBER)"

definition parse_calendar :: "service_t \<Rightarrow> string \<Rightarrow> service_t option" where
  "parse_calendar s val =
     (case parse_calendar_fields val of
        None \<Rightarrow> None
      | Some c \<Rightarrow>
          Some (add_flag SVC_ONESHOT (add_flag SVC_TIMER_CALENDAR (add_flag SVC_TIMER
            (s\<lparr>timer_cal_hours := cal_hour_mask c, timer_cal_min := cal_min c,
               timer_cal_dow := cal_dow c, timer_cal_dom := cal_dom c\<rparr>)))))"

text \<open>\<^verbatim>\<open>rw_path_ok\<close> trims its argument in place; the trimmed path is the result.\<close>

definition rtrim_slash :: "string \<Rightarrow> string" where
  "rtrim_slash v =
     (let w = rev (dropWhile (\<lambda>c. c = CHR ''/'') (rev v)) in if w = [] \<and> v \<noteq> [] then [hd v] else w)"

text \<open>The loop over \<^verbatim>\<open>strstr(p, "..")\<close>; \<^verbatim>\<open>prev\<close> is \<^verbatim>\<open>p[-1]\<close>.\<close>

fun dots_bad :: "char \<Rightarrow> string \<Rightarrow> bool" where
  "dots_bad prev (a # b # s) =
     (if a = CHR ''.'' \<and> b = CHR ''.''
      then (prev = CHR ''/'' \<and> (s = [] \<or> hd s = CHR ''/'')) \<or> dots_bad b s
      else dots_bad a (b # s))"
| "dots_bad prev _ = False"

definition rw_path_ok :: "string \<Rightarrow> string option" where
  "rw_path_ok v0 =
     (let v = rtrim_slash (rtrim_blank v0) in
      if v = [] \<or> hd v \<noteq> CHR ''/'' \<or> length v < 2 \<or> dots_bad (hd v) (tl v) then None else Some v)"

text \<open>\<^verbatim>\<open>strtol(s, &end, 8)\<close>, for the values \<^verbatim>\<open>socket_mode=\<close> accepts.\<close>

fun scan_octal :: "int \<Rightarrow> string \<Rightarrow> int \<times> string" where
  "scan_octal acc [] = (acc, [])"
| "scan_octal acc (c # cs) =
     (if c_isdigit c \<and> digit_val c < 8 then scan_octal (acc * 8 + digit_val c) cs else (acc, c # cs))"

definition parse_socket_mode :: "string \<Rightarrow> int option" where
  "parse_socket_mode val =
     (let s1 = dropWhile c_isspace val;
          neg = (s1 \<noteq> [] \<and> hd s1 = CHR ''-'');
          s2 = (if s1 \<noteq> [] \<and> (hd s1 = CHR ''-'' \<or> hd s1 = CHR ''+'') then tl s1 else s1);
          (v, r) = (if s2 = [] then (0, val) else scan_octal 0 s2);
          m = (if neg then - v else v)
      in if val = [] \<or> r \<noteq> [] \<or> m \<le> 0 \<or> 0xFFF < m then None else Some m)"

text \<open>One resource limit: \<^verbatim>\<open>infinity\<close>, a nice level, or a number with a binary suffix.\<close>

definition RLIM_INFINITY :: u64 where "RLIM_INFINITY = - 1"

definition rlim_keys :: "string list" where
  "rlim_keys = [''limit_cpu'', ''limit_fsize'', ''limit_data'', ''limit_stack'', ''limit_core'', ''limit_rss'',
     ''limit_nofile'', ''limit_as'', ''limit_nproc'', ''limit_memlock'', ''limit_locks'', ''limit_sigpending'',
     ''limit_msgqueue'', ''limit_nice'', ''limit_rtprio'', ''limit_rttime'']"

definition rlim_shift :: "string \<Rightarrow> nat option" where
  "rlim_shift r =
     (case r of
        [] \<Rightarrow> Some 0
      | [c] \<Rightarrow> map_option (\<lambda>i. 10 * (i + 1)) (first_index (\<lambda>k. k = c) ''KMGT'')
      | _ \<Rightarrow> None)"

definition rlim_value :: "string \<Rightarrow> bool \<Rightarrow> u64 option" where
  "rlim_value s nice =
     (if s = ''infinity'' then Some RLIM_INFINITY
      else if nice \<and> s \<noteq> [] \<and> (hd s = CHR ''-'' \<or> hd s = CHR ''+'') then
        (let (n, r) = strtol s in if r \<noteq> [] \<or> n < -20 \<or> 19 < n then None else Some (word_of_int (20 - n)))
      else if s = [] \<or> \<not> c_isdigit (hd s) then None
      else
        (let (v, r) = scan_digits 0 s in
         if 2 ^ 64 \<le> v then None
         else case rlim_shift r of
                None \<Rightarrow> None
              | Some sh \<Rightarrow> if (2 ^ 64 - 1) div 2 ^ sh < v \<or> v * 2 ^ sh = 2 ^ 64 - 1 then None
                           else Some (word_of_int (v * 2 ^ sh))))"

definition rlim_pair :: "string \<Rightarrow> bool \<Rightarrow> (u64 \<times> u64) option" where
  "rlim_pair buf nice =
     (let cs = takeWhile (\<lambda>c. c \<noteq> CHR '':'') buf; rest = dropWhile (\<lambda>c. c \<noteq> CHR '':'') buf in
      case rlim_value cs nice of
        None \<Rightarrow> None
      | Some cur \<Rightarrow>
          (case rest of
             [] \<Rightarrow> Some (cur, cur)
           | _ # ms \<Rightarrow>
               (case rlim_value ms nice of
                  None \<Rightarrow> None
                | Some mx \<Rightarrow>
                    if mx \<noteq> RLIM_INFINITY \<and> (cur = RLIM_INFINITY \<or> mx < cur) then None else Some (cur, mx))))"

definition svc_parse_rlimit :: "service_t \<Rightarrow> nat \<Rightarrow> string \<Rightarrow> string \<Rightarrow> line_outcome" where
  "svc_parse_rlimit s slot key val =
     (if key \<notin> set rlim_keys then None
      else
        (let rs = rlim (svc_child s); at = first_index (\<lambda>r. rl_res r = key) rs in
         if val = [] then
           (case at of
              None \<Rightarrow> keeps s slot
            | Some i \<Rightarrow> keeps (upd_child (rlim_update (swap_remove i)) s) slot)
         else case rlim_pair (take 63 val) (key = ''limit_nice'') of
                None \<Rightarrow> rejects ErrRlimit
              | Some (cur, mx) \<Rightarrow>
                  (let r = \<lparr>rl_res = key, rl_cur = cur, rl_max = mx\<rparr> in
                   keeps (upd_child (rlim_update (\<lambda>_. case at of None \<Rightarrow> rs @ [r] | Some i \<Rightarrow> rs[i := r])) s) slot)))"

text \<open>\<^verbatim>\<open>svc_cmd_ok\<close>: a command of 1 to 32 words whose first is an absolute path.\<close>

definition svc_cmd_ok :: "string \<Rightarrow> bool" where
  "svc_cmd_ok cmd =
     (case service_split_cmdline 33 cmd of
        None \<Rightarrow> False
      | Some w \<Rightarrow> w \<noteq> [] \<and> length w \<le> 32 \<and> hd w \<noteq> [] \<and> hd (hd w) = CHR ''/'')"

definition listen_kinds :: "(string \<times> nat) list" where
  "listen_kinds = [(''stream:'', 1), (''dgram:'', 2), (''seqpacket:'', 5), (''fifo:'', 0)]"

text \<open>\<^verbatim>\<open>service_listen_parse\<close> as the parser uses it: whether the address is accepted. \<^verbatim>\<open>sun_path\<close> has 108
  bytes, \<^verbatim>\<open>host\<close> 64; the kinds are the socket types of Linux, 0 for a fifo.\<close>

definition listen_port_ok :: "string \<Rightarrow> bool" where
  "listen_port_ok port =
     (let (p, r) = strtol port in port \<noteq> [] \<and> r = [] \<and> 1 \<le> p \<and> p \<le> 65535)"

definition listen_host_port :: "string \<Rightarrow> (string \<times> string) option" where
  "listen_host_port a =
     (if hd a = CHR 0x5B then
        (let h = takeWhile (\<lambda>c. c \<noteq> CHR 0x5D) (tl a); r = dropWhile (\<lambda>c. c \<noteq> CHR 0x5D) a in
         if r = [] \<or> length r < 2 \<or> r ! 1 \<noteq> CHR '':'' \<or> 64 \<le> length h then None else Some (h, drop 2 r))
      else if CHR '':'' \<in> set a then
        (let port = rev (takeWhile (\<lambda>c. c \<noteq> CHR '':'') (rev a)); h = take (length a - length port - 1) a in
         if 64 \<le> length h then None else Some (h, port))
      else Some ([], a))"

definition service_listen_parse :: "parse_env \<Rightarrow> string \<Rightarrow> bool" where
  "service_listen_parse pe spec =
     (case List.find (\<lambda>(k, t). starts_with k spec) listen_kinds of
        None \<Rightarrow> False
      | Some (k, t) \<Rightarrow>
          (let a = drop (length k) spec in
           if a = [] then False
           else if hd a = CHR ''/'' \<or> hd a = CHR ''@''
           then \<not> (108 \<le> length a \<or> hd a = CHR ''@'' \<and> (t = 0 \<or> length a < 2))
           else if t = 0 \<or> t = 5 then False
           else case listen_host_port a of
                  None \<Rightarrow> False
                | Some (host, port) \<Rightarrow>
                    listen_port_ok port \<and>
                    (hd a \<noteq> CHR 0x5B \<and> host \<noteq> [] \<and> pe_inet4 pe host \<or> host = [] \<or> pe_inet6 pe host)))"

section \<open>Drop-in lines\<close>

definition dropin_flags :: "(string \<times> nat) list" where
  "dropin_flags = [(''oneshot'', SVC_ONESHOT), (''needs_root'', SVC_NEEDS_ROOT), (''critical'', SVC_CRITICAL),
     (''no_restart'', SVC_NO_RESTART), (''persistent'', SVC_TIMER_PERSIST), (''stop_first'', SVC_STOP_FIRST),
     (''main_pid_notify'', SVC_MAIN_PID_NOTIFY)]"

definition put_flag :: "nat \<Rightarrow> bool \<Rightarrow> service_t \<Rightarrow> service_t" where
  "put_flag k on s = (if on then add_flag k s else clear_flag k s)"

definition dropin_flag :: "service_t \<Rightarrow> string \<Rightarrow> string \<Rightarrow> service_t option" where
  "dropin_flag s key val = map_option (\<lambda>k. put_flag k (atoi val \<noteq> 0) s) (map_of dropin_flags key)"

definition landlock_clear :: "bool \<Rightarrow> service_t \<Rightarrow> service_t" where
  "landlock_clear rw s = upd_child (landlock_update (filter (\<lambda>(p, is_rw). is_rw \<noteq> rw))) s"

text \<open>The lists and values an empty line of a drop-in clears.\<close>

definition dropin_clear :: "service_t \<Rightarrow> nat \<Rightarrow> string \<Rightarrow> line_outcome" where
  "dropin_clear s slot key =
     (if key = ''args'' then keeps (upd_child (argv_update (\<lambda>_. [])) s) slot
      else if key = ''env'' then keeps (upd_child (envp_update (\<lambda>_. [])) s) slot
      else if key = ''exec_pre'' then keeps (upd_child (exec_pre_update (\<lambda>_. [])) s) slot
      else if key = ''working_dir'' then keeps (upd_child (working_dir_update (\<lambda>_. [])) s) slot
      else if key = ''exec_stop'' then keeps (s\<lparr>exec_stop := []\<rparr>) slot
      else if key = ''exec_stop_post'' then keeps (s\<lparr>exec_stop_post := []\<rparr>) slot
      else if key = ''card'' then keeps (s\<lparr>cards := []\<rparr>) slot
      else if key = ''condition'' then keeps (s\<lparr>cond := []\<rparr>) slot
      else if key = ''listen'' then keeps (s\<lparr>listen := []\<rparr>) slot
      else if key = ''env_file'' then keeps (upd_child (env_file_update (\<lambda>_. [])) s) slot
      else if key = ''dep'' then keeps (s\<lparr>dep_name := replicate MAX_DEPS []\<rparr>) 0
      else if key = ''bind'' then keeps (s\<lparr>bind_name := []\<rparr>) slot
      else if key = ''landlock_ro'' \<or> key = ''landlock_rw'' then keeps (landlock_clear (key = ''landlock_rw'') s) slot
      else if key = ''rw_path'' then keeps (upd_child (rw_path_update (\<lambda>_. [])) s) slot
      else if key = ''landlock_bind_tcp'' then keeps (upd_child (landlock_bind_update (\<lambda>_. None)) s) slot
      else if key = ''landlock_connect_tcp'' then keeps (upd_child (landlock_connect_update (\<lambda>_. None)) s) slot
      else None)"

definition hard_explicit :: "nat \<Rightarrow> service_t \<Rightarrow> service_t" where
  "hard_explicit k s = upd_child (hard_set_update (set_bit k)) s"

definition svc_parse_dropin_line :: "service_t \<Rightarrow> nat \<Rightarrow> string \<Rightarrow> string \<Rightarrow> line_outcome" where
  "svc_parse_dropin_line s slot key val =
     (if key = ''name'' then rejects ErrDropinName
      else case dropin_flag s key val of
             Some s' \<Rightarrow> keeps s' slot
           | None \<Rightarrow>
               if key = ''no_new_privs'' then keeps (put_flag SVC_NO_NEW_PRIVS (atoi val \<noteq> 0) (hard_explicit HARD_NNP s)) slot
               else if skip_blank val \<noteq> [] then None
               else dropin_clear s slot key)"

section \<open>One line\<close>

text \<open>The branches of \<^verbatim>\<open>svc_parse_line\<close> in the order of the source, by group; \<^verbatim>\<open>None\<close> falls through to the
  next group.\<close>

definition env_put :: "string \<Rightarrow> string list \<Rightarrow> (parse_err + string list)" where
  "env_put val es =
     (if CHR ''='' \<notin> set val then Inr es
      else
        (let kl = length (takeWhile (\<lambda>c. c \<noteq> CHR ''='') val) + 1 in
         case first_index (\<lambda>e. take kl e = take kl val) es of
           Some i \<Rightarrow> Inr (es[i := val])
         | None \<Rightarrow> if MAX_ENV \<le> length es then Inl ErrEnv else Inr (es @ [val])))"

definition line_identity :: "service_t \<Rightarrow> nat \<Rightarrow> string \<Rightarrow> string \<Rightarrow> line_outcome" where
  "line_identity s slot key val =
     (if key = ''name'' then keeps (s\<lparr>svc_name := take 63 val\<rparr>) slot
      else if key = ''exec'' then
        (if \<exists>c\<in>set val. is_blank c then rejects ErrExecSpace else keeps (s\<lparr>svc_exec := take 255 val\<rparr>) slot)
      else if key = ''args'' then
        (if MAX_ARGV - 1 \<le> 1 + length (argv (svc_child s)) then rejects ErrArgs
         else keeps (upd_child (argv_update (\<lambda>as. as @ [skip_blank val])) s) slot)
      else if key = ''env'' then
        (case env_put (skip_blank val) (envp (svc_child s)) of
           Inl e \<Rightarrow> rejects e
         | Inr es \<Rightarrow> keeps (upd_child (envp_update (\<lambda>_. es)) s) slot)
      else if key = ''env_file'' then
        (let v = skip_blank val; d = (if v \<noteq> [] \<and> hd v = CHR ''-'' then tl v else v) in
         if d = [] \<or> hd d \<noteq> CHR ''/'' \<or> 256 \<le> length v \<or> MAX_ENV_FILES \<le> length (env_file (svc_child s))
         then rejects ErrEnvFile
         else keeps (upd_child (env_file_update (\<lambda>fs. fs @ [v])) s) slot)
      else None)"

definition strip_chars :: "string \<Rightarrow> string \<Rightarrow> string" where
  "strip_chars cs s = dropWhile (\<lambda>c. c \<in> set cs) s"

definition card_ok :: "string \<Rightarrow> bool" where
  "card_ok c =
     (if starts_with ''exec:'' c then svc_cmd_ok (drop 5 c)
      else starts_with ''fallback:'' c \<and> drop 9 c \<noteq> [] \<and> length (drop 9 c) < 64 \<and>
           (\<forall>x\<in>set (drop 9 c). x \<noteq> CHR ''/'' \<and> \<not> is_blank x))"

definition line_commands :: "service_t \<Rightarrow> nat \<Rightarrow> string \<Rightarrow> string \<Rightarrow> line_outcome" where
  "line_commands s slot key val =
     (let c = skip_blank val in
      if key = ''exec_pre'' then
        (if \<not> svc_cmd_ok (strip_chars ''+-'' c) \<or> MAX_EXEC_PRE \<le> length (exec_pre (svc_child s)) then rejects ErrExecPre
         else keeps (upd_child (exec_pre_update (\<lambda>xs. xs @ [c])) s) slot)
      else if key = ''exec_stop'' then
        (if \<not> svc_cmd_ok (strip_chars ''-'' c) \<or> MAX_EXEC_PRE \<le> length (exec_stop s) then rejects ErrExecStop
         else keeps (s\<lparr>exec_stop := exec_stop s @ [c]\<rparr>) slot)
      else if key = ''exec_stop_post'' then
        (if \<not> svc_cmd_ok (strip_chars ''-'' c) \<or> MAX_EXEC_PRE \<le> length (exec_stop_post s) then rejects ErrExecStop
         else keeps (s\<lparr>exec_stop_post := exec_stop_post s @ [c]\<rparr>) slot)
      else if key = ''card'' then
        (if \<not> card_ok c \<or> MAX_CARDS \<le> length (cards s) then rejects ErrCard
         else keeps (s\<lparr>cards := cards s @ [c]\<rparr>) slot)
      else None)"

definition cond_arg_ok :: "string \<Rightarrow> bool" where
  "cond_arg_ok v =
     (case cond_kind v of
        None \<Rightarrow> False
      | Some (k, a) \<Rightarrow>
          (let b = (if a \<noteq> [] \<and> hd a = CHR ''|'' then tl a else a)
           in (if b \<noteq> [] \<and> hd b = CHR ''!'' then tl b else b) \<noteq> []))"

definition line_sockets :: "parse_env \<Rightarrow> service_t \<Rightarrow> nat \<Rightarrow> string \<Rightarrow> string \<Rightarrow> line_outcome" where
  "line_sockets pe s slot key val =
     (let v = skip_blank val in
      if key = ''listen'' then
        (if MAX_LISTEN \<le> length (listen s) \<or> 112 \<le> length v \<or> \<not> service_listen_parse pe v then rejects ErrListen
         else keeps (s\<lparr>listen := listen s @ [v]\<rparr>) slot)
      else if key = ''condition'' then
        (if MAX_COND \<le> length (cond s) \<or> 128 \<le> length v \<or> \<not> cond_arg_ok v then rejects ErrCondition
         else keeps (s\<lparr>cond := cond s @ [v]\<rparr>) slot)
      else if key = ''wait_socket'' then
        (if v = [] \<or> hd v \<noteq> CHR ''/'' \<or> 108 \<le> length v then rejects ErrWaitSocket
         else keeps (s\<lparr>wait_socket := v\<rparr>) slot)
      else if key = ''listen_lazy'' then
        keeps (s\<lparr>listen_lazy := atoi val \<noteq> 0, listen_hold := atoi val \<noteq> 0\<rparr>) slot
      else if key = ''socket_mode'' then
        (case parse_socket_mode val of
           None \<Rightarrow> rejects ErrSocketMode
         | Some m \<Rightarrow> keeps (upd_child (socket_mode_update (\<lambda>_. m)) s) slot)
      else if key = ''socket_user'' then keeps (upd_child (socket_user_update (\<lambda>_. take 31 val)) s) slot
      else if key = ''socket_group'' then keeps (upd_child (socket_group_update (\<lambda>_. take 31 val)) s) slot
      else if key = ''expand_args'' then keeps (upd_child (expand_args_update (\<lambda>_. atoi val \<noteq> 0)) s) slot
      else None)"

definition line_deps :: "bool \<Rightarrow> service_t \<Rightarrow> nat \<Rightarrow> string \<Rightarrow> string \<Rightarrow> line_outcome" where
  "line_deps dropin s slot key val =
     (if key = ''bind'' then
        (let v = skip_blank val in
         if bind_name s \<noteq> [] \<and> \<not> dropin then rejects ErrBindTwice
         else if v = [] \<or> 64 \<le> length v then rejects ErrBind
         else keeps (s\<lparr>bind_name := v\<rparr>) slot)
      else if key = ''dep'' then
        (if val \<in> set (take slot (dep_name s)) then keeps s slot
         else if MAX_DEPS \<le> slot then rejects ErrDeps
         else keeps (s\<lparr>dep_name := (dep_name s)[slot := take 63 val]\<rparr>) (slot + 1))
      else None)"

text \<open>A flag of a base file can only be set.\<close>

definition flag_line :: "nat \<Rightarrow> service_t \<Rightarrow> nat \<Rightarrow> string \<Rightarrow> line_outcome" where
  "flag_line k s slot val = (if atoi val \<noteq> 0 then keeps (add_flag k s) slot else None)"

definition line_privileges :: "service_t \<Rightarrow> nat \<Rightarrow> string \<Rightarrow> string \<Rightarrow> line_outcome" where
  "line_privileges s slot key val =
     (if key = ''oneshot'' then flag_line SVC_ONESHOT s slot val
      else if key = ''needs_root'' then flag_line SVC_NEEDS_ROOT s slot val
      else if key = ''no_new_privs'' then
        keeps (let s' = hard_explicit HARD_NNP s in if atoi val \<noteq> 0 then add_flag SVC_NO_NEW_PRIVS s' else s') slot
      else if key = ''keep_caps'' then
        (case parse_cap_list val of
           None \<Rightarrow> rejects ErrKeepCaps
         | Some m \<Rightarrow> keeps (upd_child (\<lambda>c. c\<lparr>cap_keep_mask := m, cap_restrict := True\<rparr>) s) slot)
      else if key = ''ambient_caps'' then
        (case parse_cap_list val of
           None \<Rightarrow> rejects ErrAmbientCaps
         | Some m \<Rightarrow> keeps (upd_child (cap_ambient_mask_update (\<lambda>_. m)) s) slot)
      else None)"

definition parse_ns_field :: "service_t \<Rightarrow> nat \<Rightarrow> string \<Rightarrow> string \<Rightarrow> line_outcome" where
  "parse_ns_field s slot key val =
     (if key = ''private_tmp'' then
        (case parse_ns_bool val of
           None \<Rightarrow> rejects ErrNs
         | Some b \<Rightarrow> keeps (upd_child (ns_private_tmp_update (\<lambda>_. b \<noteq> 0)) (hard_explicit HARD_PT s)) slot)
      else if key = ''protect_system'' then
        (case parse_protect_system val of
           None \<Rightarrow> rejects ErrNs
         | Some b \<Rightarrow> keeps (upd_child (ns_protect_system_update (\<lambda>_. b)) (hard_explicit HARD_PS s)) slot)
      else if key = ''protect_home'' then
        (case parse_ns_bool val of
           None \<Rightarrow> rejects ErrNs
         | Some b \<Rightarrow> keeps (upd_child (ns_protect_home_update (\<lambda>_. b \<noteq> 0)) (hard_explicit HARD_PH s)) slot)
      else None)"

text \<open>The ports of a \<^verbatim>\<open>landlock_*_tcp=\<close> line after those already there; \<^verbatim>\<open>none\<close> is remembered.\<close>

fun tcp_ports :: "string list \<Rightarrow> u16 list \<Rightarrow> bool \<Rightarrow> (u16 list \<times> bool) option" where
  "tcp_ports [] ps none = Some (ps, none)"
| "tcp_ports (tok # toks) ps none =
     (let (port, r) = strtol tok in
      if tok = ''none'' then tcp_ports toks ps True
      else if tok = [] \<or> \<not> c_isdigit (hd tok) \<or> r \<noteq> [] \<or> 65535 < port \<or> MAX_LANDLOCK \<le> length ps then None
      else tcp_ports toks (ps @ [word_of_int port]) none)"

definition landlock_tcp :: "string \<Rightarrow> u16 list option \<Rightarrow> u16 list option" where
  "landlock_tcp val old =
     (let toks = tokens (\<lambda>c. c = CHR '','' \<or> is_blank c) val in
      if 256 \<le> length val \<or> toks = [] then None
      else case tcp_ports toks (case old of None \<Rightarrow> [] | Some ps \<Rightarrow> ps) False of
             None \<Rightarrow> None
           | Some (ps, none) \<Rightarrow> if none \<and> 1 < length toks then None else Some (if none then [] else ps))"

definition line_landlock :: "service_t \<Rightarrow> nat \<Rightarrow> string \<Rightarrow> string \<Rightarrow> line_outcome" where
  "line_landlock s slot key val =
     (let v = skip_blank val; c = svc_child s in
      if key = ''landlock_ro'' \<or> key = ''landlock_rw'' then
        (if v = [] \<or> hd v \<noteq> CHR ''/'' \<or> (\<exists>x\<in>set v. is_blank x) \<or> MAX_LANDLOCK \<le> length (landlock c)
         then rejects ErrLandlock
         else keeps (upd_child (landlock_update (\<lambda>ps. ps @ [(v, key = ''landlock_rw'')])) s) slot)
      else if key = ''rw_path'' then
        (case rw_path_ok v of
           None \<Rightarrow> rejects ErrRwPath
         | Some p \<Rightarrow>
             if MAX_RW_PATHS \<le> length (rw_path c) then rejects ErrRwPath
             else keeps (upd_child (rw_path_update (\<lambda>ps. ps @ [p])) s) slot)
      else if key = ''landlock_bind_tcp'' then
        (case landlock_tcp val (landlock_bind c) of
           None \<Rightarrow> rejects ErrLandlockTcp
         | Some ps \<Rightarrow> keeps (upd_child (landlock_bind_update (\<lambda>_. Some ps)) s) slot)
      else if key = ''landlock_connect_tcp'' then
        (case landlock_tcp val (landlock_connect c) of
           None \<Rightarrow> rejects ErrLandlockTcp
         | Some ps \<Rightarrow> keeps (upd_child (landlock_connect_update (\<lambda>_. Some ps)) s) slot)
      else None)"

definition line_flags :: "service_t \<Rightarrow> nat \<Rightarrow> string \<Rightarrow> string \<Rightarrow> line_outcome" where
  "line_flags s slot key val =
     (if key = ''critical'' then flag_line SVC_CRITICAL s slot val
      else if key = ''no_restart'' then flag_line SVC_NO_RESTART s slot val
      else if key = ''stop_first'' then flag_line SVC_STOP_FIRST s slot val
      else if key = ''main_pid_notify'' then flag_line SVC_MAIN_PID_NOTIFY s slot val
      else if key = ''stable_secs'' then
        (if 0 < atoi val \<or> val = ''0'' then keeps (s\<lparr>stable_secs := atoi val\<rparr>) slot else None)
      else if key = ''oom_score_adj'' then
        (let v = atoi val in
         keeps (if -1000 \<le> v \<and> v \<le> 1000 then upd_child (oom_score_adj_update (\<lambda>_. Some v)) s else s) slot)
      else None)"

definition cgroup_numbers :: "string \<Rightarrow> bool" where
  "cgroup_numbers val \<longleftrightarrow> (\<forall>c\<in>set val. c_isdigit c \<or> c = CHR '' '')"

definition line_ready :: "service_t \<Rightarrow> nat \<Rightarrow> string \<Rightarrow> string \<Rightarrow> line_outcome" where
  "line_ready s slot key val =
     (if key = ''ready_bus_name'' then keeps (s\<lparr>ready_bus_name := take 255 val\<rparr>) slot
      else if key = ''notify'' then keeps (s\<lparr>notify := atoi val \<noteq> 0\<rparr>) slot
      else if key = ''fdstore'' then
        (let v = atoi val in keeps (if 0 \<le> v \<and> v \<le> 4096 then s\<lparr>fdstore_max := v\<rparr> else s) slot)
      else if key = ''ready_path'' then keeps (s\<lparr>ready_path := take 255 val\<rparr>) slot
      else if key = ''working_dir'' then
        (let d = (if val \<noteq> [] \<and> hd val = CHR ''-'' then tl val else val) in
         if (d = [] \<or> hd d \<noteq> CHR ''/'') \<and> d \<noteq> [CHR 0x7E] \<or> 256 \<le> length val then rejects ErrWorkingDir
         else keeps (upd_child (working_dir_update (\<lambda>_. val)) s) slot)
      else if key = ''verify_memory_max'' then
        (if 24 \<le> length val \<or> \<not> cgroup_numbers val then rejects ErrVerify else keeps (s\<lparr>verify_memory_max := val\<rparr>) slot)
      else if key = ''verify_cpu_max'' then
        (if 40 \<le> length val \<or> \<not> cgroup_numbers val then rejects ErrVerify else keeps (s\<lparr>verify_cpu_max := val\<rparr>) slot)
      else if key = ''verify_pids_max'' then
        (if 24 \<le> length val \<or> \<not> cgroup_numbers val then rejects ErrVerify else keeps (s\<lparr>verify_pids_max := val\<rparr>) slot)
      else if key = ''pid_file'' then keeps (s\<lparr>pid_file := take 255 val\<rparr>) slot
      else None)"

definition parse_priority :: "string \<Rightarrow> prio_t" where
  "parse_priority val =
     (if strcaseeq val ''critical'' then PRIO_CRITICAL
      else if strcaseeq val ''peripheral'' then PRIO_PERIPHERAL else PRIO_STANDARD)"

definition line_safety :: "service_t \<Rightarrow> nat \<Rightarrow> string \<Rightarrow> string \<Rightarrow> line_outcome" where
  "line_safety s slot key val =
     (if key = ''priority'' then keeps (s\<lparr>priority := parse_priority val\<rparr>) slot
      else if key = ''fuse'' then keeps (s\<lparr>fuse := atoi val \<noteq> 0\<rparr>) slot
      else if key = ''fuse_cmd'' then keeps (s\<lparr>fuse_cmd := take 255 val\<rparr>) slot
      else if key = ''failsafe'' then keeps (s\<lparr>failsafe_cmd := take 255 val\<rparr>) slot
      else if key = ''failsafe_timeout_ms'' then keeps (s\<lparr>failsafe_timeout_ms := atoi val\<rparr>) slot
      else if key = ''ready_poll_hz'' then keeps (s\<lparr>ready_poll_hz := atoi val\<rparr>) slot
      else if key = ''no_excise'' then keeps (s\<lparr>no_excise := atoi val \<noteq> 0\<rparr>) slot
      else if key = ''watchdog_timeout_ms'' then keeps (s\<lparr>watchdog_timeout_ms := atoi val\<rparr>) slot
      else if key = ''watchdog_sec'' then keeps (s\<lparr>watchdog_sec := atoi val\<rparr>) slot
      else None)"

definition line_limits :: "service_t \<Rightarrow> nat \<Rightarrow> string \<Rightarrow> string \<Rightarrow> line_outcome" where
  "line_limits s slot key val =
     (if key = ''cpu_limit'' then keeps (s\<lparr>cpu_limit_pct := atoi val\<rparr>) slot
      else if key = ''mem_limit'' then keeps (s\<lparr>mem_limit_mb := fst (strtol val)\<rparr>) slot
      else if key = ''cpuset'' then keeps (s\<lparr>cpuset := take 63 val\<rparr>) slot
      else if key = ''cpuset_partition'' then keeps (s\<lparr>cpuset_partition := parse_partition val\<rparr>) slot
      else if key = ''allowed_slot_min'' then keeps (s\<lparr>allowed_slot_min := atoi val\<rparr>) slot
      else if key = ''allowed_slot_max'' then keeps (s\<lparr>allowed_slot_max := atoi val\<rparr>) slot
      else if key = ''max_restarts'' then keeps (s\<lparr>max_restarts := atoi val\<rparr>) slot
      else if key = ''restart_sec'' then keeps (s\<lparr>restart_sec := max 0 (min 3600 (atoi val))\<rparr>) slot
      else if key = ''start_timeout_sec'' then keeps (s\<lparr>start_timeout_sec := atoi val\<rparr>) slot
      else if key = ''stop_timeout_sec'' then
        (let v = atoi val in keeps (s\<lparr>stop_timeout_sec := if 1 \<le> v \<and> v \<le> 300 then v else 0\<rparr>) slot)
      else None)"

definition line_timers :: "service_t \<Rightarrow> nat \<Rightarrow> string \<Rightarrow> string \<Rightarrow> line_outcome" where
  "line_timers s slot key val =
     (if key = ''on_boot_sec'' then
        keeps (add_flag SVC_ONESHOT (add_flag SVC_TIMER (s\<lparr>timer_boot_sec := atoi val\<rparr>))) slot
      else if key = ''on_active_sec'' then
        keeps (add_flag SVC_ONESHOT (add_flag SVC_TIMER (s\<lparr>timer_interval_sec := atoi val\<rparr>))) slot
      else if key = ''on_calendar'' then
        keeps (case parse_calendar s val of None \<Rightarrow> s | Some s' \<Rightarrow> s') slot
      else if key = ''persistent'' then flag_line SVC_TIMER_PERSIST s slot val
      else None)"

text \<open>\<^verbatim>\<open>strtoul(val, &end, 10)\<close>: the value, whether it overflowed, and whether the whole of a non-empty
  value was a number. A minus sign negates in \<^verbatim>\<open>unsigned long\<close>.\<close>

definition strtoul_all :: "string \<Rightarrow> (int \<times> bool) option" where
  "strtoul_all s =
     (let s1 = dropWhile c_isspace s;
          neg = (s1 \<noteq> [] \<and> hd s1 = CHR ''-'');
          s2 = (if s1 \<noteq> [] \<and> (hd s1 = CHR ''-'' \<or> hd s1 = CHR ''+'') then tl s1 else s1);
          (v, r) = scan_digits 0 s2
      in if s2 = [] \<or> \<not> c_isdigit (hd s2) \<or> r \<noteq> [] then None
         else if 2 ^ 64 \<le> v then Some (2 ^ 64 - 1, True)
         else Some (if neg then (- v) mod 2 ^ 64 else v, False))"

definition line_user :: "parse_env \<Rightarrow> service_t \<Rightarrow> nat \<Rightarrow> string \<Rightarrow> string \<Rightarrow> line_outcome" where
  "line_user pe s slot key val =
     (if key = ''user'' then
        (let pw = (case strtoul_all val of
                     None \<Rightarrow> pe_getpwnam pe val
                   | Some (v, ov) \<Rightarrow> if \<not> ov \<and> v < 2 ^ 32 - 1 then pe_getpwuid pe (word_of_int v) else None) in
         keeps (upd_child (\<lambda>c. case pw of
              None \<Rightarrow> c\<lparr>run_uid := 0, run_gid := 0, run_user := take 31 val\<rparr>
            | Some p \<Rightarrow> c\<lparr>run_uid := pw_uid p, run_gid := pw_gid p, run_user := take 31 (pw_name p)\<rparr>) s) slot)
      else None)"

definition orelse :: "line_outcome \<Rightarrow> line_outcome \<Rightarrow> line_outcome" where
  "orelse a b = (case a of None \<Rightarrow> b | Some r \<Rightarrow> Some r)"

definition line_key :: "parse_env \<Rightarrow> bool \<Rightarrow> service_t \<Rightarrow> nat \<Rightarrow> string \<Rightarrow> string \<Rightarrow> line_outcome" where
  "line_key pe dropin s slot key val =
     orelse (line_identity s slot key val)
    (orelse (line_commands s slot key val)
    (orelse (line_sockets pe s slot key val)
    (orelse (line_deps dropin s slot key val)
    (orelse (line_privileges s slot key val)
    (orelse (parse_ns_field s slot key val)
    (orelse (line_landlock s slot key val)
    (orelse (line_flags s slot key val)
    (orelse (line_ready s slot key val)
    (orelse (line_safety s slot key val)
    (orelse (line_limits s slot key val)
    (orelse (line_timers s slot key val)
            (line_user pe s slot key val))))))))))))"

definition svc_parse_line :: "parse_env \<Rightarrow> bool \<Rightarrow> string \<Rightarrow> parse_state \<Rightarrow> parse_err + parse_state" where
  "svc_parse_line pe dropin line = (\<lambda>(s, slot).
     if CHR ''='' \<notin> set line then Inr (s, slot)
     else
       (let key = takeWhile (\<lambda>c. c \<noteq> CHR ''='') line;
            val = takeWhile (\<lambda>c. c \<noteq> CHR 0x0D \<and> c \<noteq> CHR 0x0A) (tl (dropWhile (\<lambda>c. c \<noteq> CHR ''='') line))
        in case orelse (if dropin then svc_parse_dropin_line s slot key val else None)
                  (orelse (svc_parse_rlimit s slot key val) (line_key pe dropin s slot key val)) of
             None \<Rightarrow> Inr (s, slot)
           | Some r \<Rightarrow> r))"

section \<open>After the last line\<close>

definition path_under :: "string \<Rightarrow> string list \<Rightarrow> bool" where
  "path_under p dirs \<longleftrightarrow> (\<exists>d\<in>set dirs. starts_with d p)"

text \<open>The \<^verbatim>\<open>strstr\<close> loop: the first well-formed \<^verbatim>\<open>schema.hardening_default=0|1\<close> word of the kernel command
  line decides, else the file, which must read \<^verbatim>\<open>on\<close>. \<^verbatim>\<open>prev\<close> is \<^verbatim>\<open>p[-1]\<close>, \<^verbatim>\<open>None\<close> at the start.\<close>

definition hardening_key :: string where
  "hardening_key = ''schema.hardening_default=''"

fun hardening_word :: "char option \<Rightarrow> string \<Rightarrow> bool option" where
  "hardening_word prev [] = None"
| "hardening_word prev (c # s) =
     (let v = drop (length hardening_key) (c # s) in
      if starts_with hardening_key (c # s) \<and> (case prev of None \<Rightarrow> True | Some p \<Rightarrow> c_isspace p) \<and>
         v \<noteq> [] \<and> (hd v = CHR ''0'' \<or> hd v = CHR ''1'') \<and> (tl v = [] \<or> c_isspace (hd (tl v)))
      then Some (hd v = CHR ''1'')
      else hardening_word (Some c) s)"

definition hardening_default_resolve :: "string \<Rightarrow> string option \<Rightarrow> bool" where
  "hardening_default_resolve cmdline file =
     (case hardening_word None cmdline of
        Some b \<Rightarrow> b
      | None \<Rightarrow>
          (case file of
             None \<Rightarrow> False
           | Some f \<Rightarrow> rev (dropWhile c_isspace (rev (dropWhile c_isspace f))) = ''on''))"

definition default_hard :: "nat \<Rightarrow> (service_t \<Rightarrow> service_t) \<Rightarrow> service_t \<Rightarrow> service_t" where
  "default_hard k f s =
     (if bit (hard_set (svc_child s)) k then s else upd_child (hard_default_update (set_bit k)) (f s))"

definition apply_hardening_defaults :: "bool \<Rightarrow> service_t \<Rightarrow> service_t" where
  "apply_hardening_defaults on s =
     (if \<not> on then s
      else default_hard HARD_PH (upd_child (ns_protect_home_update (\<lambda>_. True)))
          (default_hard HARD_PS (upd_child (ns_protect_system_update (\<lambda>_. 1)))
          (default_hard HARD_PT (upd_child (ns_private_tmp_update (\<lambda>_. True)))
          (default_hard HARD_NNP (add_flag SVC_NO_NEW_PRIVS) s))))"

text \<open>What \<^verbatim>\<open>ns_hides\<close> decides about a knob that is on: leave it, drop the default, or refuse.\<close>

datatype hides = HideNo | HideDrop | HideRefuse

definition hidden_wd :: "svc_child_t \<Rightarrow> string" where
  "hidden_wd c =
     (if working_dir c = [] then []
      else
        (let d = (if hd (working_dir c) = CHR ''-'' then tl (working_dir c) else working_dir c);
             root = (run_user c = [] \<or> run_user c = ''root'')
         in take 259 ((if d \<noteq> [CHR 0x7E] then d else if root then ''/root'' else ''/home'') @ ''/'')))"

definition ns_verdict :: "service_t \<Rightarrow> nat \<Rightarrow> bool \<Rightarrow> string list \<Rightarrow> hides" where
  "ns_verdict s k knob dirs =
     (let c = svc_child s; dflt = bit (hard_default c) k in
      if \<not> knob then HideNo
      else if path_under (svc_exec s) dirs \<or> path_under (ready_path s) dirs
      then (if dflt then HideDrop else HideRefuse)
      else if hidden_wd c \<noteq> [] \<and> path_under (hidden_wd c) dirs \<and> dflt then HideDrop
      else HideNo)"

definition drop_default :: "nat \<Rightarrow> (svc_child_t \<Rightarrow> svc_child_t) \<Rightarrow> service_t \<Rightarrow> service_t" where
  "drop_default k off s =
     upd_child (\<lambda>c. (off c)\<lparr>hard_default := unset_bit k (hard_default c), hard_dropped := set_bit k (hard_dropped c)\<rparr>) s"

definition ns_hides ::
    "nat \<Rightarrow> (svc_child_t \<Rightarrow> bool) \<Rightarrow> (svc_child_t \<Rightarrow> svc_child_t) \<Rightarrow> string list \<Rightarrow> service_t \<Rightarrow> parse_err + service_t" where
  "ns_hides k knob off dirs s =
     (case ns_verdict s k (knob (svc_child s)) dirs of
        HideNo \<Rightarrow> Inr s
      | HideDrop \<Rightarrow> Inr (drop_default k off s)
      | HideRefuse \<Rightarrow> Inl ErrHides)"

definition service_landlock_on :: "service_t \<Rightarrow> bool" where
  "service_landlock_on s \<longleftrightarrow>
     (let c = svc_child s in landlock c \<noteq> [] \<or> landlock_bind c \<noteq> None \<or> landlock_connect c \<noteq> None)"

definition landlock_beneath :: "string \<Rightarrow> string \<Rightarrow> bool" where
  "landlock_beneath path p \<longleftrightarrow>
     (let q = rtrim_slash p in
      starts_with q path \<and>
      (length path = length q \<or> path ! length q = CHR ''/'' \<or> q = ''/''))"

definition pre_covered :: "parse_env \<Rightarrow> string \<Rightarrow> string list \<Rightarrow> bool" where
  "pre_covered pe cmd paths =
     (let pl = takeWhile (\<lambda>c. c \<in> set ''+-'') cmd in
      if CHR ''+'' \<in> set pl \<or> CHR ''-'' \<in> set pl then True
      else case service_split_cmdline 32 cmd of
             None \<Rightarrow> False
           | Some ws \<Rightarrow>
               ws \<noteq> [] \<and> (\<exists>p\<in>set paths. landlock_beneath (hd ws) p \<or>
                 (case (pe_realpath pe (hd ws), pe_realpath pe p) of
                    (Some a, Some b) \<Rightarrow> landlock_beneath a b
                  | _ \<Rightarrow> False)))"

abbreviation (input) CAP_SYS_ADMIN :: nat where "CAP_SYS_ADMIN \<equiv> 21"

definition landlock_check :: "parse_env \<Rightarrow> service_t \<Rightarrow> parse_err option" where
  "landlock_check pe s =
     (let c = svc_child s; paths = map fst (landlock c) in
      if \<not> service_landlock_on s then None
      else if paths \<noteq> [] \<and> \<not> (\<exists>p\<in>set paths. landlock_beneath (svc_exec s) p) then Some ErrLandlockExec
      else if paths \<noteq> [] \<and> \<not> (\<forall>x\<in>set (exec_pre c). pre_covered pe x paths) then Some ErrLandlockPre
      else if \<not> has_flag s SVC_NO_NEW_PRIVS \<and> cap_restrict c \<and> \<not> bit (cap_keep_mask c) CAP_SYS_ADMIN
      then Some ErrLandlockNnp
      else None)"

definition tmp_dirs :: "string list" where "tmp_dirs = [''/tmp/'', ''/var/tmp/'']"
definition home_dirs :: "string list" where "home_dirs = [''/home/'', ''/root/'', ''/run/user/'']"

definition hardening_finalize :: "parse_env \<Rightarrow> service_t \<Rightarrow> parse_err + service_t" where
  "hardening_finalize pe s =
     (case ns_hides HARD_PT ns_private_tmp (ns_private_tmp_update (\<lambda>_. False)) tmp_dirs
             (apply_hardening_defaults (pe_hardening pe) s) of
        Inl e \<Rightarrow> Inl e
      | Inr s2 \<Rightarrow>
          (case ns_hides HARD_PH ns_protect_home (ns_protect_home_update (\<lambda>_. False)) home_dirs s2 of
             Inl e \<Rightarrow> Inl e
           | Inr s3 \<Rightarrow> (case landlock_check pe s3 of Some e \<Rightarrow> Inl e | None \<Rightarrow> Inr s3)))"

text \<open>\<^verbatim>\<open>bind=X\<close> is also \<^verbatim>\<open>dep=X\<close>.\<close>

definition bind_dep :: "service_t \<Rightarrow> nat \<Rightarrow> parse_err + service_t" where
  "bind_dep s slot =
     (if bind_name s = [] then Inr s
      else if has_flag s SVC_TIMER then Inl ErrBindTimer
      else if bind_name s \<in> set (take slot (dep_name s)) then Inr s
      else if MAX_DEPS \<le> slot then Inl ErrBindSlot
      else Inr (s\<lparr>dep_name := (dep_name s)[slot := take 63 (bind_name s)]\<rparr>))"

definition finalize_defaults :: "service_t \<Rightarrow> service_t" where
  "finalize_defaults s0 =
     (let s1 = (if cpuset_partition s0 \<noteq> PART_MEMBER \<and> cpuset s0 = [] then s0\<lparr>cpuset_partition := PART_MEMBER\<rparr> else s0);
          s2 = (if has_flag s1 SVC_TIMER_PERSIST \<and> \<not> has_flag s1 SVC_TIMER_CALENDAR
                then clear_flag SVC_TIMER_PERSIST s1 else s1)
      in if start_timeout_sec s2 = -1
         then s2\<lparr>start_timeout_sec :=
                if has_flag s2 SVC_ONESHOT \<and> \<not> has_flag s2 SVC_TIMER then ONESHOT_START_TIMEOUT else 0\<rparr>
         else s2)"

definition base_name :: "string \<Rightarrow> string" where
  "base_name path = rev (takeWhile (\<lambda>c. c \<noteq> CHR ''/'') (rev path))"

definition name_from_file :: "string \<Rightarrow> service_t \<Rightarrow> parse_err + service_t" where
  "name_from_file path s =
     (let fname = base_name path in
      if length fname < 5 \<or> \<not> ends_with ''.svc'' fname then Inr s
      else
        (let base = take 255 (take (length fname - 4) fname);
             bat = dropWhile (\<lambda>c. c \<noteq> CHR ''@'') base;
             s1 = (if bat \<noteq> [] \<or> svc_name s = [] then s\<lparr>svc_name := take 63 base\<rparr> else s)
         in if bat \<noteq> [] \<and> tl bat = [] then Inl ErrTemplate
            else Inr (if bat \<noteq> [] then s1\<lparr>svc_instance := take 31 (tl bat)\<rparr> else s1)))"

definition svc_finalize :: "parse_env \<Rightarrow> string \<Rightarrow> parse_state \<Rightarrow> parse_err + service_t" where
  "svc_finalize pe path = (\<lambda>(s0, slot).
     case hardening_finalize pe s0 of
       Inl e \<Rightarrow> Inl e
     | Inr s1 \<Rightarrow>
         (case bind_dep (s1\<lparr>no_restart_cfg := has_flag s1 SVC_NO_RESTART\<rparr>) slot of
            Inl e \<Rightarrow> Inl e
          | Inr s2 \<Rightarrow>
              if service_verifies_limits s2 \<and> \<not> notify s2 then Inl ErrVerifyNotify
              else if has_flag s2 SVC_MAIN_PID_NOTIFY \<and> \<not> notify s2 then Inl ErrMainPidNotify
              else case name_from_file path (finalize_defaults s2) of
                     Inl e \<Rightarrow> Inl e
                   | Inr s3 \<Rightarrow> if svc_name s3 = [] \<or> svc_exec s3 = [] then Inl ErrNoName else Inr s3))"

section \<open>Files and directories\<close>

text \<open>What the loader asks of the file system: \<^verbatim>\<open>stat\<close> of a drop-in directory with its owner and mode,
  the names in a directory, whether a path is a regular file, what \<^verbatim>\<open>service_open_trusted\<close> opens, and what
  a plain \<^verbatim>\<open>fopen\<close> reads; for the directory itself \<^verbatim>\<open>realpath\<close> and the owner and mode of each
  directory on the way.\<close>

record load_fs =
  lf_euid :: nat
  lf_dir :: "string \<Rightarrow> (nat \<times> u32) option"
  lf_names :: "string \<Rightarrow> string list option"
  lf_isreg :: "string \<Rightarrow> bool"
  lf_open :: "string \<Rightarrow> trusted_open"
  lf_read :: "string \<Rightarrow> string option"
  lf_realpath :: "string \<Rightarrow> string option"
  lf_stat :: "string \<Rightarrow> (nat \<times> u32) option"

text \<open>\<^verbatim>\<open>scandir\<close> sorts by \<^verbatim>\<open>strcmp\<close>. A path that does not fit, is not a regular file or comes after the last
  free slot is skipped.\<close>

definition svc_dropin_scan :: "load_fs \<Rightarrow> string \<Rightarrow> string list \<Rightarrow> nat \<Rightarrow> string list option" where
  "svc_dropin_scan fs dir out mx =
     (if (case lf_dir fs dir of None \<Rightarrow> False | Some (u, m) \<Rightarrow> \<not> svc_dir_trusted (lf_euid fs) u m False) then None
      else case lf_names fs dir of
             None \<Rightarrow> Some out
           | Some ns \<Rightarrow>
               (let ps = map (\<lambda>n. dir @ ''/'' @ n) (sort (filter svc_dropin_filter ns));
                    good = filter (\<lambda>p. length p < 512 \<and> lf_isreg fs p) ps
                in Some (out @ take (mx - length out) good)))"

definition svc_dropin_list :: "load_fs \<Rightarrow> string \<Rightarrow> nat \<Rightarrow> string list option" where
  "svc_dropin_list fs path mx =
     (let fname = base_name path;
          at = dropWhile (\<lambda>c. c \<noteq> CHR ''@'') fname;
          own = take 511 (path @ ''.d'')
      in if at \<noteq> [] \<and> tl at \<noteq> [] \<and> tl at \<noteq> ''.svc'' \<and> 4 < length path \<and> ends_with ''.svc'' path
         then (case svc_dropin_scan fs (take 511 (take (length path - length at) path @ ''@.svc.d'')) [] mx of
                 None \<Rightarrow> None
               | Some out \<Rightarrow> svc_dropin_scan fs own out mx)
         else svc_dropin_scan fs own [] mx)"

fun parse_lines :: "parse_env \<Rightarrow> bool \<Rightarrow> line_result list \<Rightarrow> parse_state \<Rightarrow> parse_err + parse_state" where
  "parse_lines pe dropin [] st = Inr st"
| "parse_lines pe dropin (r # rs) st =
     (case r of
        RL_EOF \<Rightarrow> Inr st
      | RL_Long \<Rightarrow> Inl ErrLongLine
      | RL_Line l \<Rightarrow>
          (case svc_parse_line pe dropin l st of
             Inl e \<Rightarrow> Inl e
           | Inr st' \<Rightarrow> parse_lines pe dropin rs st'))"

definition svc_parse_file :: "parse_env \<Rightarrow> load_fs \<Rightarrow> bool \<Rightarrow> string \<Rightarrow> parse_state \<Rightarrow> parse_err + parse_state" where
  "svc_parse_file pe fs dropin path st =
     (case lf_open fs path of
        TRefused \<Rightarrow> Inl ErrRefused
      | TError \<Rightarrow> Inl ErrOpen
      | TOpen f \<Rightarrow> parse_lines pe dropin (svc_lines 512 f) st)"

fun parse_dropins :: "parse_env \<Rightarrow> load_fs \<Rightarrow> string list \<Rightarrow> parse_state \<Rightarrow> parse_err + parse_state" where
  "parse_dropins pe fs [] st = Inr st"
| "parse_dropins pe fs (d # ds) st =
     (case svc_parse_file pe fs True d st of
        Inl e \<Rightarrow> Inl e
      | Inr st' \<Rightarrow> parse_dropins pe fs ds st')"

definition fnv1a_bytes :: "u32 \<Rightarrow> string \<Rightarrow> u32" where
  "fnv1a_bytes h s = fold (\<lambda>c h. (h XOR of_nat (char_code c)) * 16777619) s h"

definition fnv1a_file_from :: "load_fs \<Rightarrow> u32 \<Rightarrow> string \<Rightarrow> u32" where
  "fnv1a_file_from fs h path = (case lf_read fs path of None \<Rightarrow> 0 | Some f \<Rightarrow> fnv1a_bytes h f)"

fun hash_dropins :: "load_fs \<Rightarrow> string list \<Rightarrow> u32 \<Rightarrow> u32" where
  "hash_dropins fs [] h = h"
| "hash_dropins fs (d # ds) h =
     (if h = 0 then 0 else hash_dropins fs ds (fnv1a_file_from fs (fnv1a_bytes h (d @ [CHR 0x00])) d))"

definition svc_content_hash :: "load_fs \<Rightarrow> string \<Rightarrow> string list \<Rightarrow> u32" where
  "svc_content_hash fs path dropins = hash_dropins fs dropins (fnv1a_file_from fs 2166136261 path)"

abbreviation (input) SVC_DROPIN_MAX :: nat where "SVC_DROPIN_MAX \<equiv> 32"

definition svc_load_file :: "parse_env \<Rightarrow> load_fs \<Rightarrow> string \<Rightarrow> parse_err + service_t" where
  "svc_load_file pe fs path =
     (case svc_dropin_list fs path SVC_DROPIN_MAX of
        None \<Rightarrow> Inl ErrRefused
      | Some ds \<Rightarrow>
          (case svc_parse_file pe fs False path (svc_init_defaults, 0) of
             Inl e \<Rightarrow> Inl e
           | Inr st \<Rightarrow>
               (case parse_dropins pe fs ds st of
                  Inl e \<Rightarrow> Inl e
                | Inr st' \<Rightarrow>
                    (case svc_finalize pe path st' of
                       Inl e \<Rightarrow> Inl e
                     | Inr s \<Rightarrow> Inr (s\<lparr>content_hash := svc_content_hash fs path ds\<rparr>)))))"

text \<open>\<^verbatim>\<open>svc_dir_chain_trusted\<close>: the directory and every parent up to the root.\<close>

definition parent_dir :: "string \<Rightarrow> string" where
  "parent_dir p =
     (let s = rev (drop 1 (dropWhile (\<lambda>c. c \<noteq> CHR ''/'') (rev p))) in if s = [] then ''/'' else s)"

function chain_trusted :: "load_fs \<Rightarrow> bool \<Rightarrow> string \<Rightarrow> bool" where
  "chain_trusted fs first p =
     (case lf_stat fs p of
        None \<Rightarrow> False
      | Some (u, m) \<Rightarrow>
          if \<not> svc_dir_trusted (lf_euid fs) u m (\<not> first) then False
          else if length p \<le> 1 then True
          else chain_trusted fs False (parent_dir p))"
  by pat_completeness auto
termination
proof (relation "measure (\<lambda>(fs, first, p). length p)", goal_cases)
  case (2 fs first p um u m)
  then show ?case using length_dropWhile_le [of "\<lambda>c. c \<noteq> CHR ''/''" "rev p"] by (auto simp: parent_dir_def Let_def)
qed simp

declare chain_trusted.simps [simp del]

definition svc_dir_chain_trusted :: "load_fs \<Rightarrow> string \<Rightarrow> bool" where
  "svc_dir_chain_trusted fs dir = (case lf_realpath fs dir of None \<Rightarrow> False | Some p \<Rightarrow> chain_trusted fs True p)"

text \<open>A directory: the entries in the order \<^verbatim>\<open>readdir\<close> gives them, up to the table's size, then the
  resolution of dependency names. The number beside the table is \<^verbatim>\<open>svc_refused\<close>.\<close>

fun load_entries ::
    "parse_env \<Rightarrow> load_fs \<Rightarrow> string \<Rightarrow> nat \<Rightarrow> string list \<Rightarrow> service_t list \<times> nat \<Rightarrow> service_t list \<times> nat" where
  "load_entries pe fs dir mx [] st = st"
| "load_entries pe fs dir mx (n # ns) (table, refused) =
     load_entries pe fs dir mx ns
       (if length n < 5 \<or> \<not> ends_with ''.svc'' n \<or> mx \<le> length table then (table, refused)
        else case svc_load_file pe fs (take 511 (dir @ ''/'' @ n)) of
               Inl e \<Rightarrow> (table, if e = ErrRefused then refused + 1 else refused)
             | Inr s \<Rightarrow> (table @ [s], refused))"

fun resolve_deps :: "string list \<Rightarrow> string list \<Rightarrow> int list \<Rightarrow> int list" where
  "resolve_deps names (d # ds) (i # is) =
     (if d = [] then i # is
      else (case first_index (\<lambda>n. n = d) names of None \<Rightarrow> i | Some j \<Rightarrow> int j) # resolve_deps names ds is)"
| "resolve_deps names _ is = is"

definition resolve_table :: "service_t list \<Rightarrow> service_t list" where
  "resolve_table table =
     map (\<lambda>s. s\<lparr>dep_idx := resolve_deps (map svc_name table) (dep_name s) (dep_idx s)\<rparr>) table"

definition services_load :: "parse_env \<Rightarrow> load_fs \<Rightarrow> string \<Rightarrow> nat \<Rightarrow> service_t list \<times> nat" where
  "services_load pe fs dir mx =
     (case lf_names fs dir of
        None \<Rightarrow> ([], 0)
      | Some ns \<Rightarrow>
          (let (table, refused) =
             load_entries pe fs dir mx ns ([], if svc_dir_chain_trusted fs dir then 0 else 1)
           in (resolve_table table, refused)))"

end
