(* ===== verification/SI_Load.thy ===== *)
theory SI_Load
  imports SI_Parse
begin

text \<open>
  What loading a \<^verbatim>\<open>.svc\<close> file and its drop-ins guarantees about the service the engine then runs: every
  string and list fits the array it is stored in, values that are bounded by the parser are in range,
  and the combinations \<^verbatim>\<open>svc_finalize\<close> refuses do not occur.
\<close>

section \<open>What a parsed service fits into\<close>

definition child_fits :: "svc_child_t \<Rightarrow> bool" where
  "child_fits c \<longleftrightarrow>
     length (argv c) \<le> MAX_ARGV - 2 \<and> length (envp c) \<le> MAX_ENV \<and> length (env_file c) \<le> MAX_ENV_FILES \<and>
     list_all (\<lambda>f. length f < 256) (env_file c) \<and> length (exec_pre c) \<le> MAX_EXEC_PRE \<and>
     length (socket_user c) < 32 \<and> length (socket_group c) < 32 \<and> length (run_user c) < 32 \<and>
     distinct (map rl_res (rlim c)) \<and> rl_res ` set (rlim c) \<subseteq> set rlim_keys \<and>
     length (working_dir c) < 256 \<and> (case oom_score_adj c of None \<Rightarrow> True | Some v \<Rightarrow> -1000 \<le> v \<and> v \<le> 1000) \<and>
     length (rw_path c) \<le> MAX_RW_PATHS \<and> length (landlock c) \<le> MAX_LANDLOCK \<and>
     (case landlock_bind c of None \<Rightarrow> True | Some ps \<Rightarrow> length ps \<le> MAX_LANDLOCK) \<and>
     (case landlock_connect c of None \<Rightarrow> True | Some ps \<Rightarrow> length ps \<le> MAX_LANDLOCK)"

definition lists_fit :: "service_t \<Rightarrow> bool" where
  "lists_fit s \<longleftrightarrow>
     length (exec_stop s) \<le> MAX_EXEC_PRE \<and> length (exec_stop_post s) \<le> MAX_EXEC_PRE \<and>
     length (cards s) \<le> MAX_CARDS \<and> length (listen s) \<le> MAX_LISTEN \<and> list_all (\<lambda>l. length l < 112) (listen s) \<and>
     length (cond s) \<le> MAX_COND \<and> list_all (\<lambda>c. length c < 128 \<and> cond_kind c \<noteq> None) (cond s)"

definition strings_fit :: "service_t \<Rightarrow> bool" where
  "strings_fit s \<longleftrightarrow>
     length (svc_name s) < 64 \<and> length (svc_instance s) < 32 \<and> length (svc_exec s) < 256 \<and>
     length (ready_path s) < 256 \<and> length (pid_file s) < 256 \<and> length (verify_memory_max s) < 24 \<and>
     length (verify_cpu_max s) < 40 \<and> length (verify_pids_max s) < 24 \<and> length (wait_socket s) < 108 \<and>
     length (fuse_cmd s) < 256 \<and> length (failsafe_cmd s) < 256 \<and> length (ready_bus_name s) < 256 \<and>
     length (cpuset s) < 64 \<and> length (bind_name s) < 64"

definition numbers_fit :: "service_t \<Rightarrow> bool" where
  "numbers_fit s \<longleftrightarrow>
     0 \<le> fdstore_max s \<and> fdstore_max s \<le> 4096 \<and> 0 \<le> restart_sec s \<and> restart_sec s \<le> 3600 \<and>
     0 \<le> stop_timeout_sec s \<and> stop_timeout_sec s \<le> 300 \<and>
     0 \<le> timer_cal_min s \<and> timer_cal_min s \<le> 59 \<and> -1 \<le> timer_cal_dow s \<and> timer_cal_dow s \<le> 6 \<and>
     -1 \<le> timer_cal_dom s \<and> timer_cal_dom s \<le> 31 \<and>
     (has_flag s SVC_TIMER_CALENDAR \<longrightarrow> has_flag s SVC_TIMER)"

definition deps_fit :: "service_t \<Rightarrow> nat \<Rightarrow> bool" where
  "deps_fit s slot \<longleftrightarrow>
     slot \<le> MAX_DEPS \<and> length (dep_name s) = MAX_DEPS \<and> list_all (\<lambda>d. length d < 64) (dep_name s) \<and>
     list_all (\<lambda>d. d = []) (drop slot (dep_name s)) \<and> dep_idx s = replicate MAX_DEPS (-1)"

definition svc_fits :: "service_t \<Rightarrow> nat \<Rightarrow> bool" where
  "svc_fits s slot \<longleftrightarrow>
     child_fits (svc_child s) \<and> lists_fit s \<and> strings_fit s \<and> numbers_fit s \<and> deps_fit s slot"

lemma flag_frames [simp]:
  "svc_child (add_flag k s) = svc_child s" "lists_fit (add_flag k s) = lists_fit s"
  "strings_fit (add_flag k s) = strings_fit s" "deps_fit (add_flag k s) slot = deps_fit s slot"
  "svc_child (clear_flag k s) = svc_child s" "lists_fit (clear_flag k s) = lists_fit s"
  "strings_fit (clear_flag k s) = strings_fit s" "deps_fit (clear_flag k s) slot = deps_fit s slot"
  by (simp_all add: add_flag_def clear_flag_def lists_fit_def strings_fit_def deps_fit_def)

lemma child_frames [simp]:
  "svc_child (upd_child f s) = f (svc_child s)" "lists_fit (upd_child f s) = lists_fit s"
  "strings_fit (upd_child f s) = strings_fit s" "numbers_fit (upd_child f s) = numbers_fit s"
  "deps_fit (upd_child f s) slot = deps_fit s slot" "svc_flags (upd_child f s) = svc_flags s"
  by (simp_all add: upd_child_def lists_fit_def strings_fit_def deps_fit_def numbers_fit_def)

lemma numbers_add_flag: "k \<noteq> SVC_TIMER_CALENDAR \<Longrightarrow> numbers_fit s \<Longrightarrow> numbers_fit (add_flag k s)"
  by (auto simp: numbers_fit_def add_flag_def bit_set_bit_iff)

lemma numbers_clear_flag: "k \<noteq> SVC_TIMER \<Longrightarrow> numbers_fit s \<Longrightarrow> numbers_fit (clear_flag k s)"
  by (auto simp: numbers_fit_def clear_flag_def bit_unset_bit_iff)

lemma svc_fits_init: "svc_fits svc_init_defaults 0"
  by (simp add: svc_fits_def svc_init_defaults_def svc_child_init_def child_fits_def lists_fit_def strings_fit_def
      numbers_fit_def deps_fit_def list_all_iff)

text \<open>Each group of keys keeps the invariant.\<close>

definition keeps_fit :: "line_outcome \<Rightarrow> service_t \<Rightarrow> nat \<Rightarrow> bool" where
  "keeps_fit out s slot \<longleftrightarrow>
     (case out of Some (Inr (s', slot')) \<Rightarrow> svc_fits s slot \<longrightarrow> svc_fits s' slot' | _ \<Rightarrow> True)"

lemma keeps_fit_out:
  "keeps_fit None s slot" "keeps_fit (Some (Inl e)) s slot"
  "(svc_fits s slot \<Longrightarrow> svc_fits s' slot') \<Longrightarrow> keeps_fit (Some (Inr (s', slot'))) s slot"
  by (simp_all add: keeps_fit_def)

lemma keeps_fit_branch:
  "(P \<Longrightarrow> keeps_fit a s slot) \<Longrightarrow> (\<not> P \<Longrightarrow> keeps_fit b s slot) \<Longrightarrow> keeps_fit (if P then a else b) s slot"
  "(o' = None \<Longrightarrow> keeps_fit n s slot) \<Longrightarrow> (\<And>x. o' = Some x \<Longrightarrow> keeps_fit (f x) s slot) \<Longrightarrow>
   keeps_fit (case o' of None \<Rightarrow> n | Some x \<Rightarrow> f x) s slot"
  "(\<And>e. r' = Inl e \<Longrightarrow> keeps_fit (h e) s slot) \<Longrightarrow> (\<And>x. r' = Inr x \<Longrightarrow> keeps_fit (g x) s slot) \<Longrightarrow>
   keeps_fit (case r' of Inl e \<Rightarrow> h e | Inr x \<Rightarrow> g x) s slot"
  "(\<And>x y. p' = (x, y) \<Longrightarrow> keeps_fit (k x y) s slot) \<Longrightarrow> keeps_fit (case p' of (x, y) \<Rightarrow> k x y) s slot"
  by (simp split: if_split, cases o', simp_all, cases r', simp_all, cases p', simp_all)

lemmas keeps_fitI = keeps_fit_out keeps_fit_branch

lemma put_flag_fits:
  "k \<noteq> SVC_TIMER_CALENDAR \<Longrightarrow> k \<noteq> SVC_TIMER \<Longrightarrow> svc_fits s slot \<Longrightarrow> svc_fits (put_flag k on s) slot"
  by (auto simp: svc_fits_def put_flag_def numbers_add_flag numbers_clear_flag)

lemma add_flag_fits: "k \<noteq> SVC_TIMER_CALENDAR \<Longrightarrow> svc_fits s slot \<Longrightarrow> svc_fits (add_flag k s) slot"
  by (simp add: svc_fits_def numbers_add_flag)

lemma svc_fits_child:
  "svc_fits s slot \<Longrightarrow> (child_fits (svc_child s) \<Longrightarrow> child_fits (f (svc_child s))) \<Longrightarrow> svc_fits (upd_child f s) slot"
  by (simp add: svc_fits_def)

lemmas fits_defs = svc_fits_def child_fits_def strings_fit_def lists_fit_def deps_fit_def numbers_fit_def

lemma env_put_fits: "env_put v es = Inr es' \<Longrightarrow> length es \<le> MAX_ENV \<Longrightarrow> length es' \<le> MAX_ENV"
  by (auto simp: env_put_def Let_def split: if_splits option.splits)

lemma fits_identity: "keeps_fit (line_identity s slot key val) s slot"
  unfolding line_identity_def Let_def
  by (intro keeps_fitI svc_fits_child; simp add: fits_defs env_put_fits)

lemma fits_commands: "keeps_fit (line_commands s slot key val) s slot"
  unfolding line_commands_def Let_def
  by (intro keeps_fitI svc_fits_child; simp add: fits_defs)

lemma fits_sockets: "keeps_fit (line_sockets pe s slot key val) s slot"
  unfolding line_sockets_def Let_def
  by (intro keeps_fitI svc_fits_child; simp add: fits_defs cond_arg_ok_def split: option.splits)

lemma list_all_update: "list_all P xs \<Longrightarrow> P v \<Longrightarrow> list_all P (xs[i := v])"
  using set_update_subset_insert [of xs i v] by (auto simp: list_all_iff)

lemma list_all_drop_Suc: "list_all P (drop n xs) \<Longrightarrow> list_all P (drop (Suc n) xs)"
  by (metis drop_Suc list.pred_set list.set_sel(2) tl_Nil tl_drop)

lemma fits_deps: "keeps_fit (line_deps dropin s slot key val) s slot"
  unfolding line_deps_def Let_def
  by (intro keeps_fitI; simp add: fits_defs list_all_update list_all_drop_Suc)

lemma fits_flag_line: "k \<noteq> SVC_TIMER_CALENDAR \<Longrightarrow> keeps_fit (flag_line k s slot val) s slot"
  unfolding flag_line_def by (intro keeps_fitI add_flag_fits)

lemma fits_privileges: "keeps_fit (line_privileges s slot key val) s slot"
  unfolding line_privileges_def hard_explicit_def Let_def
  by (intro keeps_fitI fits_flag_line svc_fits_child; simp add: svc_fits_def child_fits_def numbers_add_flag)

lemma fits_ns: "keeps_fit (parse_ns_field s slot key val) s slot"
  unfolding parse_ns_field_def hard_explicit_def
  by (intro keeps_fitI svc_fits_child; simp add: child_fits_def)

lemma tcp_ports_fit: "tcp_ports toks ps b = Some (ps', b') \<Longrightarrow> length ps \<le> MAX_LANDLOCK \<Longrightarrow> length ps' \<le> MAX_LANDLOCK"
  by (induction toks ps b rule: tcp_ports.induct) (auto simp: Let_def split: prod.splits if_splits)

lemma landlock_tcp_fits:
  "landlock_tcp val old = Some ps \<Longrightarrow> (case old of None \<Rightarrow> True | Some qs \<Rightarrow> length qs \<le> MAX_LANDLOCK) \<Longrightarrow>
   length ps \<le> MAX_LANDLOCK"
  by (auto simp: landlock_tcp_def Let_def dest: tcp_ports_fit split: if_splits option.splits)

lemma fits_landlock: "keeps_fit (line_landlock s slot key val) s slot"
  unfolding line_landlock_def Let_def
  by (intro keeps_fitI svc_fits_child; simp add: child_fits_def landlock_tcp_fits)

lemma fits_flags: "keeps_fit (line_flags s slot key val) s slot"
  unfolding line_flags_def Let_def
  by (intro keeps_fitI fits_flag_line; simp add: fits_defs upd_child_def)

lemma fits_ready: "keeps_fit (line_ready s slot key val) s slot"
  unfolding line_ready_def Let_def
  by (intro keeps_fitI svc_fits_child; simp add: fits_defs)

lemma fits_safety: "keeps_fit (line_safety s slot key val) s slot"
  unfolding line_safety_def by (intro keeps_fitI; simp add: fits_defs)

lemma fits_limits: "keeps_fit (line_limits s slot key val) s slot"
  unfolding line_limits_def Let_def by (intro keeps_fitI; simp add: fits_defs)

lemma calendar_fits:
  assumes "parse_calendar s val = Some s'" "svc_fits s slot"
  shows "svc_fits s' slot"
proof -
  from assms obtain c where c: "parse_calendar_fields val = Some c"
    and s': "s' = add_flag SVC_ONESHOT (add_flag SVC_TIMER_CALENDAR (add_flag SVC_TIMER
            (s\<lparr>timer_cal_hours := cal_hour_mask c, timer_cal_min := cal_min c,
               timer_cal_dow := cal_dow c, timer_cal_dom := cal_dom c\<rparr>)))"
    by (auto simp: parse_calendar_def split: option.splits)
  have "0 \<le> cal_min c \<and> cal_min c \<le> 59 \<and> -1 \<le> cal_dow c \<and> cal_dow c \<le> 6 \<and> -1 \<le> cal_dom c \<and> cal_dom c \<le> 31"
    using c calendar_prefix_range calendar_time_range by (fastforce simp: parse_calendar_fields_def split: option.splits)
  then show ?thesis using assms(2) unfolding s'
    by (simp add: fits_defs add_flag_def bit_set_bit_iff)
qed

lemma timer_line_fits: "svc_fits s slot \<Longrightarrow> svc_fits (add_flag SVC_ONESHOT (add_flag SVC_TIMER s)) slot"
  by (simp add: add_flag_fits)

lemma calendar_keeps:
  "svc_fits s slot \<Longrightarrow> svc_fits (case parse_calendar s val of None \<Rightarrow> s | Some s' \<Rightarrow> s') slot"
  by (auto dest: calendar_fits split: option.splits)

lemma fits_timers: "keeps_fit (line_timers s slot key val) s slot"
  unfolding line_timers_def
  by (intro keeps_fitI fits_flag_line timer_line_fits calendar_keeps) (assumption | simp add: fits_defs)+

lemma fits_user: "keeps_fit (line_user pe s slot key val) s slot"
  unfolding line_user_def Let_def
  by (intro keeps_fitI svc_fits_child; simp add: child_fits_def min_less_iff_disj split: option.splits)

lemma first_index_less: "first_index P xs = Some i \<Longrightarrow> i < length xs"
  using first_index_SomeD by blast

lemma rlim_replace:
  assumes "first_index (\<lambda>r. rl_res r = key) rs = Some i" "rl_res r = key"
  shows "map rl_res (rs[i := r]) = map rl_res rs"
  using first_index_SomeD [OF assms(1)] assms(2) by (simp add: map_update list_update_same_conv)

lemma fits_rlimit: "keeps_fit (svc_parse_rlimit s slot key val) s slot"
proof (cases "key \<in> set rlim_keys")
  case True
  let ?rs = "rlim (svc_child s)"
  let ?at = "first_index (\<lambda>r. rl_res r = key) ?rs"
  have rm: "child_fits (rlim_update (swap_remove i) c)" if "child_fits c" "i < length (rlim c)" for i c
    using that set_swap_remove_subset [OF that(2)] distinct_swap_remove [OF that(2), of rl_res]
    by (auto simp: child_fits_def)
  have put: "child_fits (rlim_update (\<lambda>_. case ?at of None \<Rightarrow> ?rs @ [r] | Some i \<Rightarrow> ?rs[i := r]) (svc_child s))"
    if "child_fits (svc_child s)" "rl_res r = key" for r
  proof (cases ?at)
    case None
    then have "\<forall>x\<in>set ?rs. rl_res x \<noteq> key" by simp
    then show ?thesis unfolding None using that True by (auto simp: child_fits_def)
  next
    case (Some i)
    have "rl_res ` set (?rs[i := r]) = rl_res ` set ?rs" using rlim_replace [OF Some that(2)] by (metis list.set_map)
    then show ?thesis using that Some rlim_replace [OF Some that(2)] by (simp add: child_fits_def)
  qed
  show ?thesis unfolding svc_parse_rlimit_def Let_def
    by (intro keeps_fitI svc_fits_child; (assumption | rule put | rule rm | simp add: first_index_less)+)
qed (simp add: svc_parse_rlimit_def keeps_fitI)

lemma fits_dropin_clear: "keeps_fit (dropin_clear s slot key) s slot"
  unfolding dropin_clear_def landlock_clear_def
  by (intro keeps_fitI svc_fits_child;
      simp add: fits_defs list_all_iff order_trans [OF length_filter_le])

lemma dropin_flags_fit: "map_of dropin_flags key = Some k \<Longrightarrow> k \<noteq> SVC_TIMER_CALENDAR \<and> k \<noteq> SVC_TIMER"
  by (auto simp: dropin_flags_def split: if_splits)

lemma fits_dropin: "keeps_fit (svc_parse_dropin_line s slot key val) s slot"
proof -
  have f: "svc_fits s' slot" if "dropin_flag s key val = Some s'" "svc_fits s slot" for s'
    using that dropin_flags_fit put_flag_fits by (auto simp: dropin_flag_def)
  have n: "svc_fits (put_flag SVC_NO_NEW_PRIVS b (hard_explicit HARD_NNP s)) slot" if "svc_fits s slot" for b
    unfolding hard_explicit_def by (intro put_flag_fits svc_fits_child) (use that in \<open>simp_all add: child_fits_def\<close>)
  show ?thesis unfolding svc_parse_dropin_line_def
    by (intro keeps_fitI fits_dropin_clear) (use f n in auto)
qed

lemma keeps_fit_orelse: "keeps_fit a s slot \<Longrightarrow> keeps_fit b s slot \<Longrightarrow> keeps_fit (orelse a b) s slot"
  by (cases a) (simp_all add: orelse_def)

lemmas fits_lines = fits_identity fits_commands fits_sockets fits_deps fits_privileges fits_ns fits_landlock
  fits_flags fits_ready fits_safety fits_limits fits_timers fits_user

lemma fits_line_key: "keeps_fit (line_key pe dropin s slot key val) s slot"
  unfolding line_key_def by (intro keeps_fit_orelse fits_lines)

lemma fits_parse_line:
  assumes "svc_parse_line pe dropin line (s, slot) = Inr (s', slot')" "svc_fits s slot"
  shows "svc_fits s' slot'"
proof -
  let ?key = "takeWhile (\<lambda>c. c \<noteq> CHR ''='') line"
  let ?val = "takeWhile (\<lambda>c. c \<noteq> CHR 0x0D \<and> c \<noteq> CHR 0x0A) (tl (dropWhile (\<lambda>c. c \<noteq> CHR ''='') line))"
  let ?out = "orelse (if dropin then svc_parse_dropin_line s slot ?key ?val else None)
                  (orelse (svc_parse_rlimit s slot ?key ?val) (line_key pe dropin s slot ?key ?val))"
  have "keeps_fit ?out s slot"
    by (intro keeps_fit_orelse keeps_fitI fits_dropin fits_rlimit fits_line_key)
  moreover have "(s', slot') = (s, slot) \<or> ?out = Some (Inr (s', slot'))"
    using assms(1) by (auto simp: svc_parse_line_def Let_def split: if_splits option.splits)
  ultimately show ?thesis using assms(2) by (auto simp: keeps_fit_def)
qed

lemma fits_parse_lines:
  "parse_lines pe dropin rs (s, slot) = Inr (s', slot') \<Longrightarrow> svc_fits s slot \<Longrightarrow> svc_fits s' slot'"
proof (induction rs arbitrary: s slot)
  case (Cons r rs)
  show ?case
  proof (cases r)
    case (RL_Line l)
    then obtain s1 slot1 where "svc_parse_line pe dropin l (s, slot) = Inr (s1, slot1)"
      "parse_lines pe dropin rs (s1, slot1) = Inr (s', slot')"
      using Cons.prems(1) by (auto split: sum.splits)
    then show ?thesis using Cons.IH fits_parse_line Cons.prems(2) by blast
  qed (use Cons.prems in auto)
qed auto

lemma fits_parse_file:
  "svc_parse_file pe fs dropin path (s, slot) = Inr (s', slot') \<Longrightarrow> svc_fits s slot \<Longrightarrow> svc_fits s' slot'"
  by (auto simp: svc_parse_file_def fits_parse_lines split: trusted_open.splits)

lemma fits_parse_dropins:
  "parse_dropins pe fs ds (s, slot) = Inr (s', slot') \<Longrightarrow> svc_fits s slot \<Longrightarrow> svc_fits s' slot'"
  by (induction ds arbitrary: s slot) (auto split: sum.splits dest: fits_parse_file)

end
