(* ===== verification/SI_Config.thy ===== *)
theory SI_Config
  imports SI_Load
begin

text \<open>
  From a parsed file to the service table: the checks and defaults of \<^verbatim>\<open>svc_finalize\<close>, the loading of a
  directory with its refusals, the resolution of dependency names, and the meaning of \<^verbatim>\<open>env=\<close> lines.
\<close>

section \<open>After the last line\<close>

lemma default_hard_fits:
  "(\<And>s. svc_fits s slot \<Longrightarrow> svc_fits (f s) slot) \<Longrightarrow> svc_fits s slot \<Longrightarrow> svc_fits (default_hard k f s) slot"
  unfolding default_hard_def by (auto intro!: svc_fits_child simp: child_fits_def)

lemma hardening_defaults_fit: "svc_fits s slot \<Longrightarrow> svc_fits (apply_hardening_defaults on s) slot"
  unfolding apply_hardening_defaults_def
  by (auto intro!: default_hard_fits add_flag_fits svc_fits_child simp: child_fits_def)

lemma drop_default_fits:
  "(\<And>c. child_fits c \<Longrightarrow> child_fits (off c)) \<Longrightarrow> svc_fits s slot \<Longrightarrow> svc_fits (drop_default k off s) slot"
  unfolding drop_default_def by (rule svc_fits_child) (auto simp: child_fits_def)

text \<open>What hardening leaves alone: everything but the child's knobs and the no-new-privs flag.\<close>

definition same_plan :: "service_t \<Rightarrow> service_t \<Rightarrow> bool" where
  "same_plan s t \<longleftrightarrow>
     svc_exec t = svc_exec s \<and> ready_path t = ready_path s \<and> svc_name t = svc_name s \<and> bind_name t = bind_name s \<and>
     dep_name t = dep_name s \<and> notify t = notify s \<and> cpuset t = cpuset s \<and> exec_pre (svc_child t) = exec_pre (svc_child s) \<and>
     landlock (svc_child t) = landlock (svc_child s) \<and> hard_set (svc_child t) = hard_set (svc_child s) \<and>
     (\<forall>k. k \<noteq> SVC_NO_NEW_PRIVS \<longrightarrow> has_flag t k = has_flag s k)"

lemma same_plan_refl: "same_plan s s"
  by (simp add: same_plan_def)

lemma same_plan_trans: "same_plan s t \<Longrightarrow> same_plan t u \<Longrightarrow> same_plan s u"
  by (simp add: same_plan_def)

lemma same_plan_default:
  "(\<And>s. same_plan s (f s)) \<Longrightarrow> same_plan s t \<Longrightarrow> same_plan s (default_hard k f t)"
  by (simp add: same_plan_def default_hard_def upd_child_def)

lemma same_plan_hardening: "same_plan s (apply_hardening_defaults on s)"
proof -
  have f: "same_plan s (upd_child (ns_protect_home_update g) s)" "same_plan s (upd_child (ns_protect_system_update h) s)"
    "same_plan s (upd_child (ns_private_tmp_update g) s)" "same_plan s (add_flag SVC_NO_NEW_PRIVS s)" for s g h
    by (simp_all add: same_plan_def upd_child_def add_flag_def bit_set_bit_iff)
  show ?thesis unfolding apply_hardening_defaults_def
    by (simp add: same_plan_refl) (intro impI same_plan_default f same_plan_refl)
qed

lemma same_plan_drop:
  "same_plan s (drop_default k (ns_private_tmp_update g) s)" "same_plan s (drop_default k (ns_protect_home_update g) s)"
  by (simp_all add: same_plan_def drop_default_def upd_child_def)

text \<open>What \<^verbatim>\<open>hardening_finalize\<close> leaves: no knob hides the program or its ready path, landlock covers the
  program, and with the host's default on every knob is set, given explicitly, or dropped for a
  recorded reason.\<close>

definition hides_nothing :: "service_t \<Rightarrow> bool" where
  "hides_nothing s \<longleftrightarrow>
     (ns_private_tmp (svc_child s) \<longrightarrow> \<not> path_under (svc_exec s) tmp_dirs \<and> \<not> path_under (ready_path s) tmp_dirs) \<and>
     (ns_protect_home (svc_child s) \<longrightarrow> \<not> path_under (svc_exec s) home_dirs \<and> \<not> path_under (ready_path s) home_dirs)"

definition landlock_covers :: "parse_env \<Rightarrow> service_t \<Rightarrow> bool" where
  "landlock_covers pe s \<longleftrightarrow>
     (landlock (svc_child s) \<noteq> [] \<longrightarrow>
        (\<exists>p\<in>fst ` set (landlock (svc_child s)). landlock_beneath (svc_exec s) p) \<and>
        (\<forall>x\<in>set (exec_pre (svc_child s)). pre_covered pe x (map fst (landlock (svc_child s))))) \<and>
     (service_landlock_on s \<and> cap_restrict (svc_child s) \<and> \<not> bit (cap_keep_mask (svc_child s)) CAP_SYS_ADMIN \<longrightarrow>
        has_flag s SVC_NO_NEW_PRIVS)"

definition defaults_applied :: "service_t \<Rightarrow> bool" where
  "defaults_applied s \<longleftrightarrow>
     (let c = svc_child s in
      (bit (hard_set c) HARD_NNP \<or> has_flag s SVC_NO_NEW_PRIVS) \<and>
      (bit (hard_set c) HARD_PT \<or> ns_private_tmp c \<or> bit (hard_dropped c) HARD_PT) \<and>
      (bit (hard_set c) HARD_PS \<or> ns_protect_system c \<noteq> 0) \<and>
      (bit (hard_set c) HARD_PH \<or> ns_protect_home c \<or> bit (hard_dropped c) HARD_PH))"

lemma defaults_applied_on: "defaults_applied (apply_hardening_defaults True s)"
  by (simp add: defaults_applied_def apply_hardening_defaults_def default_hard_def upd_child_def add_flag_def
      bit_set_bit_iff Let_def)

lemma defaults_applied_drop:
  "defaults_applied s \<Longrightarrow> defaults_applied (drop_default HARD_PT (ns_private_tmp_update (\<lambda>_. False)) s)"
  "defaults_applied s \<Longrightarrow> defaults_applied (drop_default HARD_PH (ns_protect_home_update (\<lambda>_. False)) s)"
  by (auto simp: defaults_applied_def drop_default_def upd_child_def bit_set_bit_iff Let_def)

lemma ns_hides_ok:
  assumes "ns_hides k knob off dirs s = Inr t" "\<And>c. \<not> knob (off c)" "\<And>c a b. knob (c\<lparr>hard_default := a, hard_dropped := b\<rparr>) = knob c"
  shows "t = s \<or> t = drop_default k off s"
    "knob (svc_child t) \<longrightarrow> \<not> path_under (svc_exec t) dirs \<and> \<not> path_under (ready_path t) dirs"
  using assms
  by (auto simp: ns_hides_def ns_verdict_def drop_default_def upd_child_def Let_def split: hides.splits if_splits)

lemma hardening_finalize_ok:
  assumes "hardening_finalize pe s = Inr t"
  shows "same_plan s t" "svc_fits s slot \<Longrightarrow> svc_fits t slot" "hides_nothing t" "landlock_covers pe t"
    "pe_hardening pe \<Longrightarrow> defaults_applied t"
proof -
  define s1 where "s1 = apply_hardening_defaults (pe_hardening pe) s"
  obtain s2 where h2: "ns_hides HARD_PT ns_private_tmp (ns_private_tmp_update (\<lambda>_. False)) tmp_dirs s1 = Inr s2"
    and h3: "ns_hides HARD_PH ns_protect_home (ns_protect_home_update (\<lambda>_. False)) home_dirs s2 = Inr t"
    and l: "landlock_check pe t = None"
    using assms by (auto simp: hardening_finalize_def s1_def split: sum.splits option.splits)
  note o2 = ns_hides_ok [OF h2, simplified] and o3 = ns_hides_ok [OF h3, simplified]
  have p: "same_plan s s1" "same_plan s1 s2" "same_plan s2 t"
    using o2(1) o3(1) by (auto simp: s1_def same_plan_hardening same_plan_drop same_plan_refl)
  then show "same_plan s t" by (blast intro: same_plan_trans)
  have d: "svc_fits (drop_default k (ns_private_tmp_update g) s) slot" "svc_fits (drop_default k (ns_protect_home_update g) s) slot"
    if "svc_fits s slot" for k g s
    by (intro drop_default_fits that; simp add: child_fits_def)+
  show "svc_fits t slot" if "svc_fits s slot"
  proof -
    have "svc_fits s1 slot" unfolding s1_def by (rule hardening_defaults_fit [OF that])
    then have "svc_fits s2 slot" using o2(1) d(1) by fastforce
    then show ?thesis using o3(1) d(2) by fastforce
  qed
  have "ns_private_tmp (svc_child t) = ns_private_tmp (svc_child s2)"
    using o3(1) by (auto simp: drop_default_def upd_child_def)
  then show "hides_nothing t" using o2(2) o3(2) p(3) by (auto simp: hides_nothing_def same_plan_def)
  show "landlock_covers pe t" using l
    by (auto simp: landlock_check_def landlock_covers_def Let_def service_landlock_on_def split: if_splits)
  show "defaults_applied t" if "pe_hardening pe"
  proof -
    have "defaults_applied s1" using defaults_applied_on that by (simp add: s1_def)
    then have "defaults_applied s2" using o2(1) defaults_applied_drop(1) by fastforce
    then show ?thesis using o3(1) defaults_applied_drop(2) by fastforce
  qed
qed

lemma svc_finalize_split:
  assumes "svc_finalize pe path (s, slot) = Inr t"
  obtains s1 s2 where "hardening_finalize pe s = Inr s1"
    "bind_dep (s1\<lparr>no_restart_cfg := has_flag s1 SVC_NO_RESTART\<rparr>) slot = Inr s2"
    "service_verifies_limits s2 \<longrightarrow> notify s2" "has_flag s2 SVC_MAIN_PID_NOTIFY \<longrightarrow> notify s2"
    "name_from_file path (finalize_defaults s2) = Inr t" "svc_name t \<noteq> []" "svc_exec t \<noteq> []"
  using assms by (auto simp: svc_finalize_def split: sum.splits if_splits)

text \<open>The three later stages each change a few fields.\<close>

lemma bind_dep_ok:
  assumes "bind_dep s slot = Inr t" "svc_fits s slot"
  shows "\<exists>ds. t = s\<lparr>dep_name := ds\<rparr> \<and> set (dep_name s) - {[]} \<subseteq> set ds"
    "bind_name s \<noteq> [] \<longrightarrow> bind_name s \<in> set (dep_name t) \<and> \<not> has_flag s SVC_TIMER"
    "\<exists>slot'. svc_fits t slot'"
proof -
  have b: "length (bind_name s) < 64" using assms(2) by (simp add: fits_defs)
  have dl: "length (dep_name s) = MAX_DEPS" "list_all (\<lambda>d. d = []) (drop slot (dep_name s))"
    using assms(2) by (simp_all add: fits_defs)
  have "t = s \<and> (bind_name s = [] \<or> bind_name s \<in> set (take slot (dep_name s)) \<and> \<not> has_flag s SVC_TIMER) \<or>
      slot < MAX_DEPS \<and> \<not> has_flag s SVC_TIMER \<and> t = s\<lparr>dep_name := (dep_name s)[slot := bind_name s]\<rparr>"
  proof (cases "bind_name s = [] \<or> has_flag s SVC_TIMER \<or> bind_name s \<in> set (take slot (dep_name s))")
    case False
    then show ?thesis using assms(1) b by (simp add: bind_dep_def split: if_splits)
  qed (use assms(1) in \<open>auto simp: bind_dep_def split: if_splits\<close>)
  then consider "t = s" "bind_name s = [] \<or> bind_name s \<in> set (take slot (dep_name s)) \<and> \<not> has_flag s SVC_TIMER"
    | "slot < MAX_DEPS" "\<not> has_flag s SVC_TIMER" "t = s\<lparr>dep_name := (dep_name s)[slot := bind_name s]\<rparr>"
    by blast
  note cs = this
  have sub: "set (dep_name s) - {[]} \<subseteq> set ((dep_name s)[slot := v])" if "slot < MAX_DEPS" for v
  proof
    fix d assume "d \<in> set (dep_name s) - {[]}"
    then obtain i where i: "i < length (dep_name s)" "dep_name s ! i = d" "d \<noteq> []" by (auto simp: in_set_conv_nth)
    have "i \<noteq> slot" using dl(2) i by (auto simp: list_all_iff in_set_conv_nth) (metis i(1) nth_via_drop Cons_nth_drop_Suc list.set_intros(1))
    then show "d \<in> set ((dep_name s)[slot := v])" using i by (metis length_list_update nth_list_update_neq nth_mem)
  qed
  show "\<exists>ds. t = s\<lparr>dep_name := ds\<rparr> \<and> set (dep_name s) - {[]} \<subseteq> set ds"
    using cs
  proof cases
    case 1
    then show ?thesis by (intro exI [of _ "dep_name s"]) auto
  next
    case 2
    then show ?thesis using sub by blast
  qed
  show "bind_name s \<noteq> [] \<longrightarrow> bind_name s \<in> set (dep_name t) \<and> \<not> has_flag s SVC_TIMER"
    using cs
  proof cases
    case 2
    then show ?thesis using dl by (simp add: set_update_memI)
  qed (auto dest: in_set_takeD)
  show "\<exists>slot'. svc_fits t slot'"
    using cs
  proof cases
    case 2
    then have "svc_fits t (Suc slot)" using assms(2) b by (simp add: fits_defs list_all_update list_all_drop_Suc)
    then show ?thesis ..
  qed (use assms(2) in blast)
qed

lemma finalize_defaults_ok:
  "svc_fits s slot \<Longrightarrow> svc_fits (finalize_defaults s) slot"
  "start_timeout_sec (finalize_defaults s) \<noteq> -1"
  "cpuset_partition (finalize_defaults s) \<noteq> PART_MEMBER \<longrightarrow> cpuset (finalize_defaults s) \<noteq> []"
  "has_flag (finalize_defaults s) SVC_TIMER_PERSIST \<longrightarrow> has_flag (finalize_defaults s) SVC_TIMER_CALENDAR"
  unfolding finalize_defaults_def Let_def
  by (simp_all add: fits_defs clear_flag_def bit_unset_bit_iff)

lemma finalize_defaults_same:
  "same_plan s (finalize_defaults s\<lparr>svc_flags := svc_flags s\<rparr>)" "svc_child (finalize_defaults s) = svc_child s"
  "k \<noteq> SVC_TIMER_PERSIST \<Longrightarrow> has_flag (finalize_defaults s) k = has_flag s k"
  "no_restart_cfg (finalize_defaults s) = no_restart_cfg s" "verify_memory_max (finalize_defaults s) = verify_memory_max s"
  "verify_cpu_max (finalize_defaults s) = verify_cpu_max s" "verify_pids_max (finalize_defaults s) = verify_pids_max s"
  unfolding finalize_defaults_def Let_def
  by (simp_all add: same_plan_def clear_flag_def bit_unset_bit_iff)

lemma name_from_file_cases:
  assumes "name_from_file path s = Inr t"
  obtains n i where "t = s\<lparr>svc_name := n, svc_instance := i\<rparr>" "n = svc_name s \<or> length n < 64"
    "i = svc_instance s \<or> length i < 32"
proof (cases "length (base_name path) < 5 \<or> \<not> ends_with ''.svc'' (base_name path)")
  case True
  then have "t = s" using assms by (simp add: name_from_file_def Let_def)
  then show ?thesis using that [where n = "svc_name s" and i = "svc_instance s"] by simp
next
  case False
  define base where "base = take 255 (take (length (base_name path) - 4) (base_name path))"
  define bat where "bat = dropWhile (\<lambda>c. c \<noteq> CHR ''@'') base"
  define s1 where "s1 = (if bat \<noteq> [] \<or> svc_name s = [] then s\<lparr>svc_name := take 63 base\<rparr> else s)"
  have t: "t = (if bat \<noteq> [] then s1\<lparr>svc_instance := take 31 (tl bat)\<rparr> else s1)"
    using assms False unfolding name_from_file_def Let_def base_def [symmetric] bat_def [symmetric] s1_def [symmetric]
    by (simp split: if_splits)
  show ?thesis
    by (rule that [where n = "if bat \<noteq> [] \<or> svc_name s = [] then take 63 base else svc_name s"
        and i = "if bat \<noteq> [] then take 31 (tl bat) else svc_instance s"]) (auto simp: t s1_def)
qed

lemma name_from_file_fits: "name_from_file path s = Inr t \<Longrightarrow> svc_fits s slot \<Longrightarrow> svc_fits t slot"
  by (erule name_from_file_cases) (auto simp: fits_defs)

text \<open>What the engine may rely on in a loaded service.\<close>

definition svc_sound :: "parse_env \<Rightarrow> service_t \<Rightarrow> bool" where
  "svc_sound pe s \<longleftrightarrow>
     svc_name s \<noteq> [] \<and> svc_exec s \<noteq> [] \<and> hides_nothing s \<and> landlock_covers pe s \<and>
     (pe_hardening pe \<longrightarrow> defaults_applied s) \<and>
     (bind_name s \<noteq> [] \<longrightarrow> bind_name s \<in> set (dep_name s) \<and> \<not> has_flag s SVC_TIMER) \<and>
     (service_verifies_limits s \<longrightarrow> notify s) \<and> (has_flag s SVC_MAIN_PID_NOTIFY \<longrightarrow> notify s) \<and>
     (cpuset_partition s \<noteq> PART_MEMBER \<longrightarrow> cpuset s \<noteq> []) \<and>
     (has_flag s SVC_TIMER_PERSIST \<longrightarrow> has_flag s SVC_TIMER_CALENDAR) \<and>
     start_timeout_sec s \<noteq> -1 \<and> no_restart_cfg s = has_flag s SVC_NO_RESTART"

text \<open>Facts that depend only on fields a later stage leaves alone.\<close>

lemma landlock_covers_cong:
  "svc_child t = svc_child s \<Longrightarrow> svc_exec t = svc_exec s \<Longrightarrow> has_flag t SVC_NO_NEW_PRIVS = has_flag s SVC_NO_NEW_PRIVS \<Longrightarrow>
   landlock_covers pe t = landlock_covers pe s"
  by (simp add: landlock_covers_def service_landlock_on_def)

lemma defaults_applied_cong:
  "svc_child t = svc_child s \<Longrightarrow> has_flag t SVC_NO_NEW_PRIVS = has_flag s SVC_NO_NEW_PRIVS \<Longrightarrow>
   defaults_applied t = defaults_applied s"
  by (simp add: defaults_applied_def)

lemma finalize_defaults_fields:
  "svc_exec (finalize_defaults s) = svc_exec s" "ready_path (finalize_defaults s) = ready_path s"
  "bind_name (finalize_defaults s) = bind_name s" "dep_name (finalize_defaults s) = dep_name s"
  "notify (finalize_defaults s) = notify s"
  unfolding finalize_defaults_def Let_def by (simp_all add: clear_flag_def)

lemma svc_finalize_ok:
  assumes "svc_finalize pe path (s, slot) = Inr t" "svc_fits s slot"
  shows "svc_sound pe t" "\<exists>slot'. svc_fits t slot'"
proof -
  obtain s1 s2 where h: "hardening_finalize pe s = Inr s1"
    and b: "bind_dep (s1\<lparr>no_restart_cfg := has_flag s1 SVC_NO_RESTART\<rparr>) slot = Inr s2"
    and v: "service_verifies_limits s2 \<longrightarrow> notify s2" "has_flag s2 SVC_MAIN_PID_NOTIFY \<longrightarrow> notify s2"
    and n: "name_from_file path (finalize_defaults s2) = Inr t" and ne: "svc_name t \<noteq> []" "svc_exec t \<noteq> []"
    using svc_finalize_split [OF assms(1)] by metis
  let ?s1 = "s1\<lparr>no_restart_cfg := has_flag s1 SVC_NO_RESTART\<rparr>"
  have f1: "svc_fits ?s1 slot" using hardening_finalize_ok(2) [OF h assms(2)] by (simp add: fits_defs)
  note bd = bind_dep_ok [OF b f1]
  obtain ds where s2: "s2 = ?s1\<lparr>dep_name := ds\<rparr>" using bd(1) by blast
  obtain slot2 where f2: "svc_fits s2 slot2" using bd(3) by blast
  obtain nm i where t: "t = (finalize_defaults s2)\<lparr>svc_name := nm, svc_instance := i\<rparr>"
    using name_from_file_cases [OF n] by metis
  show "\<exists>slot'. svc_fits t slot'" using name_from_file_fits [OF n finalize_defaults_ok(1) [OF f2]] by blast
  note fd = finalize_defaults_fields [of s2] finalize_defaults_same(2) [of s2] finalize_defaults_same(3) [where s = s2] finalize_defaults_same(4-) [of s2] finalize_defaults_ok(2-) [of s2]
  have c: "svc_child t = svc_child s1" "svc_exec t = svc_exec s1" "ready_path t = ready_path s1"
    "has_flag t k = has_flag s1 k" if "k \<noteq> SVC_TIMER_PERSIST" for k
    using t s2 fd that by simp_all
  have "hides_nothing t" using hardening_finalize_ok(3) [OF h] c [of 0] by (simp add: hides_nothing_def)
  moreover have "landlock_covers pe t"
    using hardening_finalize_ok(4) [OF h] landlock_covers_cong [of t s1 pe] c [of 7] by simp
  moreover have "pe_hardening pe \<longrightarrow> defaults_applied t"
    using hardening_finalize_ok(5) [OF h] defaults_applied_cong [of t s1] c [of 7] by simp
  moreover have "bind_name t \<noteq> [] \<longrightarrow> bind_name t \<in> set (dep_name t) \<and> \<not> has_flag t SVC_TIMER"
    using bd(2) t s2 fd by simp
  moreover have "service_verifies_limits t \<longrightarrow> notify t" "has_flag t SVC_MAIN_PID_NOTIFY \<longrightarrow> notify t"
    using v t fd by (simp_all add: service_verifies_limits_def)
  moreover have "no_restart_cfg t = has_flag t SVC_NO_RESTART" using t s2 fd by simp
  ultimately show "svc_sound pe t" using ne t fd by (simp add: svc_sound_def)
qed

lemma svc_load_file_ok:
  assumes "svc_load_file pe fs path = Inr t"
  shows "svc_sound pe t" "\<exists>slot. svc_fits t slot"
proof -
  obtain ds st s slot u where p: "svc_parse_file pe fs False path (svc_init_defaults, 0) = Inr st"
    "parse_dropins pe fs ds st = Inr (s, slot)" "svc_finalize pe path (s, slot) = Inr u"
    and t: "t = u\<lparr>content_hash := svc_content_hash fs path ds\<rparr>"
    using assms by (auto simp: svc_load_file_def split: option.splits sum.splits)
  have "svc_fits (fst st) (snd st)" using fits_parse_file [of pe fs False path svc_init_defaults 0 "fst st" "snd st"] p(1) svc_fits_init by simp
  then have "svc_fits s slot" using fits_parse_dropins [of pe fs ds "fst st" "snd st"] p(2) by simp
  note u = svc_finalize_ok [OF p(3) this]
  show "svc_sound pe t" using u(1) unfolding t
    by (simp add: svc_sound_def hides_nothing_def landlock_covers_def defaults_applied_def service_landlock_on_def
        service_verifies_limits_def)
  show "\<exists>slot. svc_fits t slot" using u(2) unfolding t by (simp add: fits_defs)
qed

section \<open>The table\<close>

lemma load_entries_ok:
  assumes "load_entries pe fs dir mx ns (t0, r0) = (t, r)" "length t0 \<le> mx"
    and "\<forall>s\<in>set t0. svc_sound pe s \<and> (\<exists>slot. svc_fits s slot)"
  shows "length t \<le> mx \<and> (\<forall>s\<in>set t. svc_sound pe s \<and> (\<exists>slot. svc_fits s slot))"
  using assms
proof (induction ns arbitrary: t0 r0)
  case (Cons n ns)
  have "\<exists>t1 r1. load_entries pe fs dir mx (n # ns) (t0, r0) = load_entries pe fs dir mx ns (t1, r1) \<and>
      (t1 = t0 \<or> length t0 < mx \<and> (\<exists>s p. svc_load_file pe fs p = Inr s \<and> t1 = t0 @ [s]))"
  proof (cases "length n < 5 \<or> \<not> ends_with ''.svc'' n \<or> mx \<le> length t0")
    case True
    then have "load_entries pe fs dir mx (n # ns) (t0, r0) = load_entries pe fs dir mx ns (t0, r0)" by simp
    then show ?thesis by blast
  next
    case False
    then have e: "load_entries pe fs dir mx (n # ns) (t0, r0) = load_entries pe fs dir mx ns
        (case svc_load_file pe fs (take 511 (dir @ ''/'' @ n)) of
           Inl e \<Rightarrow> (t0, if e = ErrRefused then r0 + 1 else r0) | Inr s \<Rightarrow> (t0 @ [s], r0))" by simp
    show ?thesis
    proof (cases "svc_load_file pe fs (take 511 (dir @ ''/'' @ n))")
      case (Inl x)
      then show ?thesis unfolding e by (intro exI [of _ t0] exI) auto
    next
      case (Inr s)
      then show ?thesis unfolding e using False by (intro exI [of _ "t0 @ [s]"] exI [of _ r0]) auto
    qed
  qed
  then obtain t1 r1 where e: "load_entries pe fs dir mx ns (t1, r1) = (t, r)"
    and t1: "t1 = t0 \<or> length t0 < mx \<and> (\<exists>s p. svc_load_file pe fs p = Inr s \<and> t1 = t0 @ [s])"
    using Cons.prems(1) by metis
  have "length t1 \<le> mx" using t1 Cons.prems(2) by auto
  moreover have "\<forall>s\<in>set t1. svc_sound pe s \<and> (\<exists>slot. svc_fits s slot)"
    using t1 Cons.prems(3) svc_load_file_ok by fastforce
  ultimately show ?case by (rule Cons.IH [OF e])
qed auto

lemma resolve_deps_nth:
  "length ds = length is \<Longrightarrow> d < length is \<Longrightarrow>
   resolve_deps names ds is ! d =
     (if [] \<notin> set (take (Suc d) ds)
      then (case first_index (\<lambda>n. n = ds ! d) names of None \<Rightarrow> is ! d | Some j \<Rightarrow> int j) else is ! d)"
proof (induction names ds "is" arbitrary: d rule: resolve_deps.induct)
  case (1 names x ds i "is")
  then show ?case by (cases d) (simp_all cong: option.case_cong)
qed auto

lemma length_resolve_deps [simp]: "length (resolve_deps names ds is) = length is"
  by (induction names ds "is" rule: resolve_deps.induct) auto

lemma services_load_table:
  assumes "services_load pe fs dir mx = (table, refused)"
  obtains t where "table = resolve_table t" "length t \<le> mx" "\<forall>s\<in>set t. svc_sound pe s \<and> (\<exists>slot. svc_fits s slot)"
proof (cases "lf_names fs dir")
  case None
  then show ?thesis using assms that [of "[]"] by (simp add: services_load_def resolve_table_def)
next
  case (Some ns)
  obtain t r where tr: "load_entries pe fs dir mx ns ([], if svc_dir_chain_trusted fs dir then 0 else 1) = (t, r)"
    by fastforce
  then have "table = resolve_table t" using assms Some by (simp add: services_load_def Let_def)
  moreover have "length t \<le> mx \<and> (\<forall>s\<in>set t. svc_sound pe s \<and> (\<exists>slot. svc_fits s slot))"
    by (rule load_entries_ok [OF tr]) simp_all
  ultimately show ?thesis using that by blast
qed

lemma rlim_le: "child_fits c \<Longrightarrow> length (rlim c) \<le> 16"
proof -
  assume c: "child_fits c"
  then have "length (rlim c) = card (set (map rl_res (rlim c)))"
    by (metis child_fits_def distinct_card length_map)
  also have "\<dots> \<le> card (set rlim_keys)" using c by (intro card_mono) (auto simp: child_fits_def)
  also have "\<dots> \<le> length rlim_keys" by (rule card_length)
  finally show ?thesis by (simp add: rlim_keys_def)
qed

lemma resolved_range:
  assumes "i \<in> set (resolve_deps names ds is)" "length ds = length is" "\<forall>x\<in>set is. x = -1"
  shows "-1 \<le> i \<and> i < int (length names)"
proof -
  obtain d where d: "d < length is" "i = resolve_deps names ds is ! d"
    using assms(1) by (metis in_set_conv_nth length_resolve_deps)
  have "is ! d = -1" using assms(3) d(1) by auto
  moreover have "first_index (\<lambda>n. n = ds ! d) names = Some j \<Longrightarrow> j < length names" for j using first_index_SomeD by blast
  ultimately show ?thesis unfolding d(2) resolve_deps_nth [OF assms(2) d(1), of names]
    by (auto simp del: first_index_None split: option.splits)
qed

section \<open>Environment assignments\<close>

text \<open>The abstract view of \<^verbatim>\<open>envp\<close>: a map from names to values, read from the first entry of a name.\<close>

definition env_key :: "string \<Rightarrow> string" where
  "env_key e = takeWhile (\<lambda>c. c \<noteq> CHR ''='') e"

definition env_val :: "string \<Rightarrow> string" where
  "env_val e = tl (dropWhile (\<lambda>c. c \<noteq> CHR ''='') e)"

definition env_map :: "string list \<Rightarrow> string \<Rightarrow> string option" where
  "env_map es = map_of (map (\<lambda>e. (env_key e, env_val e)) es)"

lemma env_key_app: "CHR ''='' \<notin> set k \<Longrightarrow> env_key (k @ CHR ''='' # r) = k"
  by (simp add: env_key_def takeWhile_neq_append)

lemma env_prefix_iff:
  assumes "CHR ''='' \<in> set e" "CHR ''='' \<in> set v"
  shows "take (length (env_key v) + 1) e = take (length (env_key v) + 1) v \<longleftrightarrow> env_key e = env_key v"
proof -
  have sp: "x = env_key x @ CHR ''='' # env_val x" if "CHR ''='' \<in> set x" for x
  proof -
    have "dropWhile (\<lambda>c. c \<noteq> CHR ''='') x \<noteq> []" using that by auto
    then have "dropWhile (\<lambda>c. c \<noteq> CHR ''='') x = CHR ''='' # env_val x"
      using hd_dropWhile [of "\<lambda>c. c \<noteq> CHR ''=''" x] unfolding env_val_def by (cases "dropWhile (\<lambda>c. c \<noteq> CHR ''='') x") auto
    then show ?thesis using takeWhile_dropWhile_id [of "\<lambda>c. c \<noteq> CHR ''=''" x] by (simp add: env_key_def)
  qed
  have nk: "CHR ''='' \<notin> set (env_key x)" for x by (auto simp: env_key_def dest: set_takeWhileD)
  have tv: "take (length (env_key v) + 1) v = env_key v @ [CHR ''='']" using sp [OF assms(2)] by (metis Suc_eq_plus1 take_Suc_conv_app_nth append_eq_conv_conj length_append_singleton append.assoc append_Cons append_Nil)
  show ?thesis
  proof
    assume "env_key e = env_key v"
    then show "take (length (env_key v) + 1) e = take (length (env_key v) + 1) v"
      using sp [OF assms(1)] tv by (metis Suc_eq_plus1 append_eq_conv_conj length_append_singleton append.assoc append_Cons append_Nil)
  next
    assume "take (length (env_key v) + 1) e = take (length (env_key v) + 1) v"
    then obtain r where "e = env_key v @ CHR ''='' # r"
      using tv by (metis append.assoc append_Cons append_Nil append_take_drop_id)
    then show "env_key e = env_key v" using env_key_app [OF nk [of v]] by simp
  qed
qed

lemma env_map_update:
  "i < length es \<Longrightarrow> env_key (es ! i) = env_key v \<Longrightarrow> (\<And>j. j < i \<Longrightarrow> env_key (es ! j) \<noteq> env_key v) \<Longrightarrow>
   env_map (es[i := v]) = (env_map es)(env_key v \<mapsto> env_val v)"
proof (induction es arbitrary: i)
  case (Cons e es)
  show ?case
  proof (cases i)
    case 0
    then show ?thesis using Cons.prems by (auto simp: env_map_def fun_eq_iff)
  next
    case (Suc j)
    have "env_map (es[j := v]) = (env_map es)(env_key v \<mapsto> env_val v)"
      using Cons.prems(1,2) Cons.prems(3) [of "Suc _"] Suc by (intro Cons.IH) auto
    moreover have "env_key e \<noteq> env_key v" using Cons.prems(3) [of 0] Suc by simp
    ultimately show ?thesis using Suc by (auto simp: env_map_def fun_eq_iff)
  qed
qed simp

lemma env_put_map:
  assumes "env_put v es = Inr es'" "CHR ''='' \<in> set v" "\<forall>e\<in>set es. CHR ''='' \<in> set e"
  shows "env_map es' = (env_map es)(env_key v \<mapsto> env_val v) \<and> (\<forall>e\<in>set es'. CHR ''='' \<in> set e)"
proof -
  define kl where "kl = length (env_key v) + 1"
  have k: "take kl e = take kl v \<longleftrightarrow> env_key e = env_key v" if "e \<in> set es" for e
    using env_prefix_iff assms(2,3) that unfolding kl_def by blast
  have e: "env_put v es = (case first_index (\<lambda>e. take kl e = take kl v) es of
      Some i \<Rightarrow> Inr (es[i := v]) | None \<Rightarrow> if MAX_ENV \<le> length es then Inl ErrEnv else Inr (es @ [v]))"
    using assms(2) by (simp add: env_put_def Let_def kl_def env_key_def)
  show ?thesis
  proof (cases "first_index (\<lambda>e. take kl e = take kl v) es")
    case None
    have es': "es' = es @ [v]" using assms(1) unfolding e None by (simp split: if_splits)
    have "\<forall>e\<in>set es. env_key e \<noteq> env_key v" using None k by simp
    then have "map_of (map (\<lambda>e. (env_key e, env_val e)) es) (env_key v) = None"
      by (auto simp: map_of_eq_None_iff)
    then show ?thesis using assms(2,3) unfolding es' env_map_def by (auto simp: map_add_def fun_eq_iff split: option.splits)
  next
    case (Some i)
    have es': "es' = es[i := v]" using assms(1) unfolding e Some by simp
    note i = first_index_SomeD [OF Some]
    have "env_map es' = (env_map es)(env_key v \<mapsto> env_val v)"
      unfolding es' using i k [OF nth_mem] by (intro env_map_update) auto
    moreover have "\<forall>e\<in>set es'. CHR ''='' \<in> set e"
      using assms(2,3) set_update_subset_insert [of es i v] unfolding es' by auto
    ultimately show ?thesis by simp
  qed
qed

lemma svc_parse_line_key:
  assumes "CHR ''='' \<notin> set key" "CHR 0x0A \<notin> set v" "CHR 0x0D \<notin> set v"
  shows "svc_parse_line pe dropin (key @ CHR ''='' # v @ [CHR 0x0A]) (s, slot) =
    (case orelse (if dropin then svc_parse_dropin_line s slot key v else None)
            (orelse (svc_parse_rlimit s slot key v) (line_key pe dropin s slot key v)) of
       None \<Rightarrow> Inr (s, slot)
     | Some r \<Rightarrow> r)"
proof -
  have "takeWhile (\<lambda>c. c \<noteq> CHR 0x0D \<and> c \<noteq> CHR 0x0A) (v @ [CHR 0x0A]) = v"
    using assms(2,3) by (subst takeWhile_append2) auto
  then show ?thesis
    using assms(1) by (simp add: svc_parse_line_def Let_def takeWhile_neq_append dropWhile_neq_append)
qed

lemma env_line:
  assumes "CHR ''='' \<in> set v" "CHR 0x0A \<notin> set v" "CHR 0x0D \<notin> set v"
  shows "svc_parse_line pe dropin (''env'' @ CHR ''='' # v @ [CHR 0x0A]) (s, slot) =
    (case env_put (skip_blank v) (envp (svc_child s)) of
       Inl e \<Rightarrow> Inl e
     | Inr es \<Rightarrow> Inr (upd_child (envp_update (\<lambda>_. es)) s, slot))" (is "_ = ?r")
proof -
  have nb: "skip_blank v \<noteq> []" using assms(1) by (auto simp: is_blank_def)
  have d: "svc_parse_dropin_line s slot ''env'' v = None"
    using nb by (simp add: svc_parse_dropin_line_def dropin_flag_def dropin_flags_def)
  have r: "svc_parse_rlimit s slot ''env'' v = None" by (simp add: svc_parse_rlimit_def rlim_keys_def)
  have "line_identity s slot ''env'' v = Some ?r"
    by (cases "env_put (skip_blank v) (envp (svc_child s))") (simp_all add: line_identity_def)
  then have l: "line_key pe dropin s slot ''env'' v = Some ?r" by (simp add: line_key_def orelse_def)
  have k: "CHR ''='' \<notin> set ''env''" by simp
  show ?thesis unfolding svc_parse_line_key [OF k assms(2,3)] d r l by (simp add: orelse_def)
qed

lemma mem_dropWhile: "c \<in> set xs \<Longrightarrow> \<not> P c \<Longrightarrow> c \<in> set (dropWhile P xs)"
  by (induction xs) auto

lemma env_lines_map:
  "parse_lines pe dropin (map (\<lambda>v. RL_Line (''env'' @ CHR ''='' # v @ [CHR 0x0A])) vs) (s, slot) = Inr (s', slot') \<Longrightarrow>
   \<forall>v\<in>set vs. CHR ''='' \<in> set v \<and> CHR 0x0A \<notin> set v \<and> CHR 0x0D \<notin> set v \<Longrightarrow>
   \<forall>e\<in>set (envp (svc_child s)). CHR ''='' \<in> set e \<Longrightarrow>
   env_map (envp (svc_child s')) =
     fold (\<lambda>v m. m(env_key (skip_blank v) \<mapsto> env_val (skip_blank v))) vs (env_map (envp (svc_child s)))"
proof (induction vs arbitrary: s slot)
  case (Cons v vs)
  have v: "CHR ''='' \<in> set v" "CHR 0x0A \<notin> set v" "CHR 0x0D \<notin> set v" using Cons.prems(2) by auto
  let ?e = "env_put (skip_blank v) (envp (svc_child s))"
  obtain es where es: "?e = Inr es"
    and rest: "parse_lines pe dropin (map (\<lambda>v. RL_Line (''env'' @ CHR ''='' # v @ [CHR 0x0A])) vs)
        (upd_child (envp_update (\<lambda>_. es)) s, slot) = Inr (s', slot')"
    using Cons.prems(1) env_line [OF v, of pe dropin s slot] by (cases ?e) (simp_all split: sum.splits)
  have "CHR ''='' \<in> set (skip_blank v)" using v(1)
    by (rule mem_dropWhile) (simp add: is_blank_def)
  note m = env_put_map [OF es this Cons.prems(3)]
  show ?case using Cons.IH [OF rest] Cons.prems(2) m by simp
qed simp

section \<open>Properties\<close>

text \<open>A directory with a service bound to another.\<close>

definition example_parse_env :: parse_env where
  "example_parse_env = \<lparr>pe_getpwnam = (\<lambda>_. None), pe_getpwuid = (\<lambda>_. None), pe_inet4 = (\<lambda>_. False),
     pe_inet6 = (\<lambda>_. False), pe_realpath = (\<lambda>_. None), pe_hardening = True\<rparr>"

definition example_text :: "string \<Rightarrow> string option" where
  "example_text = map_of
     [(''/s/a.svc'', ''exec=/a'' @ [CHR 0x0A] @ ''bind=b'' @ [CHR 0x0A]), (''/s/b.svc'', ''exec=/b'' @ [CHR 0x0A])]"

definition example_fs :: load_fs where
  "example_fs = \<lparr>lf_euid = 0, lf_dir = (\<lambda>_. None), lf_names = (\<lambda>d. if d = ''/s'' then Some [''a.svc'', ''b.svc''] else None),
     lf_isreg = (\<lambda>_. True), lf_open = (\<lambda>p. case example_text p of None \<Rightarrow> TError | Some t \<Rightarrow> TOpen t),
     lf_read = example_text, lf_realpath = (\<lambda>_. None), lf_stat = (\<lambda>_. None)\<rparr>"

lemma example_loads:
  "map svc_name (fst (services_load example_parse_env example_fs ''/s'' 128)) = [''a'', ''b'']"
  by code_simp

lemma dep_idx_frames [simp]:
  "lists_fit (s\<lparr>dep_idx := d\<rparr>) = lists_fit s" "strings_fit (s\<lparr>dep_idx := d\<rparr>) = strings_fit s"
  "numbers_fit (s\<lparr>dep_idx := d\<rparr>) = numbers_fit s"
  by (simp_all add: lists_fit_def strings_fit_def numbers_fit_def)

definition load_entry :: "parse_env \<Rightarrow> load_fs \<Rightarrow> string \<Rightarrow> string \<Rightarrow> parse_err + service_t" where
  "load_entry pe fs dir n = svc_load_file pe fs (take 511 (dir @ ''/'' @ n))"

definition svc_entries :: "string list \<Rightarrow> string list" where
  "svc_entries ns = filter (\<lambda>n. 5 \<le> length n \<and> ends_with ''.svc'' n) ns"

lemma load_entries_all:
  "length t0 + length ns \<le> mx \<Longrightarrow>
   load_entries pe fs dir mx ns (t0, r0) =
     (t0 @ concat (map (\<lambda>n. case load_entry pe fs dir n of Inl e \<Rightarrow> [] | Inr s \<Rightarrow> [s]) (svc_entries ns)),
      r0 + length (filter (\<lambda>n. load_entry pe fs dir n = Inl ErrRefused) (svc_entries ns)))"
proof (induction ns arbitrary: t0 r0)
  case (Cons n ns)
  show ?case
  proof (cases "5 \<le> length n \<and> ends_with ''.svc'' n")
    case True
    show ?thesis
    proof (cases "load_entry pe fs dir n")
      case (Inl e)
      then have "load_entries pe fs dir mx (n # ns) (t0, r0) =
          load_entries pe fs dir mx ns (t0, if e = ErrRefused then r0 + 1 else r0)"
        using True Cons.prems by (simp add: load_entry_def)
      then show ?thesis using Cons.IH [of t0 "if e = ErrRefused then r0 + 1 else r0"] Cons.prems True Inl
        by (simp add: svc_entries_def)
    next
      case (Inr s)
      then have "load_entries pe fs dir mx (n # ns) (t0, r0) = load_entries pe fs dir mx ns (t0 @ [s], r0)"
        using True Cons.prems by (simp add: load_entry_def)
      then show ?thesis using Cons.IH [of "t0 @ [s]" r0] Cons.prems True Inr by (simp add: svc_entries_def)
    qed
  next
    case False
    then have "load_entries pe fs dir mx (n # ns) (t0, r0) = load_entries pe fs dir mx ns (t0, r0)" by auto
    then show ?thesis using Cons.IH [of t0 r0] Cons.prems False by (auto simp: svc_entries_def)
  qed
qed (simp add: svc_entries_def)

text \<open>C23. Every service in a loaded table fits the arrays the engine keeps it in: strings are shorter than
  their buffers, argument, command, socket, condition, path and limit lists within their counts (with
  one entry per resource limit), bounded numbers in range, every \<^verbatim>\<open>condition=\<close> of a known kind, and every
  resolved dependency is -1 or an index of the table, which holds at most \<^verbatim>\<open>max\<close> services.\<close>

theorem services_load_well_typed:
  assumes "services_load pe fs dir mx = (table, refused)"
  shows "length table \<le> mx \<and>
    (\<forall>s\<in>set table. child_fits (svc_child s) \<and> length (rlim (svc_child s)) \<le> 16 \<and> lists_fit s \<and> strings_fit s \<and>
       numbers_fit s \<and> length (dep_name s) = MAX_DEPS \<and> length (dep_idx s) = MAX_DEPS \<and>
       (\<forall>i\<in>set (dep_idx s). -1 \<le> i \<and> i < int (length table)))"
proof -
  obtain t where t: "table = resolve_table t" "length t \<le> mx" "\<forall>s\<in>set t. svc_sound pe s \<and> (\<exists>slot. svc_fits s slot)"
    by (rule services_load_table [OF assms])
  have "child_fits (svc_child s) \<and> length (rlim (svc_child s)) \<le> 16 \<and> lists_fit s \<and> strings_fit s \<and>
       numbers_fit s \<and> length (dep_name s) = MAX_DEPS \<and> length (dep_idx s) = MAX_DEPS \<and>
       (\<forall>i\<in>set (dep_idx s). -1 \<le> i \<and> i < int (length table))" if s: "s \<in> set table" for s
  proof -
    obtain u where u: "u \<in> set t" "s = u\<lparr>dep_idx := resolve_deps (map svc_name t) (dep_name u) (dep_idx u)\<rparr>"
      using s unfolding t(1) resolve_table_def by auto
    obtain slot where f: "svc_fits u slot" using t(3) u(1) by blast
    have d: "dep_idx u = replicate MAX_DEPS (-1)" "length (dep_name u) = MAX_DEPS" using f by (simp_all add: svc_fits_def deps_fit_def)
    have "length table = length (map svc_name t)" by (simp add: t(1) resolve_table_def)
    moreover have "-1 \<le> i \<and> i < int (length (map svc_name t))"
      if "i \<in> set (resolve_deps (map svc_name t) (dep_name u) (dep_idx u))" for i
      by (rule resolved_range [OF that]) (simp_all add: d)
    ultimately have "\<forall>i\<in>set (dep_idx s). -1 \<le> i \<and> i < int (length table)" by (simp add: u(2))
    then show ?thesis using f rlim_le [of "svc_child u"] d unfolding svc_fits_def by (simp add: u(2))
  qed
  then show ?thesis using t(1,2) by (simp add: resolve_table_def)
qed

theorem services_load_well_typed_witness:
  "\<exists>table refused. services_load example_parse_env example_fs ''/s'' 128 = (table, refused) \<and>
     map svc_name table = [''a'', ''b''] \<and> (\<forall>s\<in>set table. strings_fit s \<and> length (dep_idx s) = 8)"
proof -
  obtain table refused where l: "services_load example_parse_env example_fs ''/s'' 128 = (table, refused)" by fastforce
  then have "map svc_name table = [''a'', ''b'']" using example_loads by simp
  moreover have "\<forall>s\<in>set table. strings_fit s \<and> length (dep_idx s) = 8"
    using services_load_well_typed [OF l] by simp
  ultimately show ?thesis using l by (intro exI conjI)
qed

text \<open>C22. What the engine may rely on in a service that loaded: it has a name and a program; no private
  \<^verbatim>\<open>/tmp\<close> or hidden home covers its program or ready path; landlock, where used, covers the program and
  every plain \<^verbatim>\<open>exec_pre=\<close>, and comes with no-new-privs when CAP_SYS_ADMIN is dropped; with the
  host's hardening default each knob is on, set by the file, or recorded as dropped; \<^verbatim>\<open>bind=X\<close> is among the
  dependencies and never on a timer; limits to verify and \<^verbatim>\<open>main_pid_notify\<close> come with \<^verbatim>\<open>notify=1\<close>; a partition
  has cores; catch-up only exists for calendar timers; and the start timeout is decided.\<close>

theorem loaded_service_sound:
  assumes "svc_load_file pe fs path = Inr s"
  shows "svc_name s \<noteq> [] \<and> svc_exec s \<noteq> [] \<and>
    (ns_private_tmp (svc_child s) \<longrightarrow> \<not> path_under (svc_exec s) tmp_dirs \<and> \<not> path_under (ready_path s) tmp_dirs) \<and>
    (ns_protect_home (svc_child s) \<longrightarrow> \<not> path_under (svc_exec s) home_dirs \<and> \<not> path_under (ready_path s) home_dirs) \<and>
    landlock_covers pe s \<and> (pe_hardening pe \<longrightarrow> defaults_applied s) \<and>
    (bind_name s \<noteq> [] \<longrightarrow> bind_name s \<in> set (dep_name s) \<and> \<not> has_flag s SVC_TIMER) \<and>
    (service_verifies_limits s \<longrightarrow> notify s) \<and> (has_flag s SVC_MAIN_PID_NOTIFY \<longrightarrow> notify s) \<and>
    (cpuset_partition s \<noteq> PART_MEMBER \<longrightarrow> cpuset s \<noteq> []) \<and>
    (has_flag s SVC_TIMER_PERSIST \<longrightarrow> has_flag s SVC_TIMER_CALENDAR) \<and> start_timeout_sec s \<noteq> -1"
  using svc_load_file_ok(1) [OF assms] unfolding svc_sound_def hides_nothing_def by blast

theorem loaded_service_sound_witness:
  "\<exists>s. svc_load_file example_parse_env example_fs ''/s/a.svc'' = Inr s \<and> bind_name s = ''b'' \<and>
     bind_name s \<in> set (dep_name s) \<and> defaults_applied s"
proof -
  have b: "case svc_load_file example_parse_env example_fs ''/s/a.svc'' of Inl e \<Rightarrow> False | Inr s \<Rightarrow> bind_name s = ''b''"
    by code_simp
  then obtain s where s: "svc_load_file example_parse_env example_fs ''/s/a.svc'' = Inr s" "bind_name s = ''b''"
    by (auto split: sum.splits)
  have "pe_hardening example_parse_env" by (simp add: example_parse_env_def)
  then show ?thesis using loaded_service_sound [OF s(1)] s by simp
qed

text \<open>C24. Names of dependencies resolve to the first service of that name, up to the first empty name: slot
  \<^verbatim>\<open>d\<close> of a loaded service holds the index of the first service called \<^verbatim>\<open>dep_name[d]\<close> when no slot up to \<^verbatim>\<open>d\<close>
  is empty and there is one, and -1 otherwise. An empty \<^verbatim>\<open>dep=\<close> line therefore hides every later
  dependency, the one of \<^verbatim>\<open>bind=\<close> included.\<close>

theorem services_load_resolves:
  assumes "services_load pe fs dir mx = (table, refused)" "s \<in> set table" "d < MAX_DEPS"
  shows "dep_idx s ! d =
    (if [] \<in> set (take (Suc d) (dep_name s)) then -1
     else case first_index (\<lambda>n. n = dep_name s ! d) (map svc_name table) of None \<Rightarrow> -1 | Some j \<Rightarrow> int j)"
proof -
  obtain t where t: "table = resolve_table t" "\<forall>s\<in>set t. svc_sound pe s \<and> (\<exists>slot. svc_fits s slot)"
    by (rule services_load_table [OF assms(1)])
  obtain u where u: "u \<in> set t" "s = u\<lparr>dep_idx := resolve_deps (map svc_name t) (dep_name u) (dep_idx u)\<rparr>"
    using assms(2) unfolding t(1) resolve_table_def by auto
  obtain slot where f: "svc_fits u slot" using t(2) u(1) by blast
  have l: "dep_idx u = replicate MAX_DEPS (-1)" "length (dep_name u) = MAX_DEPS" using f by (simp_all add: svc_fits_def deps_fit_def)
  have n: "map svc_name table = map svc_name t" by (simp add: t(1) resolve_table_def)
  have r: "resolve_deps (map svc_name t) (dep_name u) (dep_idx u) ! d =
      (if [] \<notin> set (take (Suc d) (dep_name u))
       then (case first_index (\<lambda>n. n = dep_name u ! d) (map svc_name t) of None \<Rightarrow> dep_idx u ! d | Some j \<Rightarrow> int j)
       else dep_idx u ! d)"
    by (rule resolve_deps_nth) (use l assms(3) in simp_all)
  have "dep_idx u ! d = -1" using l(1) assms(3) by (metis nth_replicate)
  note m = this
  show ?thesis using r unfolding n m by (simp add: u(2) split: if_splits del: first_index_None)
qed

theorem services_load_resolves_witness:
  "\<exists>table refused a. services_load example_parse_env example_fs ''/s'' 128 = (table, refused) \<and> a \<in> set table \<and>
     dep_idx a ! 0 = 1"
proof -
  define table where "table = fst (services_load example_parse_env example_fs ''/s'' 128)"
  define refused where "refused = snd (services_load example_parse_env example_fs ''/s'' 128)"
  have l: "services_load example_parse_env example_fs ''/s'' 128 = (table, refused)" by (simp add: table_def refused_def)
  have n: "map svc_name table = [''a'', ''b'']" unfolding table_def by (rule example_loads)
  have "dep_name (hd table) ! 0 = ''b'' \<and> take 1 (dep_name (hd table)) = [''b'']" unfolding table_def by code_simp
  moreover have h: "hd table \<in> set table" using n by (cases table) auto
  ultimately have "dep_idx (hd table) ! 0 = 1" using services_load_resolves [OF l h, of 0] n by simp
  then show ?thesis using l h by blast
qed

text \<open>C25. Loading is all or nothing per file, and refusals are counted: with room for every entry, the table
  holds exactly the services of the \<^verbatim>\<open>.svc\<close> files that load, in directory order, and the count that makes
  \<^verbatim>\<open>schema-ctl reload\<close> refuse the new table is the number of files refused on owner or mode, plus one when
  the directory or a parent is not trusted.\<close>

theorem services_load_outcome:
  assumes "lf_names fs dir = Some ns" "length ns \<le> mx"
  shows "services_load pe fs dir mx =
    (resolve_table (concat (map (\<lambda>n. case load_entry pe fs dir n of Inl e \<Rightarrow> [] | Inr s \<Rightarrow> [s]) (svc_entries ns))),
     (if svc_dir_chain_trusted fs dir then 0 else 1) +
       length (filter (\<lambda>n. load_entry pe fs dir n = Inl ErrRefused) (svc_entries ns)))"
  using assms load_entries_all [of "[]" ns mx pe fs dir "if svc_dir_chain_trusted fs dir then 0 else 1"]
  by (simp add: services_load_def Let_def)

theorem services_load_outcome_witness:
  "lf_names example_fs ''/s'' = Some [''a.svc'', ''b.svc''] \<and>
   snd (services_load example_parse_env example_fs ''/s'' 128) = 1"
proof -
  have n: "lf_names example_fs ''/s'' = Some [''a.svc'', ''b.svc'']" by (simp add: example_fs_def)
  have r: "filter (\<lambda>n. load_entry example_parse_env example_fs ''/s'' n = Inl ErrRefused) (svc_entries [''a.svc'', ''b.svc'']) = []"
  proof -
    have "list_all (\<lambda>n. case load_entry example_parse_env example_fs ''/s'' n of Inl e \<Rightarrow> False | Inr s \<Rightarrow> True)
        (svc_entries [''a.svc'', ''b.svc''])" by code_simp
    then show ?thesis by (auto simp: list_all_iff filter_empty_conv split: sum.splits)
  qed
  have "\<not> svc_dir_chain_trusted example_fs ''/s''" by code_simp
  then show ?thesis using services_load_outcome [OF n, of 128 example_parse_env] n r by simp
qed

text \<open>C26. \<^verbatim>\<open>env=\<close> lines refine assignments to a map: whatever entries there were, and in a base file or a
  drop-in, the accepted lines \<^verbatim>\<open>env=NAME=VALUE\<close> leave each name with the value of its last assignment and
  every other name as it was.\<close>

theorem env_lines_last_wins:
  assumes "parse_lines pe dropin (map (\<lambda>v. RL_Line (''env'' @ CHR ''='' # v @ [CHR 0x0A])) vs) (s, slot) = Inr (s', slot')"
    and "\<forall>v\<in>set vs. CHR ''='' \<in> set v \<and> CHR 0x0A \<notin> set v \<and> CHR 0x0D \<notin> set v"
    and "\<forall>e\<in>set (envp (svc_child s)). CHR ''='' \<in> set e"
  shows "env_map (envp (svc_child s')) =
    fold (\<lambda>v m. m(env_key (skip_blank v) \<mapsto> env_val (skip_blank v))) vs (env_map (envp (svc_child s)))"
  using assms by (rule env_lines_map)

theorem env_lines_last_wins_witness:
  "\<exists>s'. parse_lines example_parse_env False
      (map (\<lambda>v. RL_Line (''env'' @ CHR ''='' # v @ [CHR 0x0A])) [''A=1'', ''B=2'', ''A=3'']) (svc_init_defaults, 0) = Inr (s', 0) \<and>
    env_map (envp (svc_child s')) ''A'' = Some ''3''"
proof -
  let ?vs = "[''A=1'', ''B=2'', ''A=3'']"
  let ?p = "parse_lines example_parse_env False (map (\<lambda>v. RL_Line (''env'' @ CHR ''='' # v @ [CHR 0x0A])) ?vs) (svc_init_defaults, 0)"
  have "case ?p of Inl e \<Rightarrow> False | Inr (s', slot) \<Rightarrow> slot = 0" by code_simp
  then obtain s' where p: "?p = Inr (s', 0)" by (auto split: sum.splits)
  have v: "\<forall>v\<in>set ?vs. CHR ''='' \<in> set v \<and> CHR 0x0A \<notin> set v \<and> CHR 0x0D \<notin> set v" by simp
  have e: "envp (svc_child svc_init_defaults) = []" by (simp add: svc_init_defaults_def svc_child_init_def)
  have "env_map (envp (svc_child s')) =
      fold (\<lambda>v m. m(env_key (skip_blank v) \<mapsto> env_val (skip_blank v))) ?vs (env_map (envp (svc_child svc_init_defaults)))"
    by (rule env_lines_last_wins [OF p v]) (simp add: e)
  then have "env_map (envp (svc_child s')) ''A'' = Some ''3''"
    by (simp add: env_key_def env_val_def is_blank_def)
  then show ?thesis using p by blast
qed

end
