(* ===== verification/SD_Match.thy ===== *)
theory SD_Match
  imports SI_Prelude "HOL-Library.Multiset"
begin

text \<open>
  Match rules, \<^verbatim>\<open>src/sdbus_match.h\<close>: the parser of the comma separated \<^verbatim>\<open>key='value'\<close> pairs, the
  rule set of a connection with its add and remove, and the two matchers, for broadcast signals and
  for the messages copied to monitors. A pointer that may be NULL is an option.
\<close>

section \<open>Data\<close>

record sdbus_match_rule =
  mr_type :: "string option"
  mr_interface :: "string option"
  mr_member :: "string option"
  mr_path :: "string option"
  mr_path_namespace :: "string option"
  mr_sender :: "string option"
  mr_destination :: "string option"
  mr_arg0 :: "string option"
  mr_arg0namespace :: "string option"
  mr_raw :: string

definition match_rule_zero :: sdbus_match_rule where
  "match_rule_zero = \<lparr>mr_type = None, mr_interface = None, mr_member = None, mr_path = None,
     mr_path_namespace = None, mr_sender = None, mr_destination = None, mr_arg0 = None,
     mr_arg0namespace = None, mr_raw = []\<rparr>"

type_synonym sdbus_matchset = "sdbus_match_rule list"

section \<open>The parser\<close>

definition rule_slot :: "string \<Rightarrow> string \<Rightarrow> sdbus_match_rule \<Rightarrow> sdbus_match_rule" where
  "rule_slot k v r =
     (if k = ''type'' then r\<lparr>mr_type := Some v\<rparr>
      else if k = ''interface'' then r\<lparr>mr_interface := Some v\<rparr>
      else if k = ''member'' then r\<lparr>mr_member := Some v\<rparr>
      else if k = ''path'' then r\<lparr>mr_path := Some v\<rparr>
      else if k = ''path_namespace'' then r\<lparr>mr_path_namespace := Some v\<rparr>
      else if k = ''sender'' then r\<lparr>mr_sender := Some v\<rparr>
      else if k = ''destination'' then r\<lparr>mr_destination := Some v\<rparr>
      else if k = ''arg0'' then r\<lparr>mr_arg0 := Some v\<rparr>
      else if k = ''arg0namespace'' then r\<lparr>mr_arg0namespace := Some v\<rparr>
      else r)"

definition rule_sep :: "char \<Rightarrow> bool" where
  "rule_sep c \<longleftrightarrow> c = CHR '' '' \<or> c = CHR '',''"

definition rule_key_char :: "char \<Rightarrow> bool" where
  "rule_key_char c \<longleftrightarrow> c \<noteq> CHR ''='' \<and> c \<noteq> CHR '',''"

definition quote :: char where "quote = CHR 0x27"

text \<open>One turn of the \<^verbatim>\<open>while (*p)\<close> loop: the key, the quoted value and the rest, \<^verbatim>\<open>None\<close> where the
  code rejects the rule.\<close>

definition rule_pair :: "string \<Rightarrow> (string \<times> string \<times> string) option" where
  "rule_pair p =
     (let k = takeWhile rule_key_char p; p2 = dropWhile rule_key_char p in
      case p2 of
        c # q # p3 \<Rightarrow>
          if c = CHR ''='' \<and> q = quote
          then (case dropWhile (\<lambda>c. c \<noteq> quote) p3 of
                  [] \<Rightarrow> None
                | _ # p4 \<Rightarrow> Some (k, takeWhile (\<lambda>c. c \<noteq> quote) p3, p4))
          else None
      | _ \<Rightarrow> None)"

lemma length_rule_pair: "rule_pair p = Some (k, v, p') \<Longrightarrow> length p' < length p"
proof -
  assume a: "rule_pair p = Some (k, v, p')"
  then obtain c q p3 where p2: "dropWhile rule_key_char p = c # q # p3"
    by (auto simp: rule_pair_def split: list.splits)
  then have "length p3 < length p" using length_dropWhile_le [of rule_key_char p] by simp
  moreover have "length p' \<le> length p3"
    using a p2 length_dropWhile_le [of "\<lambda>c. c \<noteq> quote" p3]
    by (auto simp: rule_pair_def split: if_splits list.splits)
  ultimately show ?thesis by simp
qed

function rule_pairs :: "string \<Rightarrow> sdbus_match_rule \<Rightarrow> sdbus_match_rule option" where
  "rule_pairs p r =
     (let p1 = dropWhile rule_sep p in
      if p1 = [] then Some r
      else case rule_pair p1 of
             None \<Rightarrow> None
           | Some (k, v, p') \<Rightarrow> rule_pairs p' (rule_slot k v r))"
  by pat_completeness auto
termination
proof (relation "measure (\<lambda>(p, r). length p)")
  fix p r p1 y k z v p'
  assume a: "p1 = dropWhile rule_sep p" "p1 \<noteq> []" "rule_pair p1 = Some y" "(k, z) = y" "(v, p') = z"
  then have "length p' < length p1" using length_rule_pair by blast
  then show "((p', rule_slot k v r), p, r) \<in> measure (\<lambda>(p, r). length p)"
    using a(1) length_dropWhile_le [of rule_sep p] by simp
qed simp

declare rule_pairs.simps [simp del]

definition parse_rule :: "string \<Rightarrow> sdbus_match_rule option" where
  "parse_rule rule = map_option (\<lambda>r. r\<lparr>mr_raw := rule\<rparr>) (rule_pairs rule match_rule_zero)"

section \<open>The rule set\<close>

definition sdbus_match_add :: "sdbus_matchset \<Rightarrow> string \<Rightarrow> sdbus_matchset option" where
  "sdbus_match_add m rule = map_option (\<lambda>r. m @ [r]) (parse_rule rule)"

definition sdbus_match_remove :: "sdbus_matchset \<Rightarrow> string \<Rightarrow> sdbus_matchset option" where
  "sdbus_match_remove m rule =
     map_option (\<lambda>i. swap_remove i m) (first_index (\<lambda>r. mr_raw r = rule) m)"

section \<open>The matchers\<close>

definition eqornull :: "string option \<Rightarrow> string option \<Rightarrow> bool" where
  "eqornull cst field = (case cst of None \<Rightarrow> True | Some c \<Rightarrow> field = Some c)"

definition ns_match :: "string option \<Rightarrow> string option \<Rightarrow> bool" where
  "ns_match ns path =
     (case ns of
        None \<Rightarrow> True
      | Some n \<Rightarrow>
          (case path of
             None \<Rightarrow> False
           | Some p \<Rightarrow> starts_with n p \<and>
               (length p = length n \<or> p ! length n = CHR ''/'' \<or> n = ''/'')))"

definition sender_match :: "string option \<Rightarrow> string option \<Rightarrow> string list \<Rightarrow> bool" where
  "sender_match cst uniq owned =
     (case cst of None \<Rightarrow> True | Some c \<Rightarrow> uniq = Some c \<or> c \<in> set owned)"

definition arg0_match :: "sdbus_match_rule \<Rightarrow> string option \<Rightarrow> bool" where
  "arg0_match r arg0 \<longleftrightarrow>
     (case mr_arg0 r of None \<Rightarrow> True | Some a \<Rightarrow> arg0 = Some a) \<and>
     (case mr_arg0namespace r of
        None \<Rightarrow> True
      | Some n \<Rightarrow>
          (case arg0 of
             None \<Rightarrow> False
           | Some a \<Rightarrow> starts_with n a \<and> (length a = length n \<or> a ! length n = CHR ''.'')))"

definition rule_takes_signal ::
    "string option \<Rightarrow> string option \<Rightarrow> string option \<Rightarrow> string option \<Rightarrow> string list \<Rightarrow> string option \<Rightarrow>
     sdbus_match_rule \<Rightarrow> bool" where
  "rule_takes_signal iface member path uniq owned arg0 r \<longleftrightarrow>
     (mr_type r = None \<or> mr_type r = Some ''signal'') \<and> eqornull (mr_interface r) iface \<and>
     eqornull (mr_member r) member \<and> eqornull (mr_path r) path \<and>
     sender_match (mr_sender r) uniq owned \<and> ns_match (mr_path_namespace r) path \<and> arg0_match r arg0"

definition sdbus_match_signal ::
    "sdbus_matchset \<Rightarrow> string option \<Rightarrow> string option \<Rightarrow> string option \<Rightarrow> string option \<Rightarrow> string list \<Rightarrow>
     string option \<Rightarrow> bool" where
  "sdbus_match_signal m iface member path uniq owned arg0 =
     list_ex (rule_takes_signal iface member path uniq owned arg0) m"

definition rule_takes_message ::
    "string option \<Rightarrow> string option \<Rightarrow> string option \<Rightarrow> string option \<Rightarrow> string option \<Rightarrow> string option \<Rightarrow>
     string list \<Rightarrow> string option \<Rightarrow> string list \<Rightarrow> sdbus_match_rule \<Rightarrow> bool" where
  "rule_takes_message ty iface member path arg0 sender sowned dest downed r \<longleftrightarrow>
     eqornull (mr_type r) ty \<and> eqornull (mr_interface r) iface \<and> eqornull (mr_member r) member \<and>
     eqornull (mr_path r) path \<and> sender_match (mr_sender r) sender sowned \<and>
     sender_match (mr_destination r) dest downed \<and> ns_match (mr_path_namespace r) path \<and>
     arg0_match r arg0"

definition sdbus_match_message ::
    "sdbus_matchset option \<Rightarrow> string option \<Rightarrow> string option \<Rightarrow> string option \<Rightarrow> string option \<Rightarrow>
     string option \<Rightarrow> string option \<Rightarrow> string list \<Rightarrow> string option \<Rightarrow> string list \<Rightarrow> bool" where
  "sdbus_match_message m ty iface member path arg0 sender sowned dest downed =
     (case m of
        None \<Rightarrow> True
      | Some rs \<Rightarrow> rs = [] \<or>
          list_ex (rule_takes_message ty iface member path arg0 sender sowned dest downed) rs)"

section \<open>What the parser reads\<close>

text \<open>The text of one pair and of a whole rule, and the pairs it can carry: no separator at the
  start of a key, no quote in a value.\<close>

definition show_pair :: "string \<times> string \<Rightarrow> string" where
  "show_pair kv = fst kv @ [CHR ''='', quote] @ snd kv @ [quote]"

definition pair_ok :: "string \<times> string \<Rightarrow> bool" where
  "pair_ok kv \<longleftrightarrow> list_all rule_key_char (fst kv) \<and> quote \<notin> set (snd kv) \<and>
     (fst kv \<noteq> [] \<longrightarrow> hd (fst kv) \<noteq> CHR '' '')"

fun show_rule :: "(string \<times> string) list \<Rightarrow> string" where
  "show_rule [] = []"
| "show_rule [kv] = show_pair kv"
| "show_rule (kv # kw # kvs) = show_pair kv @ CHR '','' # show_rule (kw # kvs)"

lemma quote_facts: "quote \<noteq> CHR ''=''" "quote \<noteq> CHR '',''" "\<not> rule_sep quote"
  by (simp_all add: quote_def rule_sep_def)

lemma rule_pair_show:
  assumes "pair_ok kv"
  shows "rule_pair (show_pair kv @ s) = Some (fst kv, snd kv, s)"
proof -
  have k: "takeWhile rule_key_char (show_pair kv @ s) = fst kv"
    "dropWhile rule_key_char (show_pair kv @ s) = CHR ''='' # quote # snd kv @ quote # s"
    using assms by (simp_all add: show_pair_def pair_ok_def takeWhile_append2 dropWhile_append2
        list_all_iff rule_key_char_def)
  have v: "takeWhile (\<lambda>c. c \<noteq> quote) (snd kv @ quote # s) = snd kv"
    "dropWhile (\<lambda>c. c \<noteq> quote) (snd kv @ quote # s) = quote # s"
    using assms by (simp_all add: pair_ok_def takeWhile_neq_append dropWhile_neq_append)
  show ?thesis by (simp add: rule_pair_def Let_def k v)
qed

lemma show_pair_start:
  assumes "pair_ok kv"
  shows "dropWhile rule_sep (show_pair kv @ s) = show_pair kv @ s"
  using assms by (cases "fst kv") (auto simp: show_pair_def pair_ok_def rule_sep_def rule_key_char_def)

lemma rule_pairs_Nil [simp]: "rule_pairs [] r = Some r"
  by (simp add: rule_pairs.simps)

lemma rule_pairs_show:
  assumes "pair_ok kv"
  shows "rule_pairs (show_pair kv @ s) r = rule_pairs s (rule_slot (fst kv) (snd kv) r)"
proof -
  have "show_pair kv \<noteq> []" by (simp add: show_pair_def)
  then show ?thesis
    by (subst rule_pairs.simps) (simp add: show_pair_start [OF assms] rule_pair_show [OF assms])
qed

lemma rule_pairs_comma: "rule_pairs (CHR '','' # s) r = rule_pairs s r"
  by (subst (1 2) rule_pairs.simps) (simp add: rule_sep_def)

lemma rule_pairs_show_rule:
  "list_all pair_ok kvs \<Longrightarrow>
     rule_pairs (show_rule kvs) r = Some (fold (\<lambda>kv. rule_slot (fst kv) (snd kv)) kvs r)"
proof (induction kvs arbitrary: r rule: show_rule.induct)
  case (2 kv)
  then show ?case using rule_pairs_show [of kv "[]" r] by simp
next
  case (3 kv kw kvs)
  then show ?case by (simp add: rule_pairs_show rule_pairs_comma)
qed simp

section \<open>Adding and removing rules\<close>

text \<open>Every rule of a set is what the parser made of its own text.\<close>

definition matchset_ok :: "sdbus_matchset \<Rightarrow> bool" where
  "matchset_ok m \<longleftrightarrow> (\<forall>r\<in>set m. parse_rule (mr_raw r) = Some r)"

lemma parse_rule_raw: "parse_rule s = Some r \<Longrightarrow> mr_raw r = s"
  by (auto simp: parse_rule_def)

lemma matchset_ok_add: "matchset_ok m \<Longrightarrow> sdbus_match_add m s = Some m' \<Longrightarrow> matchset_ok m'"
  by (auto simp: sdbus_match_add_def matchset_ok_def) (metis parse_rule_raw)

lemma mset_swap_remove:
  assumes "i < length xs"
  shows "mset (swap_remove i xs) = mset xs - {#xs ! i#}"
proof -
  obtain as x bs where xs: "xs = as @ x # bs" "xs ! i = x"
    and r: "swap_remove i xs = (if bs = [] then as else as @ last bs # butlast bs)"
    using swap_remove_split [OF assms] by metis
  have "mset (swap_remove i xs) = mset as + mset bs" unfolding r by (cases bs rule: rev_cases) simp_all
  then show ?thesis using xs by simp
qed

lemma add_remove_mset:
  assumes "matchset_ok m" "sdbus_match_add m s = Some m1"
  shows "\<exists>m2. sdbus_match_remove m1 s = Some m2 \<and> mset m2 = mset m"
proof -
  obtain r where r: "parse_rule s = Some r" "m1 = m @ [r]"
    using assms(2) by (auto simp: sdbus_match_add_def)
  have raw: "mr_raw r = s" using parse_rule_raw [OF r(1)] .
  then obtain i where i: "first_index (\<lambda>r. mr_raw r = s) m1 = Some i"
    using first_index_None [of "\<lambda>r. mr_raw r = s" m1] r(2) by fastforce
  note ii = first_index_SomeD [OF i]
  have "matchset_ok m1" using matchset_ok_add [OF assms] .
  then have "m1 ! i = r" using ii r(1) by (metis matchset_ok_def nth_mem option.inject)
  then have "mset (swap_remove i m1) = mset m" using ii mset_swap_remove [of i m1] r(2) by simp
  then show ?thesis using i by (simp add: sdbus_match_remove_def)
qed

lemma match_signal_mset:
  "mset m = mset m' \<Longrightarrow>
     sdbus_match_signal m i mb p u ow a = sdbus_match_signal m' i mb p u ow a"
  unfolding sdbus_match_signal_def list_ex_iff by (metis set_mset_mset)

section \<open>Properties\<close>

text \<open>Parsing the text of a list of pairs gives back the pairs: each known key has the value of
  its last occurrence, unknown keys leave no trace, and the verbatim text is kept for RemoveMatch.\<close>

theorem match_rule_roundtrip:
  assumes "list_all pair_ok kvs"
  shows "parse_rule (show_rule kvs) =
    Some ((fold (\<lambda>kv. rule_slot (fst kv) (snd kv)) kvs match_rule_zero)\<lparr>mr_raw := show_rule kvs\<rparr>)"
  using rule_pairs_show_rule [OF assms] by (simp add: parse_rule_def)

theorem match_rule_roundtrip_witness:
  "map_option mr_path (parse_rule (show_rule [(''type'', ''signal''), (''path'', ''/a,b=c''), (''path'', ''/d'')]))
     = Some (Some ''/d'')"
proof -
  let ?kvs = "[(''type'', ''signal''), (''path'', ''/a,b=c''), (''path'', ''/d'')]"
  have "list_all pair_ok ?kvs" by code_simp
  then show ?thesis using match_rule_roundtrip [of ?kvs] by (simp add: rule_slot_def)
qed

text \<open>C40. RemoveMatch undoes AddMatch: after a rule was accepted, removing the same text succeeds and
  the connection receives exactly the signals it received before, whatever other rules, equal ones
  included, its set has.\<close>

theorem match_remove_undoes_add:
  assumes "matchset_ok m" "sdbus_match_add m s = Some m1"
  shows "\<exists>m2. sdbus_match_remove m1 s = Some m2 \<and> length m2 = length m \<and>
    (\<forall>i mb p u ow a. sdbus_match_signal m2 i mb p u ow a = sdbus_match_signal m i mb p u ow a)"
proof -
  obtain m2 where m2: "sdbus_match_remove m1 s = Some m2" "mset m2 = mset m"
    using add_remove_mset [OF assms] by blast
  then show ?thesis using match_signal_mset [OF m2(2)] mset_eq_length [OF m2(2)] by blast
qed

theorem match_remove_undoes_add_witness:
  "let t = show_rule [(''member'', ''A'')]; m = the (sdbus_match_add [] t); m1 = the (sdbus_match_add m t)
   in length m1 = 2 \<and> (\<exists>m2. sdbus_match_remove m1 t = Some m2 \<and>
        sdbus_match_signal m2 None (Some ''A'') None None [] None \<and>
        \<not> sdbus_match_signal m2 None (Some ''B'') None None [] None)"
proof -
  let ?t = "show_rule [(''member'', ''A'')]"
  let ?m = "the (sdbus_match_add [] ?t)"
  let ?m1 = "the (sdbus_match_add ?m ?t)"
  have p: "matchset_ok ?m \<and> sdbus_match_add ?m ?t = Some ?m1 \<and> length ?m1 = 2 \<and>
      sdbus_match_signal ?m None (Some ''A'') None None [] None \<and>
      \<not> sdbus_match_signal ?m None (Some ''B'') None None [] None" by code_simp
  then show ?thesis using match_remove_undoes_add [of ?m ?t ?m1] by (auto simp: Let_def)
qed

end
