(* ===== verification/SD_Wire.thy ===== *)
theory SD_Wire
  imports SI_Prelude "HOL-Library.Monad_Syntax"
begin

text \<open>
  The header parser and the sender rewrite of the message bus, \<^verbatim>\<open>src/sdbus_wire.h\<close>. A buffer is the
  list of its bytes, \<^verbatim>\<open>len\<close> its length. Every read of the buffer goes through \<^verbatim>\<open>rd\<close>, which is
  \<^const>\<open>None\<close> outside the buffer, so that a read past the end makes the whole parse \<^const>\<open>None\<close>; the
  parser's own answers (corrupt, incomplete, a message) are values of \<^verbatim>\<open>wire_result\<close>. Offsets are
  natural numbers: the code bounds both lengths by \<^verbatim>\<open>SDBUS_MAX_MSG\<close> before it adds them, so that no
  sum it forms leaves the range of \<^verbatim>\<open>int\<close>. A string field is the C string the pointer denotes.
\<close>

section \<open>Bytes\<close>

definition chr_of :: "u8 \<Rightarrow> char" where "chr_of b = char_of (unat b)"
definition byte_of :: "char \<Rightarrow> u8" where "byte_of c = word_of_nat (of_char c)"

lemma byte_of_chr [simp]: "byte_of (chr_of b) = b"
proof -
  have "unat b < 256" using unsigned_less [of b] by simp
  then show ?thesis by (simp add: byte_of_def chr_of_def)
qed

lemma chr_of_byte [simp]: "chr_of (byte_of c) = c"
proof -
  have "of_char c < (256 :: nat)" by simp
  then have "unat (word_of_nat (of_char c) :: u8) = of_char c" by (simp add: unat_of_nat)
  then show ?thesis by (simp add: byte_of_def chr_of_def)
qed

definition rd :: "u8 list \<Rightarrow> nat \<Rightarrow> u8 option" where
  "rd buf i = (if i < length buf then Some (buf ! i) else None)"

definition cat_u32 :: "bool \<Rightarrow> u8 \<Rightarrow> u8 \<Rightarrow> u8 \<Rightarrow> u8 \<Rightarrow> u32" where
  "cat_u32 le p0 p1 p2 p3 =
     (if le then ucast p0 OR push_bit 8 (ucast p1) OR push_bit 16 (ucast p2) OR push_bit 24 (ucast p3)
      else ucast p3 OR push_bit 8 (ucast p2) OR push_bit 16 (ucast p1) OR push_bit 24 (ucast p0))"

definition rd_u32 :: "u8 list \<Rightarrow> nat \<Rightarrow> bool \<Rightarrow> u32 option" where
  "rd_u32 buf i le =
     do { p0 \<leftarrow> rd buf i; p1 \<leftarrow> rd buf (i + 1); p2 \<leftarrow> rd buf (i + 2); p3 \<leftarrow> rd buf (i + 3);
          Some (cat_u32 le p0 p1 p2 p3) }"

text \<open>The C string at an offset: the bytes up to the first NUL, which must be in the buffer.\<close>

definition wire_str :: "u8 list \<Rightarrow> nat \<Rightarrow> string option" where
  "wire_str buf i =
     (let t = takeWhile (\<lambda>b. b \<noteq> 0) (drop i buf)
      in if i + length t < length buf then Some (map chr_of t) else None)"

text \<open>\<^verbatim>\<open>(off + (a - 1)) & ~(a - 1)\<close>, which rounds up to a multiple of the power of two \<^verbatim>\<open>a\<close>.\<close>

definition align :: "nat \<Rightarrow> nat \<Rightarrow> nat" where
  "align off a = (off + (a - 1)) div a * a"

section \<open>The message header\<close>

definition SDBUS_TYPE_METHOD_CALL :: u8 where "SDBUS_TYPE_METHOD_CALL = 1"
definition SDBUS_TYPE_METHOD_RETURN :: u8 where "SDBUS_TYPE_METHOD_RETURN = 2"
definition SDBUS_TYPE_ERROR :: u8 where "SDBUS_TYPE_ERROR = 3"
definition SDBUS_TYPE_SIGNAL :: u8 where "SDBUS_TYPE_SIGNAL = 4"
definition SDBUS_FLAG_NO_REPLY :: u8 where "SDBUS_FLAG_NO_REPLY = 1"
definition SDBUS_MAX_MSG :: int where "SDBUS_MAX_MSG = 134217728"

record sdbus_wire_msg =
  endian_le :: bool
  w_type :: u8
  w_flags :: u8
  w_serial :: u32
  w_reply_serial :: u32
  w_has_reply_serial :: bool
  w_path :: "string option"
  w_interface :: "string option"
  w_member :: "string option"
  w_error_name :: "string option"
  w_destination :: "string option"
  w_sender :: "string option"
  w_signature :: "string option"
  w_arg0 :: "string option"
  w_unix_fds :: u32
  w_has_unix_fds :: bool
  body_offset :: nat
  body_len :: nat
  total_len :: nat

definition wire_msg_zero :: sdbus_wire_msg where
  "wire_msg_zero = \<lparr>endian_le = False, w_type = 0, w_flags = 0, w_serial = 0, w_reply_serial = 0,
     w_has_reply_serial = False, w_path = None, w_interface = None, w_member = None,
     w_error_name = None, w_destination = None, w_sender = None, w_signature = None, w_arg0 = None,
     w_unix_fds = 0, w_has_unix_fds = False, body_offset = 0, body_len = 0, total_len = 0\<rparr>"

datatype wire_result = WMore | WBad | WMsg sdbus_wire_msg

datatype hval = HStr string | HU32 u32

text \<open>The value of a header field of type \<^verbatim>\<open>sig\<close> at \<^verbatim>\<open>off\<close> and the offset after it; the inner
  \<^const>\<open>None\<close> is the code's \<^verbatim>\<open>return -1\<close>.\<close>

definition field_value ::
    "u8 list \<Rightarrow> bool \<Rightarrow> nat \<Rightarrow> char \<Rightarrow> nat \<Rightarrow> (nat \<times> hval) option option" where
  "field_value buf le he sg off0 =
     (if sg = CHR ''s'' \<or> sg = CHR ''o'' then
        (let off = align off0 4 in
         if off + 4 > he then Some None
         else do { sl \<leftarrow> rd_u32 buf off le;
                   if unat sl \<ge> he - (off + 4) then Some None
                   else do { z \<leftarrow> rd buf (off + 4 + unat sl);
                             if z \<noteq> 0 then Some None
                             else do { s \<leftarrow> wire_str buf (off + 4);
                                       Some (Some (off + 4 + unat sl + 1, HStr s)) } } })
      else if sg = CHR ''g'' then
        (if off0 \<ge> he then Some None
         else do { gl \<leftarrow> rd buf off0;
                   if unat gl \<ge> he - (off0 + 1) then Some None
                   else do { z \<leftarrow> rd buf (off0 + 1 + unat gl);
                             if z \<noteq> 0 then Some None
                             else do { s \<leftarrow> wire_str buf (off0 + 1);
                                       Some (Some (off0 + 1 + unat gl + 1, HStr s)) } } })
      else if sg = CHR ''u'' then
        (let off = align off0 4 in
         if off + 4 > he then Some None
         else do { v \<leftarrow> rd_u32 buf off le; Some (Some (off + 4, HU32 v)) })
      else Some None)"

definition kfieldtype :: "nat \<Rightarrow> char" where
  "kfieldtype code = ''?osssussgu'' ! code"

definition field_type_ok :: "u8 \<Rightarrow> char \<Rightarrow> bool" where
  "field_type_ok code sg \<longleftrightarrow> \<not> (1 \<le> code \<and> code \<le> 9 \<and> sg \<noteq> kfieldtype (unat code))"

definition set_field :: "u8 \<Rightarrow> hval \<Rightarrow> sdbus_wire_msg \<Rightarrow> sdbus_wire_msg" where
  "set_field code v m =
     (case v of
        HStr s \<Rightarrow>
          (if code = 1 then m\<lparr>w_path := Some s\<rparr>
           else if code = 2 then m\<lparr>w_interface := Some s\<rparr>
           else if code = 3 then m\<lparr>w_member := Some s\<rparr>
           else if code = 4 then m\<lparr>w_error_name := Some s\<rparr>
           else if code = 6 then m\<lparr>w_destination := Some s\<rparr>
           else if code = 7 then m\<lparr>w_sender := Some s\<rparr>
           else if code = 8 then m\<lparr>w_signature := Some s\<rparr>
           else m)
      | HU32 u \<Rightarrow>
          (if code = 5 then m\<lparr>w_reply_serial := u, w_has_reply_serial := True\<rparr>
           else if code = 9 then m\<lparr>w_unix_fds := u, w_has_unix_fds := True\<rparr>
           else m))"

datatype field_step = FDone | FBad | FNext nat sdbus_wire_msg

definition one_field ::
    "u8 list \<Rightarrow> nat \<Rightarrow> nat \<Rightarrow> sdbus_wire_msg \<Rightarrow> field_step option" where
  "one_field buf he off0 m =
     (let off = align off0 8 in
      if off + 2 > he then Some FDone
      else do { code \<leftarrow> rd buf off;
                siglen \<leftarrow> rd buf (off + 1);
                if off + 2 + unat siglen + 1 > he then Some FBad
                else do { sg \<leftarrow> rd buf (off + 2);
                          fv \<leftarrow> field_value buf (endian_le m) he (chr_of sg) (off + 2 + unat siglen + 1);
                          Some (case fv of
                                  None \<Rightarrow> FBad
                                | Some (off', v) \<Rightarrow>
                                    if field_type_ok code (chr_of sg) then FNext off' (set_field code v m)
                                    else FBad) } })"

lemma align_ge: "0 < a \<Longrightarrow> off \<le> align off a"
proof -
  assume "0 < a"
  have "off + (a - 1) = (off + (a - 1)) div a * a + (off + (a - 1)) mod a" by simp
  moreover have "(off + (a - 1)) mod a < a" using \<open>0 < a\<close> by simp
  ultimately show ?thesis unfolding align_def by linarith
qed

lemma field_value_progress:
  assumes "field_value buf le he sg off0 = Some (Some (off', v))"
  shows "off0 < off' \<and> off' \<le> he"
proof -
  have "off0 \<le> align off0 4" by (simp add: align_ge)
  then show ?thesis using assms
    by (auto simp: field_value_def Let_def split: if_splits bind_splits)
qed

lemma one_field_progress: "one_field buf he off m = Some (FNext off' m') \<Longrightarrow> off < off' \<and> off' \<le> he"
proof -
  assume a: "one_field buf he off m = Some (FNext off' m')"
  have "off \<le> align off 8" by (simp add: align_ge)
  then show ?thesis using a field_value_progress
    by (fastforce simp: one_field_def Let_def split: if_splits bind_splits option.splits)
qed

text \<open>The \<^verbatim>\<open>while (off < header_end)\<close> loop.\<close>

function parse_fields ::
    "u8 list \<Rightarrow> nat \<Rightarrow> nat \<Rightarrow> sdbus_wire_msg \<Rightarrow> sdbus_wire_msg option option" where
  "parse_fields buf he off m =
     (if off < he
      then (case one_field buf he off m of
              None \<Rightarrow> None
            | Some FDone \<Rightarrow> Some (Some m)
            | Some FBad \<Rightarrow> Some None
            | Some (FNext off' m') \<Rightarrow> parse_fields buf he off' m')
      else Some (Some m))"
  by pat_completeness auto
termination
  by (relation "measure (\<lambda>(buf, he, off, m). he - off)") (auto dest: one_field_progress)

declare parse_fields.simps [simp del]

text \<open>The first argument of a body of \<^verbatim>\<open>bl\<close> bytes at \<^verbatim>\<open>bo\<close>, when its signature starts with a string
  or an object path.\<close>

definition body_arg0 :: "bool \<Rightarrow> string option \<Rightarrow> u8 list \<Rightarrow> nat \<Rightarrow> nat \<Rightarrow> string option option" where
  "body_arg0 le sig buf bo bl =
     (case sig of
        Some (c # s) \<Rightarrow>
          if (c = CHR ''s'' \<or> c = CHR ''o'') \<and> 5 \<le> bl
          then do { sl \<leftarrow> rd_u32 buf bo le;
                    if unat sl < bl - 4
                    then do { z \<leftarrow> rd buf (bo + 4 + unat sl);
                              if z = 0 then do { a \<leftarrow> wire_str buf (bo + 4); Some (Some a) }
                              else Some None }
                    else Some None }
          else Some None
      | _ \<Rightarrow> Some None)"

definition wire_arg0 :: "u8 list \<Rightarrow> sdbus_wire_msg \<Rightarrow> string option option" where
  "wire_arg0 buf m = body_arg0 (endian_le m) (w_signature m) buf (body_offset m) (body_len m)"

definition sdbus_wire_parse :: "u8 list \<Rightarrow> wire_result option" where
  "sdbus_wire_parse buf =
     (if length buf < 16 then Some WMore
      else do { b0 \<leftarrow> rd buf 0;
        if chr_of b0 \<noteq> CHR ''l'' \<and> chr_of b0 \<noteq> CHR ''B'' then Some WBad
        else (let le = (chr_of b0 = CHR ''l'') in
          do { ty \<leftarrow> rd buf 1; fl \<leftarrow> rd buf 2;
               blen \<leftarrow> rd_u32 buf 4 le; ser \<leftarrow> rd_u32 buf 8 le; farr \<leftarrow> rd_u32 buf 12 le;
               if uint farr > SDBUS_MAX_MSG \<or> uint blen > SDBUS_MAX_MSG then Some WBad
               else (let he = 16 + unat farr; bo = align he 8; total = bo + unat blen in
                 if int total > SDBUS_MAX_MSG then Some WBad
                 else if length buf < total then Some WMore
                 else do { pf \<leftarrow> parse_fields buf he 16
                             (wire_msg_zero\<lparr>endian_le := le, w_type := ty, w_flags := fl, w_serial := ser,
                                body_offset := bo, body_len := unat blen, total_len := total\<rparr>);
                           case pf of
                             None \<Rightarrow> Some WBad
                           | Some m \<Rightarrow> do { a \<leftarrow> wire_arg0 buf m; Some (WMsg (m\<lparr>w_arg0 := a\<rparr>)) } }) }) })"

text \<open>\<^verbatim>\<open>(int)m->unix_fds\<close>: a count above the range of \<^verbatim>\<open>int\<close> reads as a negative number.\<close>

definition sdbus_wire_n_fds :: "sdbus_wire_msg \<Rightarrow> int" where
  "sdbus_wire_n_fds m = (if w_has_unix_fds m then sint (w_unix_fds m) else 0)"

section \<open>The writer\<close>

definition w_align :: "nat \<Rightarrow> u8 list \<Rightarrow> u8 list" where
  "w_align a w = w @ replicate (align (length w) a - length w) 0"

definition u32_bytes :: "bool \<Rightarrow> u32 \<Rightarrow> u8 list" where
  "u32_bytes le v =
     (let bs = [ucast v, ucast (drop_bit 8 v), ucast (drop_bit 16 v), ucast (drop_bit 24 v)]
      in if le then bs else rev bs)"

definition w_u32 :: "bool \<Rightarrow> u32 \<Rightarrow> u8 list \<Rightarrow> u8 list" where
  "w_u32 le v w = w_align 4 w @ u32_bytes le v"

definition w_str_field :: "bool \<Rightarrow> u8 \<Rightarrow> char \<Rightarrow> string \<Rightarrow> u8 list \<Rightarrow> u8 list" where
  "w_str_field le code sigc val w =
     (let w1 = w_align 8 w @ [code, 1, byte_of sigc, 0] in
      if sigc = CHR ''g''
      then w1 @ [of_nat (length val)] @ map byte_of val @ [0]
      else w_u32 le (of_nat (length val)) w1 @ map byte_of val @ [0])"

definition w_u32_field :: "bool \<Rightarrow> u8 \<Rightarrow> u32 \<Rightarrow> u8 list \<Rightarrow> u8 list" where
  "w_u32_field le code val w = w_u32 le val (w_align 8 w @ [code, 1, byte_of (CHR ''u''), 0])"

definition opt_str_field :: "bool \<Rightarrow> u8 \<Rightarrow> char \<Rightarrow> string option \<Rightarrow> u8 list \<Rightarrow> u8 list" where
  "opt_str_field le code sigc val w = (case val of None \<Rightarrow> w | Some s \<Rightarrow> w_str_field le code sigc s w)"

definition reforward_fields :: "sdbus_wire_msg \<Rightarrow> string \<Rightarrow> u8 list" where
  "reforward_fields m new_sender =
     (let le = endian_le m;
          w1 = opt_str_field le 1 (CHR ''o'') (w_path m) [];
          w2 = opt_str_field le 2 (CHR ''s'') (w_interface m) w1;
          w3 = opt_str_field le 3 (CHR ''s'') (w_member m) w2;
          w4 = opt_str_field le 4 (CHR ''s'') (w_error_name m) w3;
          w5 = (if w_has_reply_serial m then w_u32_field le 5 (w_reply_serial m) w4 else w4);
          w6 = opt_str_field le 6 (CHR ''s'') (w_destination m) w5;
          w7 = w_str_field le 7 (CHR ''s'') new_sender w6;
          w8 = opt_str_field le 8 (CHR ''g'') (w_signature m) w7
      in (if w_has_unix_fds m then w_u32_field le 9 (w_unix_fds m) w8 else w8))"

definition sdbus_wire_reforward :: "u8 list \<Rightarrow> sdbus_wire_msg \<Rightarrow> string \<Rightarrow> u8 list" where
  "sdbus_wire_reforward orig m new_sender =
     (let fw = reforward_fields m new_sender;
          w = w_u32 (endian_le m) (of_nat (length fw)) (take 12 orig) @ fw
      in w_align 8 w @ take (body_len m) (drop (body_offset m) orig))"

section \<open>No read leaves the buffer\<close>

lemma rd_Some [simp]: "i < length buf \<Longrightarrow> rd buf i = Some (buf ! i)"
  by (simp add: rd_def)

lemma rd_u32_defined: "i + 4 \<le> length buf \<Longrightarrow> \<exists>v. rd_u32 buf i le = Some v"
  by (simp add: rd_u32_def)

lemma wire_str_defined:
  assumes "i \<le> j" "j < length buf" "buf ! j = 0"
  shows "\<exists>s. wire_str buf i = Some s"
proof -
  have "(drop i buf) ! (j - i) = 0" "j - i < length (drop i buf)" using assms by auto
  then have "length (takeWhile (\<lambda>b. b \<noteq> 0) (drop i buf)) \<le> j - i"
    by (metis (mono_tags, lifting) linorder_not_le nth_mem set_takeWhileD takeWhile_nth)
  then show ?thesis using assms by (simp add: wire_str_def Let_def)
qed

lemma str_value_defined:
  assumes "i \<le> j" "j < length buf"
  shows "(do { z \<leftarrow> rd buf j; if z \<noteq> 0 then Some None
      else do { s \<leftarrow> wire_str buf i; Some (Some (e, HStr s)) } }) \<noteq> None"
proof (cases "buf ! j = 0")
  case True
  then obtain s where "wire_str buf i = Some s" using wire_str_defined [of i j buf] assms by auto
  then show ?thesis using assms by simp
next
  case False
  then show ?thesis using assms by simp
qed

lemma field_value_defined:
  assumes "he \<le> length buf"
  shows "field_value buf le he sg off \<noteq> None"
proof -
  let ?o = "align off 4"
  have u: "\<exists>v. rd_u32 buf ?o le = Some v" if "\<not> ?o + 4 > he"
    using rd_u32_defined [of ?o buf le] that assms by simp
  consider "sg = CHR ''s'' \<or> sg = CHR ''o''" | "sg = CHR ''g''" | "sg = CHR ''u''"
    | "sg \<notin> {CHR ''s'', CHR ''o'', CHR ''g'', CHR ''u''}" by auto
  then show ?thesis
  proof cases
    case 1
    show ?thesis
    proof (cases "?o + 4 > he")
      case False
      then obtain v where v: "rd_u32 buf ?o le = Some v" using u by blast
      show ?thesis
        using 1 False v assms str_value_defined [of "?o + 4" "?o + 4 + unat v" buf "?o + 4 + unat v + 1"]
        by (auto simp: field_value_def Let_def simp del: not_None_eq bind_eq_None_conv)
    qed (use 1 in \<open>auto simp: field_value_def\<close>)
  next
    case 2
    show ?thesis
    proof (cases "off \<ge> he")
      case False
      show ?thesis
        using 2 False assms
          str_value_defined [of "off + 1" "off + 1 + unat (buf ! off)" buf "off + 1 + unat (buf ! off) + 1"]
        by (auto simp: field_value_def Let_def simp del: not_None_eq bind_eq_None_conv)
    qed (use 2 in \<open>auto simp: field_value_def\<close>)
  next
    case 3
    then show ?thesis using u by (cases "?o + 4 > he") (auto simp: field_value_def Let_def)
  next
    case 4
    then show ?thesis by (auto simp: field_value_def)
  qed
qed

lemma one_field_defined: "he \<le> length buf \<Longrightarrow> one_field buf he off m \<noteq> None"
  using field_value_defined [of he buf "endian_le m"]
  by (auto simp: one_field_def Let_def simp del: not_None_eq split: bind_splits)

text \<open>The part of the header the fixed 16 bytes give, which no field changes.\<close>

definition frame :: "sdbus_wire_msg \<Rightarrow> bool \<times> u8 \<times> u8 \<times> u32 \<times> nat \<times> nat \<times> nat" where
  "frame m = (endian_le m, w_type m, w_flags m, w_serial m, body_offset m, body_len m, total_len m)"

lemma frame_set_field [simp]: "frame (set_field code v m) = frame m"
  by (simp add: frame_def set_field_def split: hval.splits)

lemma one_field_frame: "one_field buf he off m = Some (FNext off' m') \<Longrightarrow> frame m' = frame m"
  by (auto simp: one_field_def Let_def split: if_splits bind_splits option.splits)

lemma parse_fields_defined:
  assumes "he \<le> length buf"
  shows "\<exists>r. parse_fields buf he off m = Some r \<and> (\<forall>m'. r = Some m' \<longrightarrow> frame m' = frame m)"
  using assms
proof (induction buf he off m rule: parse_fields.induct)
  case (1 buf he off m)
  show ?case
  proof (cases "off < he")
    case True
    obtain st where st: "one_field buf he off m = Some st" using one_field_defined [OF 1(2)] by blast
    show ?thesis
    proof (cases st)
      case (FNext off' m')
      then show ?thesis using 1(1) [OF True st FNext 1(2)] one_field_frame st True
        by (subst parse_fields.simps) auto
    qed (use True st in \<open>subst parse_fields.simps, simp\<close>)+
  next
    case False
    then show ?thesis by (subst parse_fields.simps) simp
  qed
qed

lemma body_arg0_defined:
  assumes "bo + bl \<le> length buf"
  shows "body_arg0 le sg buf bo bl \<noteq> None"
proof (cases "5 \<le> bl")
  case True
  obtain v where v: "rd_u32 buf bo le = Some v" using rd_u32_defined [of bo buf le] True assms by auto
  have "wire_str buf (bo + 4) \<noteq> None" if "unat v < bl - 4" "buf ! (bo + 4 + unat v) = 0"
    using wire_str_defined [of "bo + 4" "bo + 4 + unat v" buf] that assms by auto
  moreover have "rd buf (bo + 4 + unat v) \<noteq> None" if "unat v < bl - 4" using that assms by simp
  ultimately show ?thesis using v by (auto simp: body_arg0_def rd_def split: option.splits list.splits)
next
  case False
  then show ?thesis by (auto simp: body_arg0_def split: option.splits list.splits)
qed

text \<open>The parse of a buffer that holds the fixed header, with the reads of that header done.\<close>

definition wire_start :: "bool \<Rightarrow> u8 \<Rightarrow> u8 \<Rightarrow> u32 \<Rightarrow> nat \<Rightarrow> nat \<Rightarrow> sdbus_wire_msg" where
  "wire_start le ty fl ser he bl =
     wire_msg_zero\<lparr>endian_le := le, w_type := ty, w_flags := fl, w_serial := ser,
       body_offset := align he 8, body_len := bl, total_len := align he 8 + bl\<rparr>"

definition wire_finish :: "u8 list \<Rightarrow> nat \<Rightarrow> sdbus_wire_msg \<Rightarrow> wire_result option" where
  "wire_finish buf he m0 =
     do { pf \<leftarrow> parse_fields buf he 16 m0;
          case pf of
            None \<Rightarrow> Some WBad
          | Some m \<Rightarrow> do { a \<leftarrow> wire_arg0 buf m; Some (WMsg (m\<lparr>w_arg0 := a\<rparr>)) } }"

lemma wire_parse_header:
  assumes "16 \<le> length buf" "le = (chr_of (buf ! 0) = CHR ''l'')"
    and "rd_u32 buf 4 le = Some blen" "rd_u32 buf 8 le = Some ser" "rd_u32 buf 12 le = Some farr"
  shows "sdbus_wire_parse buf =
    (if \<not> le \<and> chr_of (buf ! 0) \<noteq> CHR ''B'' then Some WBad
     else if uint farr > SDBUS_MAX_MSG \<or> uint blen > SDBUS_MAX_MSG then Some WBad
     else if int (align (16 + unat farr) 8 + unat blen) > SDBUS_MAX_MSG then Some WBad
     else if length buf < align (16 + unat farr) 8 + unat blen then Some WMore
     else wire_finish buf (16 + unat farr)
       (wire_start le (buf ! 1) (buf ! 2) ser (16 + unat farr) (unat blen)))"
proof -
  have r: "rd buf 0 = Some (buf ! 0)" "rd buf 1 = Some (buf ! 1)" "rd buf 2 = Some (buf ! 2)"
    using assms(1) by (auto simp: rd_def)
  have l: "\<not> length buf < 16" using assms(1) by simp
  show ?thesis
    unfolding sdbus_wire_parse_def if_not_P [OF l] r bind_eq_Some_conv Option.bind.simps Let_def
      assms(2) [symmetric]
    using assms(3-5) by (auto simp: wire_finish_def wire_start_def)
qed

lemma wire_finish_defined:
  assumes "body_offset m0 + body_len m0 \<le> length buf" "he \<le> length buf"
  shows "wire_finish buf he m0 \<noteq> None"
proof -
  obtain r where r: "parse_fields buf he 16 m0 = Some r" "\<forall>m. r = Some m \<longrightarrow> frame m = frame m0"
    using parse_fields_defined [OF assms(2)] by blast
  have "wire_arg0 buf m \<noteq> None" if "r = Some m" for m
    using r(2) that assms(1) unfolding wire_arg0_def by (intro body_arg0_defined) (auto simp: frame_def)
  then show ?thesis using r(1) by (auto simp: wire_finish_def split: option.splits)
qed

lemma wire_parse_defined: "sdbus_wire_parse buf \<noteq> None"
proof (cases "length buf < 16")
  case False
  define le where "le = (chr_of (buf ! 0) = CHR ''l'')"
  obtain blen where b: "rd_u32 buf 4 le = Some blen" using rd_u32_defined [of 4 buf le] False by auto
  obtain ser where s: "rd_u32 buf 8 le = Some ser" using rd_u32_defined [of 8 buf le] False by auto
  obtain farr where f: "rd_u32 buf 12 le = Some farr" using rd_u32_defined [of 12 buf le] False by auto
  let ?he = "16 + unat farr"
  have "wire_finish buf ?he (wire_start le (buf ! 1) (buf ! 2) ser ?he (unat blen)) \<noteq> None"
    if "\<not> length buf < align ?he 8 + unat blen"
    using that align_ge [of 8 ?he] by (intro wire_finish_defined) (auto simp: wire_start_def)
  then show ?thesis using wire_parse_header [OF _ le_def b s f] False
    by (cases le) (simp_all del: not_None_eq)
qed (simp add: sdbus_wire_parse_def)

section \<open>Reading back what the writer wrote\<close>

lemma cat_u32_bytes:
  assumes "u32_bytes le v = [b0, b1, b2, b3]"
  shows "cat_u32 le b0 b1 b2 b3 = v"
proof -
  have top: "n - 16 < 8" if "bit v n" "\<not> bit v (24 + (n - 24))" for n
    using that by (cases "24 \<le> n") auto
  show ?thesis using assms
    by (cases le; intro bit_word_eqI) (auto simp: u32_bytes_def Let_def cat_u32_def bit_simps intro: top)
qed

lemma length_u32_bytes [simp]: "length (u32_bytes le v) = 4"
  by (simp add: u32_bytes_def Let_def)

lemma rd_u32_at:
  assumes "buf = pre @ u32_bytes le v @ post"
  shows "rd_u32 buf (length pre) le = Some v"
proof -
  obtain b0 b1 b2 b3 where b: "u32_bytes le v = [b0, b1, b2, b3]"
    by (cases le) (simp_all add: u32_bytes_def Let_def)
  have "rd buf (length pre) = Some b0" "rd buf (length pre + 1) = Some b1"
    "rd buf (length pre + 2) = Some b2" "rd buf (length pre + 3) = Some b3"
    by (simp_all add: rd_def assms b nth_append)
  then show ?thesis using cat_u32_bytes [OF b] by (simp add: rd_u32_def)
qed

lemma wire_str_at:
  assumes "buf = pre @ map byte_of s @ 0 # post" "CHR 0x00 \<notin> set s"
  shows "wire_str buf (length pre) = Some s"
proof -
  have "chr_of 0 = CHR 0x00" by code_simp
  then have z: "byte_of c \<noteq> 0" if "c \<in> set s" for c
    using that assms(2) chr_of_byte [of c] by metis
  have "takeWhile (\<lambda>b. b \<noteq> 0) (map byte_of s @ 0 # post) = map byte_of s"
    using z by (intro takeWhile_neq_append) auto
  moreover have "map (chr_of \<circ> byte_of) s = s" by (simp add: comp_def)
  ultimately show ?thesis using assms(1) by (simp add: wire_str_def Let_def)
qed

lemma align_mult: "0 < a \<Longrightarrow> a dvd x \<Longrightarrow> align x a = x"
proof -
  assume a: "0 < a" "a dvd x"
  then obtain k where k: "x = a * k" by blast
  have "(a * k + (a - 1)) div a = k" using a(1) by (subst div_mult_self4) simp_all
  then show ?thesis using k by (simp add: align_def mult.commute)
qed

lemma align_dvd: "a dvd align x a"
  by (simp add: align_def)

lemma length_w_align: "length (w_align a w) = align (length w) a" if "0 < a"
  using align_ge [OF that, of "length w"] by (simp add: w_align_def)

lemma align_shift: "0 < a \<Longrightarrow> a dvd p \<Longrightarrow> align (p + x) a = p + align x a"
proof -
  assume a: "0 < a" "a dvd p"
  then obtain k where k: "p = a * k" by blast
  have "(a * k + (x + (a - 1))) div a = k + (x + (a - 1)) div a"
    using a(1) by (subst div_mult_self4) simp_all
  then show ?thesis using k by (simp add: align_def algebra_simps)
qed

lemma w_align_mult: "0 < a \<Longrightarrow> a dvd length w \<Longrightarrow> w_align a w = w"
  by (simp add: w_align_def align_mult)

lemma w_u32_aligned: "4 dvd length w \<Longrightarrow> w_u32 le v w = w @ u32_bytes le v"
  by (simp add: w_u32_def w_align_mult)

lemma dvd_field_head:
  assumes "4 dvd length hdr"
  shows "4 dvd length (hdr @ w_align 8 w @ [c, l, g, z])"
proof -
  have "8 dvd length (w_align 8 w)" by (simp add: length_w_align align_dvd)
  then have "length (w_align 8 w) mod 4 = 0" by presburger
  moreover have "length hdr mod 4 = 0" using assms by simp
  ultimately have "(length hdr + length (w_align 8 w)) mod 4 = 0" by presburger
  then show ?thesis by (simp add: dvd_eq_mod_eq_0)
qed

lemma w_str_field_expand:
  "w_str_field le code sg val w = w_align 8 w @ [code, 1, byte_of sg, 0] @
     (if sg = CHR ''g'' then [of_nat (length val)] else u32_bytes le (of_nat (length val))) @
     map byte_of val @ [0]"
  using w_u32_aligned [OF dvd_field_head [of "[]"], of le "of_nat (length val)" w code 1 "byte_of sg" 0]
  by (simp add: w_str_field_def Let_def)

lemma w_u32_field_expand:
  "w_u32_field le code v w = w_align 8 w @ [code, 1, byte_of (CHR ''u''), 0] @ u32_bytes le v"
  using w_u32_aligned [OF dvd_field_head [of "[]"], of le v w code 1 "byte_of (CHR ''u'')" 0]
  by (simp add: w_u32_field_def)

definition str_sig :: "char \<Rightarrow> bool" where
  "str_sig sg \<longleftrightarrow> sg = CHR ''s'' \<or> sg = CHR ''o'' \<or> sg = CHR ''g''"

definition str_fits :: "char \<Rightarrow> string \<Rightarrow> bool" where
  "str_fits sg s \<longleftrightarrow> CHR 0x00 \<notin> set s \<and> (if sg = CHR ''g'' then length s < 256 else length s < 2 ^ 32)"

lemma field_value_str:
  assumes "str_sig sg" "str_fits sg val" "4 dvd length pre"
    and "buf = pre @ (if sg = CHR ''g'' then [of_nat (length val)] else u32_bytes le (of_nat (length val))) @
      map byte_of val @ 0 # post"
    and "he = length buf - length post + k"
  shows "field_value buf le he sg (length pre) = Some (Some (length buf - length post, HStr val))"
proof (cases "sg = CHR ''g''")
  case True
  have l: "unat (of_nat (length val) :: u8) = length val"
    using True assms(2) by (simp add: str_fits_def unat_of_nat)
  have "rd buf (length pre) = Some (of_nat (length val))" using assms(4) True by (simp add: rd_def nth_append)
  moreover have "rd buf (length pre + 1 + length val) = Some 0" using assms(4) True by (simp add: rd_def nth_append)
  moreover have "wire_str buf (length pre + 1) = Some val"
    using wire_str_at [of buf "pre @ [of_nat (length val)]" val post] assms True by (simp add: str_fits_def)
  moreover have "length buf - length post = length pre + 1 + length val + 1" using assms(4) True by simp
  ultimately show ?thesis using True l assms(5) by (simp add: field_value_def)
next
  case False
  let ?n = "of_nat (length val) :: u32"
  have l: "unat ?n = length val" using False assms(2) by (simp add: str_fits_def unat_of_nat)
  have b: "buf = pre @ u32_bytes le ?n @ map byte_of val @ 0 # post" using False assms(4) by simp
  have "align (length pre) 4 = length pre" using assms(3) by (simp add: align_mult)
  moreover have "rd_u32 buf (length pre) le = Some ?n" using rd_u32_at [OF b] .
  moreover have "rd buf (length pre + 4 + length val) = Some 0" by (simp add: b rd_def nth_append)
  moreover have "wire_str buf (length pre + 4) = Some val"
    using wire_str_at [of buf "pre @ u32_bytes le ?n" val post] assms(2) b by (simp add: str_fits_def)
  moreover have "length buf - length post = length pre + 4 + length val + 1" by (simp add: b)
  moreover have "sg = CHR ''s'' \<or> sg = CHR ''o''" using assms(1) False by (auto simp: str_sig_def)
  ultimately show ?thesis using l assms(5) by (simp add: field_value_def Let_def)
qed

lemma one_field_head:
  assumes "buf = hdr @ w_align 8 w @ [code, 1, byte_of sg, 0] @ post" "length hdr = 16"
    and "he = 16 + length (w_align 8 w) + 4 + k"
    and "field_value buf (endian_le m) he sg (16 + length (w_align 8 w) + 4) = Some (Some (off', v))"
    and "field_type_ok code sg"
  shows "one_field buf he (16 + length w) m = Some (FNext off' (set_field code v m))"
proof -
  define p where "p = 16 + length (w_align 8 w)"
  have off: "align (16 + length w) 8 = p"
    by (simp add: p_def align_shift length_w_align)
  have r: "rd buf p = Some code" "rd buf (p + 1) = Some 1" "rd buf (p + 2) = Some (byte_of sg)"
    using assms(1,2) by (simp_all add: rd_def nth_append p_def)
  have he: "he = p + 4 + k" using assms(3) by (simp add: p_def)
  have u: "p + 2 + unat (1 :: u8) + 1 = p + 4" by simp
  have fv: "field_value buf (endian_le m) he sg (p + 4) = Some (Some (off', v))"
    using assms(4) by (simp add: p_def)
  show ?thesis unfolding one_field_def off Let_def r Option.bind.simps u chr_of_byte fv
    using he assms(5) by simp
qed

lemma one_field_str:
  assumes "buf = hdr @ w_str_field (endian_le m) code sg val w @ post" "length hdr = 16"
    and "he = 16 + length (w_str_field (endian_le m) code sg val w) + k"
    and "str_sig sg" "str_fits sg val" "field_type_ok code sg"
  shows "one_field buf he (16 + length w) m =
    Some (FNext (16 + length (w_str_field (endian_le m) code sg val w)) (set_field code (HStr val) m))"
proof (rule one_field_head [OF _ assms(2)])
  let ?pre = "hdr @ w_align 8 w @ [code, 1, byte_of sg, 0]"
  let ?len = "if sg = CHR ''g'' then [of_nat (length val)] else u32_bytes (endian_le m) (of_nat (length val))"
  show "buf = hdr @ w_align 8 w @ [code, 1, byte_of sg, 0] @ ?len @ map byte_of val @ 0 # post"
    using assms(1) by (simp add: w_str_field_expand)
  then have b: "buf = ?pre @ ?len @ map byte_of val @ 0 # post" by simp
  show "he = 16 + length (w_align 8 w) + 4 + (length ?len + length val + 1 + k)"
    using assms(3) by (simp add: w_str_field_expand)
  have d: "4 dvd length ?pre" using assms(2) by (intro dvd_field_head) simp
  have e: "length buf - length post = 16 + length (w_str_field (endian_le m) code sg val w)"
    using assms(1,2) by simp
  show "field_value buf (endian_le m) he sg (16 + length (w_align 8 w) + 4) =
      Some (Some (16 + length (w_str_field (endian_le m) code sg val w), HStr val))"
    using field_value_str [OF assms(4,5) d b, of he k] assms(2,3) e by simp
qed (rule assms(6))

lemma one_field_u32:
  assumes "buf = hdr @ w_u32_field (endian_le m) code v w @ post" "length hdr = 16"
    and "he = 16 + length (w_u32_field (endian_le m) code v w) + k" "field_type_ok code (CHR ''u'')"
  shows "one_field buf he (16 + length w) m =
    Some (FNext (16 + length (w_u32_field (endian_le m) code v w)) (set_field code (HU32 v) m))"
proof (rule one_field_head [OF _ assms(2)])
  let ?pre = "hdr @ w_align 8 w @ [code, 1, byte_of (CHR ''u''), 0]"
  show b: "buf = hdr @ w_align 8 w @ [code, 1, byte_of (CHR ''u''), 0] @ u32_bytes (endian_le m) v @ post"
    using assms(1) by (simp add: w_u32_field_expand)
  show "he = 16 + length (w_align 8 w) + 4 + (4 + k)" using assms(3) by (simp add: w_u32_field_expand)
  have d: "4 dvd length ?pre" using assms(2) by (intro dvd_field_head) simp
  have p: "length ?pre = 16 + length (w_align 8 w) + 4" using assms(2) by simp
  have "rd_u32 buf (length ?pre) (endian_le m) = Some v" using b by (intro rd_u32_at) simp
  then show "field_value buf (endian_le m) he (CHR ''u'') (16 + length (w_align 8 w) + 4) =
      Some (Some (16 + length (w_u32_field (endian_le m) code v w), HU32 v))"
    using d p assms(3) align_mult [of 4 "length ?pre"]
    by (simp add: field_value_def w_u32_field_expand)
qed (rule assms(4))

text \<open>A step of the writer and the update of the message that reading it back makes.\<close>

definition read_back :: "bool \<Rightarrow> (u8 list \<Rightarrow> u8 list) \<Rightarrow> (sdbus_wire_msg \<Rightarrow> sdbus_wire_msg) \<Rightarrow> bool" where
  "read_back le f g \<longleftrightarrow>
     (\<forall>w. \<exists>t. f w = w @ t) \<and> (\<forall>m. endian_le (g m) = endian_le m) \<and>
     (\<forall>hdr w post k m. length hdr = 16 \<longrightarrow> endian_le m = le \<longrightarrow>
        parse_fields (hdr @ f w @ post) (16 + length (f w) + k) (16 + length w) m =
        parse_fields (hdr @ f w @ post) (16 + length (f w) + k) (16 + length (f w)) (g m))"

lemma read_back_id: "read_back le (\<lambda>w. w) (\<lambda>m. m)"
  by (simp add: read_back_def)

lemma read_back_comp:
  assumes "read_back le f1 g1" "read_back le f2 g2"
  shows "read_back le (\<lambda>w. f2 (f1 w)) (\<lambda>m. g2 (g1 m))"
  unfolding read_back_def
proof (intro conjI allI impI)
  show "\<exists>t. f2 (f1 w) = w @ t" for w using assms unfolding read_back_def by (metis append.assoc)
  show "endian_le (g2 (g1 m)) = endian_le m" for m :: sdbus_wire_msg using assms unfolding read_back_def by simp
  fix hdr w :: "u8 list" and post k and m :: sdbus_wire_msg
  assume h: "length hdr = 16" "endian_le m = le"
  obtain t where t: "f2 (f1 w) = f1 w @ t" using assms(2) unfolding read_back_def by blast
  have "parse_fields (hdr @ f1 w @ (t @ post)) (16 + length (f1 w) + (length t + k)) (16 + length w) m =
      parse_fields (hdr @ f1 w @ (t @ post)) (16 + length (f1 w) + (length t + k)) (16 + length (f1 w)) (g1 m)"
    using assms(1) h unfolding read_back_def by blast
  moreover have "endian_le (g1 m) = le" using assms(1) h unfolding read_back_def by simp
  then have "parse_fields (hdr @ f2 (f1 w) @ post) (16 + length (f2 (f1 w)) + k) (16 + length (f1 w)) (g1 m) =
      parse_fields (hdr @ f2 (f1 w) @ post) (16 + length (f2 (f1 w)) + k) (16 + length (f2 (f1 w))) (g2 (g1 m))"
    using assms(2) h unfolding read_back_def by blast
  ultimately show "parse_fields (hdr @ f2 (f1 w) @ post) (16 + length (f2 (f1 w)) + k) (16 + length w) m =
      parse_fields (hdr @ f2 (f1 w) @ post) (16 + length (f2 (f1 w)) + k) (16 + length (f2 (f1 w))) (g2 (g1 m))"
    by (simp add: t add.assoc)
qed

lemma endian_set_field [simp]: "endian_le (set_field code v m) = endian_le m"
  using frame_set_field [of code v m] by (simp add: frame_def)

lemma parse_fields_next:
  assumes "one_field buf he off m = Some (FNext off' m')"
  shows "parse_fields buf he off m = parse_fields buf he off' m'"
proof -
  have "off < he" using one_field_progress [OF assms] by simp
  then show ?thesis using assms by (subst parse_fields.simps) simp
qed

lemma read_back_str:
  assumes "str_sig sg" "str_fits sg val" "field_type_ok code sg"
  shows "read_back le (w_str_field le code sg val) (set_field code (HStr val))"
  unfolding read_back_def
proof (intro conjI allI impI)
  show "\<exists>t. w_str_field le code sg val w = w @ t" for w by (auto simp: w_str_field_expand w_align_def)
  fix hdr w :: "u8 list" and post k and m :: sdbus_wire_msg
  assume "length hdr = 16" "endian_le m = le"
  then show "parse_fields (hdr @ w_str_field le code sg val w @ post) (16 + length (w_str_field le code sg val w) + k)
      (16 + length w) m = parse_fields (hdr @ w_str_field le code sg val w @ post)
      (16 + length (w_str_field le code sg val w) + k) (16 + length (w_str_field le code sg val w)) (set_field code (HStr val) m)"
    using one_field_str [of _ hdr m code sg val w post, OF refl _ refl assms] by (intro parse_fields_next) simp
qed simp

lemma read_back_u32:
  assumes "field_type_ok code (CHR ''u'')"
  shows "read_back le (w_u32_field le code v) (set_field code (HU32 v))"
  unfolding read_back_def
proof (intro conjI allI impI)
  show "\<exists>t. w_u32_field le code v w = w @ t" for w by (auto simp: w_u32_field_expand w_align_def)
  fix hdr w :: "u8 list" and post k and m :: sdbus_wire_msg
  assume "length hdr = 16" "endian_le m = le"
  then show "parse_fields (hdr @ w_u32_field le code v w @ post) (16 + length (w_u32_field le code v w) + k)
      (16 + length w) m = parse_fields (hdr @ w_u32_field le code v w @ post)
      (16 + length (w_u32_field le code v w) + k) (16 + length (w_u32_field le code v w)) (set_field code (HU32 v) m)"
    using one_field_u32 [of _ hdr m code v w post, OF refl _ refl assms] by (intro parse_fields_next) simp
qed simp

definition opt_set :: "u8 \<Rightarrow> string option \<Rightarrow> sdbus_wire_msg \<Rightarrow> sdbus_wire_msg" where
  "opt_set code val m = (case val of None \<Rightarrow> m | Some s \<Rightarrow> set_field code (HStr s) m)"

lemma read_back_opt:
  assumes "str_sig sg" "\<And>s. val = Some s \<Longrightarrow> str_fits sg s" "field_type_ok code sg"
  shows "read_back le (opt_str_field le code sg val) (opt_set code val)"
proof (cases val)
  case None
  then have "opt_str_field le code sg val = (\<lambda>w. w)" "opt_set code val = (\<lambda>m. m)"
    by (simp_all add: fun_eq_iff opt_str_field_def opt_set_def)
  then show ?thesis using read_back_id by simp
next
  case (Some s)
  then have "opt_str_field le code sg val = w_str_field le code sg s" "opt_set code val = set_field code (HStr s)"
    by (simp_all add: fun_eq_iff opt_str_field_def opt_set_def)
  then show ?thesis using read_back_str [of sg s code le] assms Some by simp
qed

lemma read_back_opt_u32:
  assumes "field_type_ok code (CHR ''u'')"
  shows "read_back le (\<lambda>w. if b then w_u32_field le code v w else w)
    (\<lambda>m. if b then set_field code (HU32 v) m else m)"
  using read_back_u32 [OF assms] read_back_id by (cases b) auto

text \<open>What the parser guarantees of the fields of a message it accepted.\<close>

definition fields_ok :: "sdbus_wire_msg \<Rightarrow> bool" where
  "fields_ok m \<longleftrightarrow>
     (\<forall>v\<in>{w_path m, w_interface m, w_member m, w_error_name m, w_destination m, w_sender m}.
        \<forall>s. v = Some s \<longrightarrow> str_fits (CHR ''s'') s) \<and>
     (\<forall>s. w_signature m = Some s \<longrightarrow> str_fits (CHR ''g'') s) \<and>
     (w_has_reply_serial m \<or> w_reply_serial m = 0) \<and> (w_has_unix_fds m \<or> w_unix_fds m = 0)"

lemma wire_str_fits:
  assumes "wire_str buf i = Some s" "i \<le> j" "j < length buf" "buf ! j = 0"
  shows "CHR 0x00 \<notin> set s \<and> length s \<le> j - i"
proof -
  let ?t = "takeWhile (\<lambda>b. b \<noteq> 0) (drop i buf)"
  have s: "s = map chr_of ?t" using assms(1) by (auto simp: wire_str_def Let_def split: if_splits)
  have "(drop i buf) ! (j - i) = 0" "j - i < length (drop i buf)" using assms by auto
  then have "length ?t \<le> j - i"
    by (metis (mono_tags, lifting) linorder_not_le nth_mem set_takeWhileD takeWhile_nth)
  moreover have "CHR 0x00 \<notin> set s"
  proof
    assume "CHR 0x00 \<in> set s"
    then obtain b where b: "b \<in> set ?t" "chr_of b = CHR 0x00" using s by auto
    have "byte_of (CHR 0x00) = 0" by code_simp
    then have "b = 0" using b(2) byte_of_chr [of b] by simp
    then show False using b(1) set_takeWhileD by fast
  qed
  ultimately show ?thesis using s by simp
qed

lemma str_value_fits:
  assumes "do { z \<leftarrow> rd buf j; if z \<noteq> 0 then Some None
      else do { s \<leftarrow> wire_str buf i; Some (Some (e, HStr s)) } } = Some (Some (off', HStr s))" "i \<le> j"
  shows "CHR 0x00 \<notin> set s \<and> length s \<le> j - i"
  using assms wire_str_fits [of buf i s j] by (auto simp: rd_def split: if_splits bind_splits)

lemma field_value_fits:
  assumes "field_value buf le he sg off = Some (Some (off', HStr s))"
  shows "str_sig sg \<and> str_fits sg s"
proof -
  have l: "unat (x :: u32) < 2 ^ 32" for x using unsigned_less [of x] by simp
  have g: "unat (x :: u8) < 256" for x using unsigned_less [of x] by simp
  consider "sg = CHR ''s'' \<or> sg = CHR ''o''" | "sg = CHR ''g''" | "sg = CHR ''u''"
    | "sg \<notin> {CHR ''s'', CHR ''o'', CHR ''g'', CHR ''u''}" by auto
  then show ?thesis
  proof cases
    case 1
    then obtain sl where "do { z \<leftarrow> rd buf (align off 4 + 4 + unat sl); if z \<noteq> 0 then Some None
        else do { s \<leftarrow> wire_str buf (align off 4 + 4); Some (Some (align off 4 + 4 + unat (sl :: u32) + 1, HStr s)) } }
        = Some (Some (off', HStr s))"
      using assms by (auto simp: field_value_def Let_def split: if_splits bind_splits)
    from str_value_fits [OF this] have "CHR 0x00 \<notin> set s \<and> length s \<le> unat sl" by simp
    then show ?thesis using 1 l [of sl] by (auto simp: str_sig_def str_fits_def)
  next
    case 2
    then obtain gl where "do { z \<leftarrow> rd buf (off + 1 + unat gl); if z \<noteq> 0 then Some None
        else do { s \<leftarrow> wire_str buf (off + 1); Some (Some (off + 1 + unat (gl :: u8) + 1, HStr s)) } }
        = Some (Some (off', HStr s))"
      using assms by (auto simp: field_value_def Let_def split: if_splits bind_splits)
    from str_value_fits [OF this] have "CHR 0x00 \<notin> set s \<and> length s \<le> unat gl" by simp
    then show ?thesis using 2 g [of gl] by (auto simp: str_sig_def str_fits_def)
  next
    case 3
    then show ?thesis using assms by (auto simp: field_value_def Let_def split: if_splits bind_splits)
  next
    case 4
    then show ?thesis using assms by (auto simp: field_value_def Let_def split: if_splits bind_splits)
  qed
qed

lemma field_types:
  "field_type_ok 1 sg \<longleftrightarrow> sg = CHR ''o''" "field_type_ok 2 sg \<longleftrightarrow> sg = CHR ''s''"
  "field_type_ok 3 sg \<longleftrightarrow> sg = CHR ''s''" "field_type_ok 4 sg \<longleftrightarrow> sg = CHR ''s''"
  "field_type_ok 5 sg \<longleftrightarrow> sg = CHR ''u''" "field_type_ok 6 sg \<longleftrightarrow> sg = CHR ''s''"
  "field_type_ok 7 sg \<longleftrightarrow> sg = CHR ''s''" "field_type_ok 8 sg \<longleftrightarrow> sg = CHR ''g''"
  "field_type_ok 9 sg \<longleftrightarrow> sg = CHR ''u''"
  by (simp_all add: field_type_ok_def kfieldtype_def)

lemma set_field_ok:
  assumes "fields_ok m" "field_type_ok code sg" "\<And>s. v = HStr s \<Longrightarrow> str_fits sg s"
  shows "fields_ok (set_field code v m)"
proof (cases v)
  case (HStr s)
  then have f: "str_fits sg s" using assms(3) by simp
  then have fs: "str_fits (CHR ''s'') s" if "sg \<noteq> CHR ''g''" using that by (simp add: str_fits_def)
  show ?thesis using assms(1,2) HStr f fs by (auto simp: set_field_def field_types fields_ok_def)
next
  case (HU32 u)
  then show ?thesis using assms(1) by (auto simp: set_field_def fields_ok_def)
qed

lemma one_field_ok:
  assumes "one_field buf he off m = Some (FNext off' m')" "fields_ok m"
  shows "fields_ok m'"
proof -
  obtain code sg o2 v where v: "field_value buf (endian_le m) he sg o2 = Some (Some (off', v))"
    "field_type_ok code sg" "m' = set_field code v m"
    using assms(1) by (auto simp: one_field_def Let_def split: if_splits bind_splits option.splits)
  show ?thesis unfolding v(3) using field_value_fits v(1)
    by (intro set_field_ok [OF assms(2) v(2)]) blast
qed

lemma parse_fields_ok:
  "parse_fields buf he off m = Some (Some m') \<Longrightarrow> fields_ok m \<Longrightarrow> fields_ok m' \<and> frame m' = frame m"
proof (induction buf he off m rule: parse_fields.induct)
  case (1 buf he off m)
  show ?case
  proof (cases "off < he")
    case True
    have eq: "(case one_field buf he off m of None \<Rightarrow> None | Some FDone \<Rightarrow> Some (Some m)
        | Some FBad \<Rightarrow> Some None | Some (FNext o1 m1) \<Rightarrow> parse_fields buf he o1 m1) = Some (Some m')"
      using 1(2) True parse_fields.simps [of buf he off m] by simp
    then obtain st where st: "one_field buf he off m = Some st" by (auto split: option.splits)
    show ?thesis
    proof (cases st)
      case FDone
      then show ?thesis using eq st 1(3) by simp
    next
      case FBad
      then show ?thesis using eq st by simp
    next
      case (FNext off1 m1)
      have "parse_fields buf he off1 m1 = Some (Some m')"
        using 1(2) parse_fields_next [of buf he off m off1 m1] st FNext by simp
      then show ?thesis
        using 1(1) [OF True st FNext] one_field_ok one_field_frame st FNext 1(3) by auto
    qed
  next
    case False
    then show ?thesis using 1(2,3) parse_fields.simps [of buf he off m] by simp
  qed
qed

lemma wire_arg0_frame: "wire_arg0 buf (m\<lparr>w_arg0 := a\<rparr>) = wire_arg0 buf m"
  by (simp add: wire_arg0_def)

text \<open>What an accepted message tells of its buffer.\<close>

lemma wire_parse_msg:
  assumes "sdbus_wire_parse buf = Some (WMsg m)"
  shows "fields_ok m" "16 \<le> length buf" "endian_le m = (chr_of (buf ! 0) = CHR ''l'')"
    "endian_le m \<or> chr_of (buf ! 0) = CHR ''B''" "w_type m = buf ! 1" "w_flags m = buf ! 2"
    "rd_u32 buf 8 (endian_le m) = Some (w_serial m)"
    "rd_u32 buf 4 (endian_le m) = Some (of_nat (body_len m))" "body_len m < 2 ^ 32"
    "body_offset m + body_len m \<le> length buf" "wire_arg0 buf m = Some (w_arg0 m)"
    "total_len m = body_offset m + body_len m"
proof -
  show l: "16 \<le> length buf" using assms by (auto simp: sdbus_wire_parse_def split: if_splits)
  define le where "le = (chr_of (buf ! 0) = CHR ''l'')"
  obtain blen where b: "rd_u32 buf 4 le = Some blen" using rd_u32_defined [of 4 buf le] l by auto
  obtain ser where s: "rd_u32 buf 8 le = Some ser" using rd_u32_defined [of 8 buf le] l by auto
  obtain farr where f: "rd_u32 buf 12 le = Some farr" using rd_u32_defined [of 12 buf le] l by auto
  let ?he = "16 + unat farr"
  let ?m0 = "wire_start le (buf ! 1) (buf ! 2) ser ?he (unat blen)"
  note h = wire_parse_header [OF l le_def b s f]
  have fin: "wire_finish buf ?he ?m0 = Some (WMsg m)" and ch: "le \<or> chr_of (buf ! 0) = CHR ''B''"
    and tot: "\<not> length buf < align ?he 8 + unat blen"
    using assms h by (auto split: if_splits)
  obtain m1 a where m1: "parse_fields buf ?he 16 ?m0 = Some (Some m1)" "wire_arg0 buf m1 = Some a" "m = m1\<lparr>w_arg0 := a\<rparr>"
    using fin by (auto simp: wire_finish_def split: option.splits bind_splits)
  have "fields_ok ?m0" by (simp add: wire_start_def wire_msg_zero_def fields_ok_def)
  then have ok: "fields_ok m1" "frame m1 = frame ?m0" using parse_fields_ok [OF m1(1)] by auto
  show "fields_ok m" using ok(1) m1(3) by (simp add: fields_ok_def)
  have fr: "endian_le m = le" "w_type m = buf ! 1" "w_flags m = buf ! 2" "w_serial m = ser"
    "body_offset m = align ?he 8" "body_len m = unat blen" "total_len m = align ?he 8 + unat blen"
    using ok(2) m1(3) by (simp_all add: frame_def wire_start_def)
  show "wire_arg0 buf m = Some (w_arg0 m)" using m1(2,3) by (simp add: wire_arg0_frame)
  show "endian_le m = (chr_of (buf ! 0) = CHR ''l'')" "endian_le m \<or> chr_of (buf ! 0) = CHR ''B''"
    "w_type m = buf ! 1" "w_flags m = buf ! 2"
    "rd_u32 buf 8 (endian_le m) = Some (w_serial m)"
    "rd_u32 buf 4 (endian_le m) = Some (of_nat (body_len m))"
    "body_offset m + body_len m \<le> length buf" "total_len m = body_offset m + body_len m"
    using fr ch b s tot by (simp_all add: le_def)
  show "body_len m < 2 ^ 32" using fr(6) unsigned_less [of blen] by simp
qed

text \<open>The first argument is read from the body alone.\<close>

lemma rd_u32_shift: "i + 4 \<le> length body \<Longrightarrow> rd_u32 (pre @ body @ post) (length pre + i) le = rd_u32 body i le"
  by (simp add: rd_u32_def rd_def nth_append add.assoc)

lemma wire_str_shift:
  assumes "i \<le> j" "j < length body" "body ! j = 0"
  shows "wire_str (pre @ body @ post) (length pre + i) = wire_str body i"
proof -
  have "drop i body ! (j - i) = 0" "j - i < length (drop i body)" using assms by auto
  then have "\<exists>b\<in>set (drop i body). b = 0" by (metis nth_mem)
  then have "takeWhile (\<lambda>b. b \<noteq> 0) (drop i body @ post) = takeWhile (\<lambda>b. b \<noteq> 0) (drop i body)"
    by (metis (mono_tags, lifting) takeWhile_append1)
  moreover obtain s where "wire_str body i = Some s" using wire_str_defined [OF assms] by blast
  ultimately show ?thesis using assms by (auto simp: wire_str_def Let_def split: if_splits)
qed

lemma body_arg0_shift:
  "body_arg0 le sg (pre @ body @ post) (length pre) (length body) = body_arg0 le sg body 0 (length body)"
proof (cases "5 \<le> length body")
  case True
  have r: "rd_u32 (pre @ body @ post) (length pre) le = rd_u32 body 0 le"
    using rd_u32_shift [of 0 body pre post le] True by simp
  have n: "(pre @ body @ post) ! (length pre + 4 + k) = body ! (4 + k)" if "k < length body - 4" for k
  proof -
    have "4 + k < length body" using that by linarith
    then show ?thesis by (simp add: nth_append add.assoc)
  qed
  have c: "wire_str (pre @ body @ post) (length pre + 4) = wire_str body 4"
    if "k < length body - 4" "body ! (4 + k) = 0" for k
    using that wire_str_shift [of 4 "4 + k" body pre post] by simp
  show ?thesis unfolding body_arg0_def r
    by (auto simp: n c simp del: append_assoc split: option.splits list.splits intro!: bind_option_cong)
next
  case False
  then show ?thesis by (auto simp: body_arg0_def split: option.splits list.splits)
qed

text \<open>The header fields the forwarded message is rebuilt from, read back.\<close>

definition refields :: "sdbus_wire_msg \<Rightarrow> string \<Rightarrow> sdbus_wire_msg \<Rightarrow> sdbus_wire_msg" where
  "refields m snd0 m0 =
     m0\<lparr>w_path := w_path m, w_interface := w_interface m, w_member := w_member m,
        w_error_name := w_error_name m, w_reply_serial := w_reply_serial m,
        w_has_reply_serial := w_has_reply_serial m, w_destination := w_destination m,
        w_sender := Some snd0, w_signature := w_signature m, w_unix_fds := w_unix_fds m,
        w_has_unix_fds := w_has_unix_fds m\<rparr>"

lemma opt_set_fields:
  "w_path m0 = None \<Longrightarrow> opt_set 1 v m0 = m0\<lparr>w_path := v\<rparr>"
  "w_interface m0 = None \<Longrightarrow> opt_set 2 v m0 = m0\<lparr>w_interface := v\<rparr>"
  "w_member m0 = None \<Longrightarrow> opt_set 3 v m0 = m0\<lparr>w_member := v\<rparr>"
  "w_error_name m0 = None \<Longrightarrow> opt_set 4 v m0 = m0\<lparr>w_error_name := v\<rparr>"
  "w_destination m0 = None \<Longrightarrow> opt_set 6 v m0 = m0\<lparr>w_destination := v\<rparr>"
  "w_signature m0 = None \<Longrightarrow> opt_set 8 v m0 = m0\<lparr>w_signature := v\<rparr>"
  by (cases m0; cases v; simp add: opt_set_def set_field_def)+

lemma u32_set_fields:
  "\<not> w_has_reply_serial m0 \<Longrightarrow> w_reply_serial m0 = 0 \<Longrightarrow> b \<or> v = 0 \<Longrightarrow>
     (if b then set_field 5 (HU32 v) m0 else m0) = m0\<lparr>w_has_reply_serial := b, w_reply_serial := v\<rparr>"
  "\<not> w_has_unix_fds m0 \<Longrightarrow> w_unix_fds m0 = 0 \<Longrightarrow> b \<or> v = 0 \<Longrightarrow>
     (if b then set_field 9 (HU32 v) m0 else m0) = m0\<lparr>w_has_unix_fds := b, w_unix_fds := v\<rparr>"
  by (cases m0; cases b; simp add: set_field_def)+

definition no_fields :: "sdbus_wire_msg \<Rightarrow> bool" where
  "no_fields m \<longleftrightarrow> w_path m = None \<and> w_interface m = None \<and> w_member m = None \<and> w_error_name m = None \<and>
     w_destination m = None \<and> w_signature m = None \<and> \<not> w_has_reply_serial m \<and> w_reply_serial m = 0 \<and>
     \<not> w_has_unix_fds m \<and> w_unix_fds m = 0"

lemma read_back_fields:
  assumes "fields_ok m" "str_fits (CHR ''s'') s"
  shows "\<exists>f g. read_back (endian_le m) f g \<and> reforward_fields m s = f [] \<and>
    (\<forall>m0. no_fields m0 \<longrightarrow> g m0 = refields m s m0)"
proof -
  let ?le = "endian_le m"
  have o: "str_fits (CHR ''o'') v" if "str_fits (CHR ''s'') v" for v using that by (simp add: str_fits_def)
  have fs: "\<And>v. w_path m = Some v \<Longrightarrow> str_fits (CHR ''o'') v" "\<And>v. w_interface m = Some v \<Longrightarrow> str_fits (CHR ''s'') v"
    "\<And>v. w_member m = Some v \<Longrightarrow> str_fits (CHR ''s'') v" "\<And>v. w_error_name m = Some v \<Longrightarrow> str_fits (CHR ''s'') v"
    "\<And>v. w_destination m = Some v \<Longrightarrow> str_fits (CHR ''s'') v" "\<And>v. w_signature m = Some v \<Longrightarrow> str_fits (CHR ''g'') v"
    using assms(1) o by (auto simp: fields_ok_def)
  have sg: "str_sig (CHR ''s'')" "str_sig (CHR ''o'')" "str_sig (CHR ''g'')" by (simp_all add: str_sig_def)
  have t: "field_type_ok 1 (CHR ''o'')" "field_type_ok 2 (CHR ''s'')" "field_type_ok 3 (CHR ''s'')"
    "field_type_ok 4 (CHR ''s'')" "field_type_ok 5 (CHR ''u'')" "field_type_ok 6 (CHR ''s'')"
    "field_type_ok 7 (CHR ''s'')" "field_type_ok 8 (CHR ''g'')" "field_type_ok 9 (CHR ''u'')"
    by (simp_all add: field_types)
  have r1: "read_back ?le (opt_str_field ?le 1 (CHR ''o'') (w_path m)) (opt_set 1 (w_path m))"
    using read_back_opt [OF sg(2) _ t(1)] fs(1) by blast
  have r2: "read_back ?le (opt_str_field ?le 2 (CHR ''s'') (w_interface m)) (opt_set 2 (w_interface m))"
    using read_back_opt [OF sg(1) _ t(2)] fs(2) by blast
  have r3: "read_back ?le (opt_str_field ?le 3 (CHR ''s'') (w_member m)) (opt_set 3 (w_member m))"
    using read_back_opt [OF sg(1) _ t(3)] fs(3) by blast
  have r4: "read_back ?le (opt_str_field ?le 4 (CHR ''s'') (w_error_name m)) (opt_set 4 (w_error_name m))"
    using read_back_opt [OF sg(1) _ t(4)] fs(4) by blast
  have r6: "read_back ?le (opt_str_field ?le 6 (CHR ''s'') (w_destination m)) (opt_set 6 (w_destination m))"
    using read_back_opt [OF sg(1) _ t(6)] fs(5) by blast
  have r8: "read_back ?le (opt_str_field ?le 8 (CHR ''g'') (w_signature m)) (opt_set 8 (w_signature m))"
    using read_back_opt [OF sg(3) _ t(8)] fs(6) by blast
  note r7 = read_back_str [OF sg(1) assms(2) t(7), of ?le]
  note r5 = read_back_opt_u32 [OF t(5), of ?le "w_has_reply_serial m" "w_reply_serial m"]
  note r9 = read_back_opt_u32 [OF t(9), of ?le "w_has_unix_fds m" "w_unix_fds m"]
  note c4 = read_back_comp [OF read_back_comp [OF read_back_comp [OF r1 r2] r3] r4]
  note c9 = read_back_comp [OF read_back_comp [OF read_back_comp [OF read_back_comp
      [OF read_back_comp [OF c4 r5] r6] r7] r8] r9]
  have u: "w_has_reply_serial m \<or> w_reply_serial m = 0" "w_has_unix_fds m \<or> w_unix_fds m = 0"
    using assms(1) by (auto simp: fields_ok_def)
  show ?thesis
  proof (rule exI, rule exI, rule conjI, rule c9, intro conjI allI impI)
    fix m0 :: sdbus_wire_msg
    assume "no_fields m0"
    then have n: "w_path m0 = None" "w_interface m0 = None" "w_member m0 = None" "w_error_name m0 = None"
      "w_destination m0 = None" "w_signature m0 = None" "\<not> w_has_reply_serial m0" "w_reply_serial m0 = 0"
      "\<not> w_has_unix_fds m0" "w_unix_fds m0 = 0" by (auto simp: no_fields_def)
    let ?m4 = "opt_set 4 (w_error_name m) (opt_set 3 (w_member m) (opt_set 2 (w_interface m) (opt_set 1 (w_path m) m0)))"
    let ?m5 = "if w_has_reply_serial m then set_field 5 (HU32 (w_reply_serial m)) ?m4 else ?m4"
    let ?m8 = "opt_set 8 (w_signature m) (set_field 7 (HStr s) (opt_set 6 (w_destination m) ?m5))"
    have m4: "?m4 = m0\<lparr>w_path := w_path m, w_interface := w_interface m, w_member := w_member m,
        w_error_name := w_error_name m\<rparr>" using n by (simp add: opt_set_fields)
    have m5: "?m5 = m0\<lparr>w_path := w_path m, w_interface := w_interface m, w_member := w_member m,
        w_error_name := w_error_name m, w_has_reply_serial := w_has_reply_serial m,
        w_reply_serial := w_reply_serial m\<rparr>" using n unfolding m4 by (subst u32_set_fields(1)) (simp_all add: u)
    have "w_has_unix_fds ?m8 = False" "w_unix_fds ?m8 = 0"
      using n unfolding m5 by (simp_all add: opt_set_fields set_field_def)
    then show "(if w_has_unix_fds m then set_field 9 (HU32 (w_unix_fds m)) ?m8 else ?m8) = refields m s m0"
      using n unfolding m5 refields_def
      by (subst u32_set_fields(2)) (simp_all add: u opt_set_fields set_field_def)
  qed (simp add: reforward_fields_def Let_def)
qed

lemma parse_fields_end: "parse_fields buf he he m = Some (Some m)"
  by (subst parse_fields.simps) simp

lemma reforward_layout:
  assumes "12 \<le> length orig"
  shows "sdbus_wire_reforward orig m s =
    (let fw = reforward_fields m s;
         hdr = take 12 orig @ u32_bytes (endian_le m) (of_nat (length fw))
     in hdr @ fw @ replicate (align (16 + length fw) 8 - (16 + length fw)) 0 @
        take (body_len m) (drop (body_offset m) orig))"
proof -
  have "4 dvd length (take 12 orig)" using assms by simp
  then show ?thesis using assms
    by (simp add: sdbus_wire_reforward_def Let_def w_u32_aligned w_align_def)
qed

lemma rd_u32_prefix:
  assumes "i + 4 \<le> 12" "12 \<le> length orig"
  shows "rd_u32 (take 12 orig @ x) i le = rd_u32 orig i le"
proof -
  have "rd (take 12 orig @ x) (i + k) = rd orig (i + k)" if "k < 4" for k
    using that assms by (simp add: rd_def nth_append)
  from this [of 0] this [of 1] this [of 2] this [of 3] show ?thesis by (simp add: rd_u32_def)
qed

lemma reforward_parses:
  assumes p: "sdbus_wire_parse orig = Some (WMsg m)" and s: "CHR 0x00 \<notin> set s" "length s < 2 ^ 32"
    and size: "int (length (sdbus_wire_reforward orig m s)) \<le> SDBUS_MAX_MSG"
  shows "sdbus_wire_parse (sdbus_wire_reforward orig m s @ rest) =
    Some (WMsg (m\<lparr>w_sender := Some s, body_offset := align (16 + length (reforward_fields m s)) 8,
      total_len := length (sdbus_wire_reforward orig m s)\<rparr>))"
proof -
  note h = wire_parse_msg [OF p]
  define fw where "fw = reforward_fields m s"
  define n where "n = align (16 + length fw) 8"
  define hdr where "hdr = take 12 orig @ u32_bytes (endian_le m) (of_nat (length fw))"
  define pad :: "u8 list" where "pad = replicate (n - (16 + length fw)) 0"
  define body where "body = take (body_len m) (drop (body_offset m) orig)"
  define buf where "buf = sdbus_wire_reforward orig m s @ rest"
  have lay: "sdbus_wire_reforward orig m s = hdr @ fw @ pad @ body"
    using reforward_layout [of orig m s] h(2) by (simp add: Let_def hdr_def fw_def pad_def n_def body_def)
  have lb: "length body = body_len m" using h(10) by (simp add: body_def)
  have lh: "length hdr = 16" using h(2) by (simp add: hdr_def)
  have lp: "length (hdr @ fw @ pad) = n" using lh align_ge [of 8 "16 + length fw"] by (simp add: pad_def n_def)
  have lo: "length (sdbus_wire_reforward orig m s) = n + body_len m" using lay lp lb by simp
  have nfw: "16 + length fw \<le> n" using align_ge [of 8 "16 + length fw"] by (simp add: n_def)
  have ufw: "unat (of_nat (length fw) :: u32) = length fw"
    using size lo nfw by (simp add: SDBUS_MAX_MSG_def unat_of_nat)
  have ubl: "unat (of_nat (body_len m) :: u32) = body_len m" using h(9) by (simp add: unat_of_nat)
  have ui: "uint (of_nat (length fw) :: u32) = int (length fw)" "uint (of_nat (body_len m) :: u32) = int (body_len m)"
    using ufw ubl by (simp_all add: uint_nat)
  have buf: "buf = take 12 orig @ u32_bytes (endian_le m) (of_nat (length fw)) @ fw @ pad @ body @ rest"
    by (simp add: buf_def lay hdr_def)
  have b012: "buf ! 0 = orig ! 0" "buf ! 1 = orig ! 1" "buf ! 2 = orig ! 2" using h(2) by (simp_all add: buf nth_append)
  have r: "rd_u32 buf 4 (endian_le m) = Some (of_nat (body_len m))" "rd_u32 buf 8 (endian_le m) = Some (w_serial m)"
    unfolding buf using h(2,7,8) by (simp_all add: rd_u32_prefix)
  have rf: "rd_u32 buf 12 (endian_le m) = Some (of_nat (length fw))"
    using rd_u32_at [OF buf] h(2) by simp
  let ?m0 = "wire_start (endian_le m) (w_type m) (w_flags m) (w_serial m) (16 + length fw) (body_len m)"
  have "16 \<le> length buf" using lh by (simp add: buf_def lay)
  then have "sdbus_wire_parse buf = wire_finish buf (16 + length fw) ?m0"
    using wire_parse_header [OF _ _ r rf] h(3,4,5,6) b012 ufw ubl ui size lo nfw
    by (auto simp: n_def [symmetric] buf_def)
  moreover have "str_fits (CHR ''s'') s" using s by (simp add: str_fits_def)
  then obtain f g where fg: "read_back (endian_le m) f g" "fw = f []" "\<forall>m0. no_fields m0 \<longrightarrow> g m0 = refields m s m0"
    using read_back_fields [OF h(1)] unfolding fw_def by blast
  have "parse_fields buf (16 + length fw) 16 ?m0 = Some (Some (refields m s ?m0))"
  proof -
    have "endian_le ?m0 = endian_le m" by (simp add: wire_start_def)
    then have "parse_fields (hdr @ f [] @ (pad @ body @ rest)) (16 + length (f []) + 0) (16 + length ([] :: u8 list)) ?m0 =
        parse_fields (hdr @ f [] @ (pad @ body @ rest)) (16 + length (f []) + 0) (16 + length (f [])) (g ?m0)"
      using fg(1) lh unfolding read_back_def by blast
    moreover have "no_fields ?m0" by (simp add: no_fields_def wire_start_def wire_msg_zero_def)
    ultimately show ?thesis using fg(2,3) by (simp add: buf_def lay parse_fields_end)
  qed
  moreover have "wire_arg0 buf (refields m s ?m0) = Some (w_arg0 m)"
  proof -
    have "wire_arg0 buf (refields m s ?m0) =
        body_arg0 (endian_le m) (w_signature m) ((hdr @ fw @ pad) @ body @ rest) (length (hdr @ fw @ pad)) (length body)"
      using lp lb by (simp add: wire_arg0_def refields_def wire_start_def n_def buf_def lay)
    also have "\<dots> = body_arg0 (endian_le m) (w_signature m) body 0 (length body)" by (rule body_arg0_shift)
    also have "\<dots> = body_arg0 (endian_le m) (w_signature m) (take (body_offset m) orig @ body @
        drop (body_offset m + body_len m) orig) (length (take (body_offset m) orig)) (length body)"
      by (rule body_arg0_shift [symmetric])
    also have "take (body_offset m) orig @ body @ drop (body_offset m + body_len m) orig = orig"
      unfolding body_def by (metis append_take_drop_id drop_drop add.commute)
    also have "length (take (body_offset m) orig) = body_offset m" using h(10) by simp
    finally show ?thesis using h(11) lb by (simp add: wire_arg0_def)
  qed
  moreover have "(refields m s ?m0)\<lparr>w_arg0 := w_arg0 m\<rparr> =
      m\<lparr>w_sender := Some s, body_offset := n, total_len := n + body_len m\<rparr>"
    by (cases m) (simp add: refields_def wire_start_def wire_msg_zero_def n_def)
  ultimately show ?thesis by (simp add: wire_finish_def buf_def lo fw_def n_def)
qed

section \<open>Properties\<close>

text \<open>A method call on the root object, little endian, without a body.\<close>

definition example_call :: "u8 list" where
  "example_call = [108, 1, 0, 1, 0, 0, 0, 0, 1, 0, 0, 0, 10, 0, 0, 0,
     1, 1, 111, 0, 1, 0, 0, 0, 47, 0, 0, 0, 0, 0, 0, 0]"

text \<open>C35. The header parser never reads outside the buffer, whatever bytes a peer sends: the parse of
  every buffer is one of the three answers, never an out-of-bounds read. An accepted message lies
  within the buffer, body included, and its string fields contain no NUL and its signature less than
  256 characters.\<close>

theorem wire_parse_in_bounds:
  "\<exists>r. sdbus_wire_parse buf = Some r \<and>
     (\<forall>m. r = WMsg m \<longrightarrow> total_len m = body_offset m + body_len m \<and> total_len m \<le> length buf \<and> fields_ok m)"
proof -
  obtain r where r: "sdbus_wire_parse buf = Some r" using wire_parse_defined [of buf] by auto
  then show ?thesis using wire_parse_msg [of buf] by auto
qed

theorem wire_parse_in_bounds_witness:
  "\<exists>m. sdbus_wire_parse example_call = Some (WMsg m) \<and> total_len m = 32 \<and> w_path m = Some ''/'' \<and> fields_ok m"
proof -
  have "case sdbus_wire_parse example_call of
      Some (WMsg m) \<Rightarrow> total_len m = 32 \<and> w_path m = Some ''/'' | _ \<Rightarrow> False" by code_simp
  then show ?thesis using wire_parse_in_bounds [of example_call] by (auto split: option.splits wire_result.splits)
qed

text \<open>C31. Forwarding rewrites the sender and nothing else: parsing the rebuilt message, whatever bytes
  follow it in the stream, consumes exactly its bytes and gives the original header with the SENDER
  field set to the broker's name for the connection, whatever sender the original claimed; type,
  flags, serial, all other fields and the first body argument are unchanged, and the body bytes are
  the original ones.\<close>

theorem reforward_only_sets_sender:
  assumes "sdbus_wire_parse orig = Some (WMsg m)" "CHR 0x00 \<notin> set s" "length s < 2 ^ 32"
    and "int (length (sdbus_wire_reforward orig m s)) \<le> SDBUS_MAX_MSG"
  shows "\<exists>bo. sdbus_wire_parse (sdbus_wire_reforward orig m s @ rest) =
      Some (WMsg (m\<lparr>w_sender := Some s, body_offset := bo,
        total_len := length (sdbus_wire_reforward orig m s)\<rparr>)) \<and>
    drop bo (sdbus_wire_reforward orig m s) = take (body_len m) (drop (body_offset m) orig)"
proof -
  let ?n = "align (16 + length (reforward_fields m s)) 8"
  have l: "12 \<le> length orig" using wire_parse_msg(2) [OF assms(1)] by simp
  have "drop ?n (sdbus_wire_reforward orig m s) = take (body_len m) (drop (body_offset m) orig)"
    using reforward_layout [OF l, of m s] l align_ge [of 8 "16 + length (reforward_fields m s)"]
    by (simp add: Let_def)
  then show ?thesis using reforward_parses [OF assms] by blast
qed

theorem reforward_only_sets_sender_witness:
  "\<exists>m m'. sdbus_wire_parse example_call = Some (WMsg m) \<and> w_sender m = None \<and>
     sdbus_wire_parse (sdbus_wire_reforward example_call m '':1.7'' @ [108]) = Some (WMsg m') \<and>
     w_sender m' = Some '':1.7'' \<and> w_path m' = Some ''/''"
proof -
  have "case sdbus_wire_parse example_call of
      Some (WMsg m) \<Rightarrow> w_sender m = None \<and> w_path m = Some ''/'' \<and>
        int (length (sdbus_wire_reforward example_call m '':1.7'')) \<le> SDBUS_MAX_MSG | _ \<Rightarrow> False" by code_simp
  then obtain m where m: "sdbus_wire_parse example_call = Some (WMsg m)" "w_sender m = None" "w_path m = Some ''/''"
    "int (length (sdbus_wire_reforward example_call m '':1.7'')) \<le> SDBUS_MAX_MSG"
    by (auto split: option.splits wire_result.splits)
  show ?thesis using reforward_only_sets_sender [OF m(1) _ _ m(4), of "[108]"] m by auto
qed

end
