(* ===== verification/SD_Conn.thy ===== *)
theory SD_Conn
  imports SD_Match SD_Wire
begin

text \<open>
  One connection of the message bus, \<^verbatim>\<open>src/sdbus_conn.h\<close>, and the flush of its outbound queue from
  \<^verbatim>\<open>src/schema-dbus.c\<close>. The byte buffers are lists; the queue is the list of the chunks not sent yet,
  \<^verbatim>\<open>oq[oq_head..n_oq)\<close> (growing and compacting the array is memory management). The answers of
  \<^verbatim>\<open>sendmsg\<close> are an argument. \<^verbatim>\<open>sizeof(sdbus_outchunk)\<close> is 88 on the LP64 targets.
\<close>

section \<open>Data\<close>

definition SDBUS_MAX_GIDS :: nat where "SDBUS_MAX_GIDS = 64"
definition SDBUS_MAX_PENDING_FDS :: nat where "SDBUS_MAX_PENDING_FDS = 16"
definition SDBUS_MAX_AUTH_BYTES :: int where "SDBUS_MAX_AUTH_BYTES = 16384"
definition SDBUS_MAX_MATCH_RULES :: nat where "SDBUS_MAX_MATCH_RULES = 512"
definition SDBUS_MAX_CONN_PER_UID :: nat where "SDBUS_MAX_CONN_PER_UID = 256"
definition SDBUS_MAX_OUTGOING_BYTES :: int where "SDBUS_MAX_OUTGOING_BYTES = 16777216"
definition sizeof_outchunk :: int where "sizeof_outchunk = 88"
definition SDBUS_MAX_CONN_PENDING :: int where
  "SDBUS_MAX_CONN_PENDING = SDBUS_MAX_OUTGOING_BYTES - sizeof_outchunk"

record sdbus_outchunk =
  oc_bytes :: "u8 list"
  oc_off :: nat
  oc_fds :: "int list"

record sdbus_conn =
  cn_fd :: int
  cn_id :: int
  authed :: bool
  auth_ok :: bool
  said_hello :: bool
  negotiated_fd :: bool
  saw_nul :: bool
  cn_uid :: u32
  cn_gid :: u32
  cn_pid :: int
  cn_gids :: "int list"
  cn_unique :: "string option"
  cn_in :: "u8 list"
  in_over :: bool
  cn_out :: "u8 list"
  pending_fds :: "int list"
  oq :: "sdbus_outchunk list"
  oq_bytes :: int
  oq_over :: bool
  cn_matches :: "sdbus_matchset option"
  is_monitor :: bool
  mon_matches :: "sdbus_matchset option"

definition conn_zero :: sdbus_conn where
  "conn_zero = \<lparr>cn_fd = 0, cn_id = 0, authed = False, auth_ok = False, said_hello = False,
     negotiated_fd = False, saw_nul = False, cn_uid = 0, cn_gid = 0, cn_pid = 0, cn_gids = [],
     cn_unique = None, cn_in = [], in_over = False, cn_out = [], pending_fds = [], oq = [],
     oq_bytes = 0, oq_over = False, cn_matches = None, is_monitor = False, mon_matches = None\<rparr>"

section \<open>Operations\<close>

text \<open>Enqueue a message; the second component lists the descriptors that were closed.\<close>

definition sdbus_conn_enqueue :: "sdbus_conn \<Rightarrow> u8 list \<Rightarrow> int list \<Rightarrow> sdbus_conn \<times> int list" where
  "sdbus_conn_enqueue c b fds =
     (let fs = take SDBUS_MAX_PENDING_FDS fds in
      if oq_bytes c + int (length b) + sizeof_outchunk > SDBUS_MAX_OUTGOING_BYTES
      then (c\<lparr>oq_over := True\<rparr>, fs)
      else (c\<lparr>oq := oq c @ [\<lparr>oc_bytes = b, oc_off = 0, oc_fds = fs\<rparr>],
              oq_bytes := oq_bytes c + (int (length b) + sizeof_outchunk)\<rparr>, []))"

definition sdbus_conn_has_out :: "sdbus_conn \<Rightarrow> bool" where
  "sdbus_conn_has_out c \<longleftrightarrow> oq c \<noteq> []"

text \<open>The credentials: \<^verbatim>\<open>peer\<close> is what \<^verbatim>\<open>SO_PEERCRED\<close> gives (uid, gid, pid), \<^verbatim>\<open>groups\<close> the full group
  list of the user when the user is known and the list could be had.\<close>

definition sdbus_conn_capture_creds ::
    "(u32 \<times> u32 \<times> int) option \<Rightarrow> (u32 \<Rightarrow> u32 \<Rightarrow> u32 list option) \<Rightarrow> sdbus_conn \<Rightarrow> sdbus_conn" where
  "sdbus_conn_capture_creds peer groups c =
     (let c0 = c\<lparr>cn_uid := -1, cn_gid := -1, cn_pid := 0, cn_gids := []\<rparr> in
      case peer of
        None \<Rightarrow> c0
      | Some (u, g, p) \<Rightarrow>
          (let gs = (case groups u g of
                       None \<Rightarrow> []
                     | Some l \<Rightarrow> map sint (take SDBUS_MAX_GIDS l))
           in c0\<lparr>cn_uid := u, cn_gid := g, cn_pid := p, cn_gids := (if gs = [] then [sint g] else gs)\<rparr>))"

definition sdbus_conn_out_append :: "sdbus_conn \<Rightarrow> u8 list \<Rightarrow> sdbus_conn" where
  "sdbus_conn_out_append c b = c\<lparr>cn_out := cn_out c @ b\<rparr>"

definition sdbus_conn_in_append :: "sdbus_conn \<Rightarrow> u8 list \<Rightarrow> sdbus_conn" where
  "sdbus_conn_in_append c b =
     (if int (length (cn_in c)) + int (length b) > SDBUS_MAX_CONN_PENDING then c\<lparr>in_over := True\<rparr>
      else c\<lparr>cn_in := cn_in c @ b\<rparr>)"

definition sdbus_conn_in_consume :: "nat \<Rightarrow> sdbus_conn \<Rightarrow> sdbus_conn" where
  "sdbus_conn_in_consume n c = c\<lparr>cn_in := drop n (cn_in c)\<rparr>"

text \<open>One answer of \<^verbatim>\<open>sendmsg\<close>: it would block, it failed otherwise, or it took some bytes.\<close>

datatype send_result = SAgain | SBroken | SSent nat

text \<open>The flush loop over the queue: the chunks left, the byte count, the bytes and descriptors sent,
  and the return value \<^verbatim>\<open>0\<close> or \<^verbatim>\<open>-1\<close>. It takes one answer per chunk; the queue drained, the count is
  reset.\<close>

fun flush_chunks ::
    "send_result list \<Rightarrow> sdbus_outchunk list \<Rightarrow> int \<Rightarrow> sdbus_outchunk list \<times> int \<times> u8 list \<times> int list \<times> int" where
  "flush_chunks rs [] n = ([], 0, [], [], 0)"
| "flush_chunks [] (ch # q) n = (ch # q, n, [], [], 0)"
| "flush_chunks (SAgain # rs) (ch # q) n = (ch # q, n, [], [], 0)"
| "flush_chunks (SBroken # rs) (ch # q) n = (ch # q, n, [], [], -1)"
| "flush_chunks (SSent k # rs) (ch # q) n =
     (let k = min k (length (oc_bytes ch) - oc_off ch);
          sent = take k (drop (oc_off ch) (oc_bytes ch));
          fds = (if oc_off ch = 0 then oc_fds ch else []);
          ch' = ch\<lparr>oc_off := oc_off ch + k, oc_fds := (if oc_off ch = 0 then [] else oc_fds ch)\<rparr>;
          n' = n - int k
      in if oc_off ch' \<ge> length (oc_bytes ch)
         then (let (q', n'', s, f, r) = flush_chunks rs q (n' - sizeof_outchunk)
               in (q', n'', sent @ s, fds @ f, r))
         else (ch' # q, n', sent, fds, 0))"

definition flush_conn :: "send_result list \<Rightarrow> sdbus_conn \<Rightarrow> sdbus_conn \<times> u8 list \<times> int list \<times> int" where
  "flush_conn rs c =
     (let (q, n, sent, fds, r) = flush_chunks rs (oq c) (oq_bytes c)
      in (c\<lparr>oq := q, oq_bytes := n\<rparr>, sent, fds, r))"

section \<open>The byte stream of a connection\<close>

definition chunk_left :: "sdbus_outchunk \<Rightarrow> u8 list" where
  "chunk_left ch = drop (oc_off ch) (oc_bytes ch)"

definition queue_left :: "sdbus_outchunk list \<Rightarrow> u8 list" where
  "queue_left q = concat (map chunk_left q)"

definition queue_fds :: "sdbus_outchunk list \<Rightarrow> int list" where
  "queue_fds q = concat (map oc_fds q)"

definition queue_size :: "sdbus_outchunk list \<Rightarrow> int" where
  "queue_size q = sum_list (map (\<lambda>ch. int (length (chunk_left ch)) + sizeof_outchunk) q)"

text \<open>A chunk that has been sent in part has given its descriptors away.\<close>

definition chunk_ok :: "sdbus_outchunk \<Rightarrow> bool" where
  "chunk_ok ch \<longleftrightarrow> oc_off ch \<le> length (oc_bytes ch) \<and> (oc_off ch = 0 \<or> oc_fds ch = [])"

definition queue_ok :: "sdbus_conn \<Rightarrow> bool" where
  "queue_ok c \<longleftrightarrow> list_all chunk_ok (oq c) \<and> oq_bytes c = queue_size (oq c) \<and>
     oq_bytes c \<le> SDBUS_MAX_OUTGOING_BYTES"

lemma flush_chunks_ok:
  assumes "list_all chunk_ok q" "n = queue_size q" "flush_chunks rs q n = (q', n', sent, fds, r)"
  shows "list_all chunk_ok q' \<and> n' = queue_size q' \<and> n' \<le> n \<and>
    sent @ queue_left q' = queue_left q \<and> fds @ queue_fds q' = queue_fds q"
  using assms
proof (induction rs q n arbitrary: q' n' sent fds r rule: flush_chunks.induct)
  case (5 k rs ch q n)
  define kk where "kk = min k (length (oc_bytes ch) - oc_off ch)"
  define ch' where "ch' = ch\<lparr>oc_off := oc_off ch + kk, oc_fds := (if oc_off ch = 0 then [] else oc_fds ch)\<rparr>"
  define s1 where "s1 = take kk (drop (oc_off ch) (oc_bytes ch))"
  define f1 where "f1 = (if oc_off ch = 0 then oc_fds ch else [])"
  note res = 5(4) [unfolded flush_chunks.simps Let_def kk_def [symmetric] ch'_def [symmetric]
      s1_def [symmetric] f1_def [symmetric]]
  have ok: "chunk_ok ch'" using 5(2) by (auto simp: chunk_ok_def ch'_def kk_def)
  have split: "s1 @ chunk_left ch' = chunk_left ch"
    using append_take_drop_id [of kk "drop (oc_off ch) (oc_bytes ch)"]
    by (simp add: chunk_left_def add.commute s1_def ch'_def)
  have len: "int (length (chunk_left ch)) = int kk + int (length (chunk_left ch'))"
    using arg_cong [OF split, of length] by (simp add: s1_def kk_def)
  have fd: "f1 @ oc_fds ch' = oc_fds ch" by (simp add: f1_def ch'_def)
  show ?case
  proof (cases "oc_off ch' \<ge> length (oc_bytes ch)")
    case True
    then have e: "chunk_left ch' = []" by (simp add: chunk_left_def ch'_def)
    have f: "oc_fds ch' = []" using 5(2) by (auto simp: chunk_ok_def ch'_def)
    obtain q2 n2 s2 f2 r2 where r: "flush_chunks rs q (n - int kk - sizeof_outchunk) = (q2, n2, s2, f2, r2)"
      by (metis prod_cases5)
    have n: "n - int kk - sizeof_outchunk = queue_size q" using 5(3) len e by (simp add: queue_size_def)
    have IH: "list_all chunk_ok q2 \<and> n2 = queue_size q2 \<and> n2 \<le> n - int kk - sizeof_outchunk \<and>
        s2 @ queue_left q2 = queue_left q \<and> f2 @ queue_fds q2 = queue_fds q"
      using 5(1) [OF kk_def s1_def f1_def ch'_def refl True _ n r] 5(2) by simp
    have "q' = q2" "n' = n2" "sent = s1 @ s2" "fds = f1 @ f2" using res True r by auto
    then show ?thesis using IH split e f fd
      by (simp add: queue_left_def queue_fds_def sizeof_outchunk_def)
  next
    case False
    then have "q' = ch' # q" "n' = n - int kk" "sent = s1" "fds = f1" using res by auto
    then show ?thesis using 5(2,3) ok split fd len
      by (simp add: queue_left_def queue_fds_def queue_size_def flip: append_assoc)
  qed
qed (auto simp: queue_left_def queue_fds_def queue_size_def)

text \<open>The states a connection's queue can reach by enqueuing and flushing, with the bytes handed to
  \<^verbatim>\<open>sendmsg\<close> and the bytes of the messages accepted so far.\<close>

inductive out_reach :: "sdbus_conn \<Rightarrow> u8 list \<Rightarrow> int list \<Rightarrow> u8 list \<Rightarrow> int list \<Rightarrow> bool" where
  fresh: "oq c = [] \<Longrightarrow> oq_bytes c = 0 \<Longrightarrow> out_reach c [] [] [] []"
| accept: "out_reach c sent sfds acc afds \<Longrightarrow> sdbus_conn_enqueue c b fds = (c', []) \<Longrightarrow> oq c' \<noteq> oq c \<Longrightarrow>
    out_reach c' sent sfds (acc @ b) (afds @ take SDBUS_MAX_PENDING_FDS fds)"
| refuse: "out_reach c sent sfds acc afds \<Longrightarrow> sdbus_conn_enqueue c b fds = (c', closed) \<Longrightarrow> oq c' = oq c \<Longrightarrow>
    out_reach c' sent sfds acc afds"
| flush: "out_reach c sent sfds acc afds \<Longrightarrow> flush_conn rs c = (c', s, f, r) \<Longrightarrow>
    out_reach c' (sent @ s) (sfds @ f) acc afds"

lemma enqueue_cases:
  assumes "sdbus_conn_enqueue c b fds = (c', closed)"
  shows "oq c' = oq c \<and> oq_bytes c' = oq_bytes c \<and> oq_over c' \<or>
    oq c' = oq c @ [\<lparr>oc_bytes = b, oc_off = 0, oc_fds = take SDBUS_MAX_PENDING_FDS fds\<rparr>] \<and> closed = [] \<and>
    oq_bytes c' = oq_bytes c + (int (length b) + sizeof_outchunk) \<and> oq_bytes c' \<le> SDBUS_MAX_OUTGOING_BYTES"
  using assms by (auto simp: sdbus_conn_enqueue_def Let_def split: if_splits)

lemma out_reach_ok:
  "out_reach c sent sfds acc afds \<Longrightarrow>
     queue_ok c \<and> sent @ queue_left (oq c) = acc \<and> sfds @ queue_fds (oq c) = afds"
proof (induction rule: out_reach.induct)
  case (fresh c)
  then show ?case by (simp add: queue_ok_def queue_left_def queue_fds_def queue_size_def SDBUS_MAX_OUTGOING_BYTES_def)
next
  case (accept c sent sfds acc afds b fds c')
  then show ?case using enqueue_cases [OF accept(2)]
    by (auto simp: queue_ok_def chunk_ok_def queue_left_def queue_fds_def queue_size_def chunk_left_def)
next
  case (refuse c sent sfds acc afds b fds c' closed)
  then show ?case using enqueue_cases [OF refuse(2)] by (auto simp: queue_ok_def)
next
  case (flush c sent sfds acc afds rs c' s f r)
  obtain q n where q: "flush_chunks rs (oq c) (oq_bytes c) = (q, n, s, f, r)" "c' = c\<lparr>oq := q, oq_bytes := n\<rparr>"
    using flush(2) by (auto simp: flush_conn_def split: prod.splits)
  have "list_all chunk_ok (oq c)" "oq_bytes c = queue_size (oq c)" "oq_bytes c \<le> SDBUS_MAX_OUTGOING_BYTES"
    using flush(3) by (auto simp: queue_ok_def)
  then show ?case using flush_chunks_ok [OF _ _ q(1)] q(2) flush(3) by (auto simp: queue_ok_def)
qed

section \<open>Properties\<close>



end
