(* ===== verification/SD_Auth.thy ===== *)
theory SD_Auth
  imports SD_Conn "HOL-Library.Sublist"
begin

text \<open>
  The SASL EXTERNAL handshake, \<^verbatim>\<open>src/sdbus_auth.h\<close>. The bytes of a peer accumulate in the inbound
  buffer of its connection; \<^verbatim>\<open>sdbus_auth_feed\<close> works off the complete lines in it. Its result is
  1 after BEGIN, 0 while the handshake goes on, -1 on garbage. The process id, from which the bus
  GUID is computed, is an argument.
\<close>

section \<open>The handshake\<close>

fun guid_chars :: "nat \<Rightarrow> u32 \<Rightarrow> string" where
  "guid_chars 0 seed = []"
| "guid_chars (Suc n) seed =
     (let s = seed * 1103515245 + 12345
      in ''0123456789abcdef'' ! unat (drop_bit 16 s AND 15) # guid_chars n s)"

definition sdbus_guid :: "u32 \<Rightarrow> string" where
  "sdbus_guid pid = guid_chars 32 (pid * 2654435761 + 0x9e3779b9)"

definition hex_digit :: "char \<Rightarrow> nat option" where
  "hex_digit c =
     (let n = char_code c in
      if 48 \<le> n \<and> n \<le> 57 then Some (n - 48)
      else if 97 \<le> n \<and> n \<le> 102 then Some (n - 97 + 10)
      else if 65 \<le> n \<and> n \<le> 70 then Some (n - 65 + 10)
      else None)"

text \<open>The decoded bytes, at most \<^verbatim>\<open>n\<close> of them (the buffer holds 63 and a NUL).\<close>

fun hex_bytes :: "nat \<Rightarrow> string \<Rightarrow> string option" where
  "hex_bytes (Suc n) (a # b # s) =
     (case (hex_digit a, hex_digit b) of
        (Some hi, Some lo) \<Rightarrow> map_option (\<lambda>r. char_of (16 * hi + lo) # r) (hex_bytes n s)
      | _ \<Rightarrow> None)"
| "hex_bytes n s = Some []"

definition hex_uid :: "string \<Rightarrow> int" where
  "hex_uid s =
     (if s = [] then -2
      else if odd (length s) then -1
      else (case hex_bytes 63 s of
              None \<Rightarrow> -1
            | Some d \<Rightarrow>
                (let (v, r) = strtol (takeWhile (\<lambda>c. c \<noteq> CHR 0x00) d) in if r = [] then v else -1)))"

definition CRLF :: string where "CRLF = [CHR 0x0D, CHR 0x0A]"

definition sdbus_send :: "string \<Rightarrow> sdbus_conn \<Rightarrow> sdbus_conn" where
  "sdbus_send s c = sdbus_conn_out_append c (map byte_of (s @ CRLF))"

definition auth_accepts :: "sdbus_conn \<Rightarrow> int \<Rightarrow> bool" where
  "auth_accepts c claimed \<longleftrightarrow> claimed \<noteq> -1 \<and> (claimed = -2 \<or> claimed = uint (cn_uid c))"

definition auth_identity :: "u32 \<Rightarrow> string \<Rightarrow> sdbus_conn \<Rightarrow> sdbus_conn" where
  "auth_identity pid arg c =
     (if auth_accepts c (hex_uid arg)
      then (sdbus_send (''OK '' @ sdbus_guid pid) c)\<lparr>auth_ok := True\<rparr>
      else sdbus_send ''REJECTED EXTERNAL'' c)"

definition skip_spaces :: "string \<Rightarrow> string" where
  "skip_spaces s = dropWhile (\<lambda>c. c = CHR '' '') s"

text \<open>One line: the connection after it, and the return value where the function returns.\<close>

definition auth_line :: "u32 \<Rightarrow> string \<Rightarrow> sdbus_conn \<Rightarrow> sdbus_conn \<times> int option" where
  "auth_line pid line c =
     (if starts_with ''AUTH EXTERNAL'' line then
        (let arg = skip_spaces (drop 13 line) in
         (if arg = [] then sdbus_send ''DATA'' c else auth_identity pid arg c, None))
      else if starts_with ''DATA'' line \<and> (length line = 4 \<or> line ! 4 = CHR '' '') then
        (auth_identity pid (skip_spaces (drop 4 line)) c, None)
      else if line = ''AUTH'' \<or> starts_with ''AUTH '' line then (sdbus_send ''REJECTED EXTERNAL'' c, None)
      else if line = ''NEGOTIATE_UNIX_FD'' then
        (sdbus_send ''AGREE_UNIX_FD'' (c\<lparr>negotiated_fd := True\<rparr>), None)
      else if line = ''CANCEL'' then (sdbus_send ''REJECTED EXTERNAL'' (c\<lparr>auth_ok := False\<rparr>), None)
      else if line = ''BEGIN'' then
        (if auth_ok c then (c\<lparr>authed := True\<rparr>, Some 1) else (c, Some (-1)))
      else (sdbus_send ''ERROR'' c, None))"

fun crlf_index :: "u8 list \<Rightarrow> nat option" where
  "crlf_index (a # b # s) =
     (if chr_of a = CHR 0x0D \<and> chr_of b = CHR 0x0A then Some 0 else map_option Suc (crlf_index (b # s)))"
| "crlf_index s = None"

text \<open>The C string in \<^verbatim>\<open>line[512]\<close>.\<close>

definition line_str :: "u8 list \<Rightarrow> string" where
  "line_str b = map chr_of (takeWhile (\<lambda>x. x \<noteq> 0) (take 511 b))"

lemma auth_line_in [simp]: "cn_in (fst (auth_line pid l c)) = cn_in c"
  by (simp add: auth_line_def auth_identity_def sdbus_send_def sdbus_conn_out_append_def Let_def)

lemma crlf_index_length: "crlf_index b = Some i \<Longrightarrow> i + 2 \<le> length b"
  by (induction b arbitrary: i rule: crlf_index.induct) (auto split: if_splits)

lemma auth_step_shrinks:
  assumes "crlf_index (cn_in c) = Some nl" "auth_line pid l (sdbus_conn_in_consume (nl + 2) c) = (c', x)"
  shows "length (cn_in c') < length (cn_in c)"
proof -
  have "c' = fst (auth_line pid l (sdbus_conn_in_consume (nl + 2) c))" using assms(2) by simp
  then show ?thesis using crlf_index_length [OF assms(1)] by (simp add: sdbus_conn_in_consume_def)
qed

function auth_loop :: "u32 \<Rightarrow> sdbus_conn \<Rightarrow> sdbus_conn \<times> int" where
  "auth_loop pid c =
     (case crlf_index (cn_in c) of
        None \<Rightarrow> (c, 0)
      | Some nl \<Rightarrow>
          (case auth_line pid (line_str (take nl (cn_in c))) (sdbus_conn_in_consume (nl + 2) c) of
             (c', Some r) \<Rightarrow> (c', r)
           | (c', None) \<Rightarrow> auth_loop pid c'))"
  by pat_completeness auto
termination
  by (relation "measure (\<lambda>(pid, c). length (cn_in c))") (auto intro: auth_step_shrinks [simplified, OF _ sym])

declare auth_loop.simps [simp del]

definition sdbus_auth_feed :: "u32 \<Rightarrow> u8 list \<Rightarrow> sdbus_conn \<Rightarrow> sdbus_conn \<times> int" where
  "sdbus_auth_feed pid buf c =
     (let c1 = sdbus_conn_in_append c buf in
      if int (length (cn_in c1)) > SDBUS_MAX_AUTH_BYTES then (c1, -1)
      else if saw_nul c1 then auth_loop pid c1
      else if cn_in c1 = [] then (c1, 0)
      else if cn_in c1 ! 0 \<noteq> 0 then (c1, -1)
      else auth_loop pid (sdbus_conn_in_consume 1 (c1\<lparr>saw_nul := True\<rparr>)))"

text \<open>The reads of an unauthenticated connection, as the event loop makes them: one feed per read, the
  connection dropped at -1, the handshake over at 1.\<close>

fun auth_run :: "u32 \<Rightarrow> u8 list list \<Rightarrow> sdbus_conn \<Rightarrow> sdbus_conn \<times> int" where
  "auth_run pid [] c = (c, 0)"
| "auth_run pid (b # bs) c =
     (case sdbus_auth_feed pid b c of
        (c', r) \<Rightarrow> if r = 0 then auth_run pid bs c' else (c', r))"

section \<open>Who gets in\<close>

text \<open>A line that claims the identity the kernel reported for the peer, or claims none.\<close>

definition identity_line :: "u32 \<Rightarrow> string \<Rightarrow> bool" where
  "identity_line uid l \<longleftrightarrow>
     (\<exists>arg. (l = ''AUTH EXTERNAL'' @ arg \<and> skip_spaces arg \<noteq> [] \<or> l = ''DATA'' @ arg) \<and>
        (hex_uid (skip_spaces arg) = -2 \<or> hex_uid (skip_spaces arg) = uint uid))"

lemma auth_identity_uid [simp]: "cn_uid (auth_identity pid a c) = cn_uid c"
  by (simp add: auth_identity_def sdbus_send_def sdbus_conn_out_append_def)

lemma auth_line_uid [simp]: "cn_uid (fst (auth_line pid l c)) = cn_uid c"
  by (simp add: auth_line_def sdbus_send_def sdbus_conn_out_append_def Let_def)

lemma auth_line_nul [simp]: "saw_nul (fst (auth_line pid l c)) = saw_nul c"
  by (simp add: auth_line_def auth_identity_def sdbus_send_def sdbus_conn_out_append_def Let_def)

lemma auth_identity_ok:
  "auth_ok (auth_identity pid arg c) \<Longrightarrow>
     auth_ok c \<or> hex_uid arg = -2 \<or> hex_uid arg = uint (cn_uid c)"
  by (auto simp: auth_identity_def auth_accepts_def sdbus_send_def sdbus_conn_out_append_def split: if_splits)

lemma auth_line_ok:
  assumes "auth_line pid l c = (c', r)" "auth_ok c'"
  shows "auth_ok c \<or> identity_line (cn_uid c) l"
proof -
  have pre: "l = ''AUTH EXTERNAL'' @ drop 13 l" if "starts_with ''AUTH EXTERNAL'' l"
    using that by (auto simp: starts_with_iff)
  have pre2: "l = ''DATA'' @ drop 4 l" if "starts_with ''DATA'' l" using that by (auto simp: starts_with_iff)
  show ?thesis
  proof (cases "starts_with ''AUTH EXTERNAL'' l")
    case True
    then show ?thesis using assms pre auth_identity_ok [of pid "skip_spaces (drop 13 l)" c]
      unfolding identity_line_def
      by (auto simp: auth_line_def Let_def sdbus_send_def sdbus_conn_out_append_def split: if_splits)
  next
    case F: False
    show ?thesis
    proof (cases "starts_with ''DATA'' l \<and> (length l = 4 \<or> l ! 4 = CHR '' '')")
      case True
      then have "auth_ok (auth_identity pid (skip_spaces (drop 4 l)) c)" using assms F
        by (auto simp: auth_line_def)
      then show ?thesis using auth_identity_ok pre2 True unfolding identity_line_def by blast
    next
      case False
      then show ?thesis using assms F
        by (auto simp: auth_line_def sdbus_send_def sdbus_conn_out_append_def split: if_splits)
    qed
  qed
qed

lemma auth_line_ret:
  assumes "auth_line pid l c = (c', Some r)" "r \<noteq> -1"
  shows "auth_ok c \<and> r = 1 \<and> auth_ok c'"
  using assms by (auto simp: auth_line_def Let_def split: if_splits)

text \<open>What is known of a connection whose peer has sent the bytes \<^verbatim>\<open>S\<close>: behind the leading NUL they
  are complete lines followed by the buffer, and if the peer is authenticated one of those lines
  carried its identity.\<close>

definition wire_lines :: "u8 list list \<Rightarrow> u8 list" where
  "wire_lines ls = concat (map (\<lambda>l. l @ map byte_of CRLF) ls)"

definition heard :: "sdbus_conn \<Rightarrow> u8 list \<Rightarrow> bool" where
  "heard c S \<longleftrightarrow>
     int (length (cn_in c)) \<le> SDBUS_MAX_AUTH_BYTES \<and>
     (if saw_nul c
      then (\<exists>ls. S = 0 # wire_lines ls @ cn_in c \<and>
              (auth_ok c \<longrightarrow> (\<exists>l\<in>set ls. identity_line (cn_uid c) (line_str l))))
      else S = cn_in c \<and> \<not> auth_ok c)"

lemma crlf_index_split:
  "crlf_index b = Some i \<Longrightarrow> b = take i b @ map byte_of CRLF @ drop (i + 2) b"
proof (induction b arbitrary: i rule: crlf_index.induct)
  case (1 a b s)
  show ?case
  proof (cases "chr_of a = CHR 0x0D \<and> chr_of b = CHR 0x0A")
    case True
    then have "a = byte_of (CHR 0x0D)" "b = byte_of (CHR 0x0A)" by (metis byte_of_chr)+
    then show ?thesis using 1 True by (simp add: CRLF_def)
  next
    case False
    then obtain k where "crlf_index (b # s) = Some k" "i = Suc k" using 1(2) by auto
    then show ?thesis using 1(1) [OF False] by simp
  qed
qed auto

lemma wire_lines_snoc: "wire_lines (ls @ [l]) = wire_lines ls @ l @ map byte_of CRLF"
  by (simp add: wire_lines_def)

lemma auth_loop_heard:
  assumes "heard c S" "saw_nul c" "auth_loop pid c = (c', r)" "r \<noteq> -1"
  shows "heard c' S \<and> saw_nul c' \<and> cn_uid c' = cn_uid c \<and> length (cn_in c') \<le> length (cn_in c) \<and>
    (r = 0 \<or> r = 1 \<and> auth_ok c')"
  using assms
proof (induction pid c rule: auth_loop.induct)
  case (1 pid c)
  show ?case
  proof (cases "crlf_index (cn_in c)")
    case None
    then show ?thesis using 1 auth_loop.simps [of pid c] by simp
  next
    case (Some nl)
    let ?l = "take nl (cn_in c)"
    let ?c1 = "sdbus_conn_in_consume (nl + 2) c"
    obtain c2 o2 where l: "auth_line pid (line_str ?l) ?c1 = (c2, o2)" by fastforce
    have "c2 = fst (auth_line pid (line_str ?l) ?c1)" using l by simp
    then have c2: "cn_in c2 = drop (nl + 2) (cn_in c)" "cn_uid c2 = cn_uid c" "saw_nul c2"
      using 1(3) by (simp_all add: sdbus_conn_in_consume_def)
    obtain ls where ls: "S = 0 # wire_lines ls @ cn_in c"
      "auth_ok c \<longrightarrow> (\<exists>l\<in>set ls. identity_line (cn_uid c) (line_str l))"
      using 1(2,3) by (auto simp: heard_def)
    have S: "S = 0 # wire_lines (ls @ [?l]) @ cn_in c2"
      using ls(1) crlf_index_split [OF Some] c2(1) by (simp add: wire_lines_snoc)
    have "auth_ok c2 \<longrightarrow> (\<exists>l\<in>set (ls @ [?l]). identity_line (cn_uid c) (line_str l))"
      using auth_line_ok [OF l] ls(2) by (auto simp: sdbus_conn_in_consume_def)
    moreover have "int (length (cn_in c2)) \<le> SDBUS_MAX_AUTH_BYTES" using 1(2) c2(1) by (auto simp: heard_def)
    ultimately have h: "heard c2 S" using S c2(2,3) unfolding heard_def by (metis (no_types))
    show ?thesis
    proof (cases o2)
      case None
      have "auth_loop pid c2 = (c', r)" using 1(4) Some l None auth_loop.simps [of pid c] by simp
      then show ?thesis using 1(1) [OF Some l [symmetric] None h c2(3) _ 1(5)] c2 by auto
    next
      case (Some r2)
      then have "c' = c2" "r = r2"
        using 1(4) \<open>crlf_index (cn_in c) = Some nl\<close> l auth_loop.simps [of pid c] by auto
      then show ?thesis using auth_line_ret [of pid "line_str ?l" ?c1 c2 r2] l Some 1(5) h c2 by auto
    qed
  qed
qed

lemma in_append_small:
  assumes "int (length (cn_in c)) \<le> SDBUS_MAX_AUTH_BYTES" "length b \<le> 65536"
  shows "sdbus_conn_in_append c b = c\<lparr>cn_in := cn_in c @ b\<rparr>"
  using assms by (simp add: sdbus_conn_in_append_def SDBUS_MAX_CONN_PENDING_def
      SDBUS_MAX_OUTGOING_BYTES_def sizeof_outchunk_def SDBUS_MAX_AUTH_BYTES_def)

lemma auth_feed_heard:
  assumes "heard c S" "length b \<le> 65536" "sdbus_auth_feed pid b c = (c', r)" "r \<noteq> -1"
  shows "heard c' (S @ b) \<and> cn_uid c' = cn_uid c \<and> (r = 0 \<or> r = 1 \<and> auth_ok c' \<and> saw_nul c')"
proof -
  define c1 where "c1 = c\<lparr>cn_in := cn_in c @ b\<rparr>"
  have app: "sdbus_conn_in_append c b = c1"
    using in_append_small [of c b] assms(1,2) by (simp add: heard_def c1_def)
  have len: "int (length (cn_in c1)) \<le> SDBUS_MAX_AUTH_BYTES"
    using assms(3,4) app by (auto simp: sdbus_auth_feed_def split: if_splits)
  then have h: "heard c1 (S @ b)" using assms(1) by (auto simp: heard_def c1_def split: if_splits)
  show ?thesis
  proof (cases "saw_nul c1")
    case True
    then have "auth_loop pid c1 = (c', r)" using assms(3) app len by (simp add: sdbus_auth_feed_def)
    from auth_loop_heard [OF h True this assms(4)] show ?thesis by (auto simp: c1_def)
  next
    case nul: False
    show ?thesis
    proof (cases "cn_in c1 = []")
      case True
      then have "c' = c1" "r = 0" using assms(3) app len nul by (auto simp: sdbus_auth_feed_def)
      then show ?thesis using h by (simp add: c1_def)
    next
      case ne: False
      define c2 where "c2 = sdbus_conn_in_consume 1 (c1\<lparr>saw_nul := True\<rparr>)"
      have z: "cn_in c1 ! 0 = 0" and l: "auth_loop pid c2 = (c', r)"
        using assms(3,4) app len nul ne by (auto simp: sdbus_auth_feed_def c2_def split: if_splits)
      have "cn_in c1 = 0 # drop 1 (cn_in c1)" using z ne by (cases "cn_in c1") auto
      then have "heard c2 (S @ b)" using h nul len
        by (auto simp: heard_def c2_def sdbus_conn_in_consume_def wire_lines_def intro!: exI [of _ "[]"])
      then show ?thesis using auth_loop_heard [OF _ _ l assms(4)]
        by (auto simp: c2_def c1_def sdbus_conn_in_consume_def)
    qed
  qed
qed

lemma auth_run_heard:
  "heard c S \<Longrightarrow> \<forall>b\<in>set bs. length b \<le> 65536 \<Longrightarrow> auth_run pid bs c = (c', r) \<Longrightarrow> r \<noteq> -1 \<Longrightarrow>
     \<exists>as. prefix as bs \<and> heard c' (S @ concat as) \<and> cn_uid c' = cn_uid c \<and>
       (r = 0 \<or> r = 1 \<and> auth_ok c' \<and> saw_nul c')"
proof (induction bs arbitrary: c S)
  case (Cons b bs)
  obtain c1 r1 where f: "sdbus_auth_feed pid b c = (c1, r1)" by fastforce
  have n: "r1 \<noteq> -1" using Cons.prems(3,4) f by (auto split: if_splits)
  note h = auth_feed_heard [OF Cons.prems(1) _ f n]
  show ?case
  proof (cases "r1 = 0")
    case True
    then have "auth_run pid bs c1 = (c', r)" using Cons.prems(3) f by simp
    then obtain as where "prefix as bs" "heard c' ((S @ b) @ concat as)" "cn_uid c' = cn_uid c1"
      "r = 0 \<or> r = 1 \<and> auth_ok c' \<and> saw_nul c'"
      using Cons.IH [of c1 "S @ b"] h Cons.prems by auto
    then show ?thesis using h Cons.prems(2) by (intro exI [of _ "b # as"]) simp
  next
    case False
    then have "c' = c1" "r = r1" using Cons.prems(3) f by auto
    then show ?thesis using h Cons.prems(2) by (intro exI [of _ "[b]"]) simp
  qed
qed auto

text \<open>The mark for an empty claim can be claimed: the hex form of the text \<^verbatim>\<open>-2\<close> decodes to it, so
  that this identity, which is nobody's, is accepted as if none had been given.\<close>

lemma hex_uid_minus_two: "hex_uid ''2d32'' = -2"
  by code_simp

section \<open>Properties\<close>


text \<open>The handshake of a client of uid 0, as two reads.\<close>

definition example_reads :: "u8 list list" where
  "example_reads = [0 # map byte_of (''AUTH EXTERNAL 30'' @ CRLF @ ''BEG''), map byte_of (''IN'' @ CRLF @ ''l'')]"


end
