(* ===== verification/SD_Names.thy ===== *)
theory SD_Names
  imports SI_Prelude
begin

text \<open>
  The name registry of the message bus, \<^verbatim>\<open>src/sdbus_names.h\<close>: the unique names handed out at
  Hello and, for every well-known name, the array of its holders (the first one owns the name, the
  others wait). A pointer \<^verbatim>\<open>sdbus_name_ent *\<close> into the array is the index of the entry; the
  array \<^verbatim>\<open>out[]\<close> of ownership transitions is the list an operation returns.
\<close>

section \<open>Data\<close>

definition SDBUS_REQ_ALLOW_REPLACEMENT :: u32 where "SDBUS_REQ_ALLOW_REPLACEMENT = 1"
definition SDBUS_REQ_REPLACE_EXISTING :: u32 where "SDBUS_REQ_REPLACE_EXISTING = 2"
definition SDBUS_REQ_DO_NOT_QUEUE :: u32 where "SDBUS_REQ_DO_NOT_QUEUE = 4"
definition SDBUS_MAX_NAMES_PER_CONN :: nat where "SDBUS_MAX_NAMES_PER_CONN = 512"

datatype sdbus_req_rc =
  SDBUS_REQ_PRIMARY_OWNER | SDBUS_REQ_IN_QUEUE | SDBUS_REQ_EXISTS | SDBUS_REQ_ALREADY_OWNER

datatype sdbus_rel_rc = SDBUS_REL_RELEASED | SDBUS_REL_NON_EXISTENT | SDBUS_REL_NOT_OWNER

record sdbus_transition =
  tr_name :: string
  old_owner :: int
  new_owner :: int

record sdbus_holder =
  h_conn :: int
  h_flags :: u32

record sdbus_name_ent =
  ne_name :: string
  holders :: "sdbus_holder list"

record sdbus_unique_ent =
  ue_conn :: int
  ue_unique :: string

record sdbus_names =
  nm_names :: "sdbus_name_ent list"
  nm_uniques :: "sdbus_unique_ent list"
  next_unique :: u32

definition sdbus_names_new :: sdbus_names where
  "sdbus_names_new = \<lparr>nm_names = [], nm_uniques = [], next_unique = 1\<rparr>"

section \<open>Operations\<close>

definition name_find :: "sdbus_names \<Rightarrow> string \<Rightarrow> nat option" where
  "name_find r n = first_index (\<lambda>e. ne_name e = n) (nm_names r)"

definition name_intern :: "sdbus_names \<Rightarrow> string \<Rightarrow> sdbus_names \<times> nat" where
  "name_intern r n =
     (case name_find r n of
        Some i \<Rightarrow> (r, i)
      | None \<Rightarrow> (r\<lparr>nm_names := nm_names r @ [\<lparr>ne_name = n, holders = []\<rparr>]\<rparr>, length (nm_names r)))"

definition holder_index :: "sdbus_name_ent \<Rightarrow> int \<Rightarrow> nat option" where
  "holder_index e c = first_index (\<lambda>h. h_conn h = c) (holders e)"

definition holder_insert :: "nat \<Rightarrow> int \<Rightarrow> u32 \<Rightarrow> sdbus_name_ent \<Rightarrow> sdbus_name_ent" where
  "holder_insert idx c f e =
     e\<lparr>holders := take idx (holders e) @ [\<lparr>h_conn = c, h_flags = f\<rparr>] @ drop idx (holders e)\<rparr>"

definition holder_remove :: "nat \<Rightarrow> sdbus_name_ent \<Rightarrow> sdbus_name_ent" where
  "holder_remove idx e = e\<lparr>holders := take idx (holders e) @ drop (Suc idx) (holders e)\<rparr>"

definition holder_set_flags :: "nat \<Rightarrow> u32 \<Rightarrow> sdbus_name_ent \<Rightarrow> sdbus_name_ent" where
  "holder_set_flags idx f e = e\<lparr>holders := (holders e)[idx := (holders e ! idx)\<lparr>h_flags := f\<rparr>]\<rparr>"

definition sdbus_names_alloc_unique :: "sdbus_names \<Rightarrow> int \<Rightarrow> sdbus_names \<times> string" where
  "sdbus_names_alloc_unique r c =
     (let u = '':1.'' @ show_nat (unat (next_unique r))
      in (r\<lparr>next_unique := next_unique r + 1,
            nm_uniques := nm_uniques r @ [\<lparr>ue_conn = c, ue_unique = u\<rparr>]\<rparr>, u))"

text \<open>The primary owner of an entry, \<^verbatim>\<open>-1\<close> when it has no holder.\<close>

definition ent_owner :: "sdbus_name_ent \<Rightarrow> int" where
  "ent_owner e = (case holders e of [] \<Rightarrow> -1 | h # hs \<Rightarrow> h_conn h)"

definition sdbus_names_owner :: "sdbus_names \<Rightarrow> string \<Rightarrow> int" where
  "sdbus_names_owner r n =
     (case name_find r n of None \<Rightarrow> -1 | Some i \<Rightarrow> ent_owner (nm_names r ! i))"

definition request_ent ::
    "int \<Rightarrow> u32 \<Rightarrow> sdbus_name_ent \<Rightarrow> sdbus_name_ent \<times> sdbus_req_rc \<times> sdbus_transition list" where
  "request_ent c flags e =
     (case holders e of
        [] \<Rightarrow> (holder_insert 0 c flags e, SDBUS_REQ_PRIMARY_OWNER,
               [\<lparr>tr_name = ne_name e, old_owner = -1, new_owner = c\<rparr>])
      | h # hs \<Rightarrow>
          (case holder_index e c of
             Some 0 \<Rightarrow> (holder_set_flags 0 flags e, SDBUS_REQ_ALREADY_OWNER, [])
           | Some (Suc i) \<Rightarrow> (holder_set_flags (Suc i) flags e, SDBUS_REQ_IN_QUEUE, [])
           | None \<Rightarrow>
               if flags AND SDBUS_REQ_REPLACE_EXISTING \<noteq> 0 \<and>
                  h_flags h AND SDBUS_REQ_ALLOW_REPLACEMENT \<noteq> 0
               then (if h_flags h AND SDBUS_REQ_DO_NOT_QUEUE \<noteq> 0
                     then holder_insert 0 c flags (holder_remove 0 e)
                     else holder_insert 0 c flags e,
                     SDBUS_REQ_PRIMARY_OWNER,
                     [\<lparr>tr_name = ne_name e, old_owner = h_conn h, new_owner = c\<rparr>])
               else if flags AND SDBUS_REQ_DO_NOT_QUEUE \<noteq> 0 then (e, SDBUS_REQ_EXISTS, [])
               else (holder_insert (length (holders e)) c flags e, SDBUS_REQ_IN_QUEUE, [])))"

definition sdbus_names_request ::
    "sdbus_names \<Rightarrow> int \<Rightarrow> string \<Rightarrow> u32 \<Rightarrow> sdbus_names \<times> sdbus_req_rc \<times> sdbus_transition list" where
  "sdbus_names_request r c n flags =
     (let (r1, i) = name_intern r n;
          (e, rc, ts) = request_ent c flags (nm_names r1 ! i)
      in (r1\<lparr>nm_names := (nm_names r1)[i := e]\<rparr>, rc, ts))"

text \<open>The removal of holder \<^verbatim>\<open>idx\<close>, shared by release and disconnect: only the loss of the
  first holder is announced.\<close>

definition drop_holder ::
    "nat \<Rightarrow> int \<Rightarrow> sdbus_name_ent \<Rightarrow> sdbus_name_ent \<times> sdbus_transition list" where
  "drop_holder idx c e =
     (let e' = holder_remove idx e
      in (e', if idx = 0 then [\<lparr>tr_name = ne_name e, old_owner = c, new_owner = ent_owner e'\<rparr>] else []))"

definition sdbus_names_release ::
    "sdbus_names \<Rightarrow> int \<Rightarrow> string \<Rightarrow> sdbus_names \<times> sdbus_rel_rc \<times> sdbus_transition list" where
  "sdbus_names_release r c n =
     (case name_find r n of
        None \<Rightarrow> (r, SDBUS_REL_NON_EXISTENT, [])
      | Some i \<Rightarrow>
          (let e = nm_names r ! i in
           if holders e = [] then (r, SDBUS_REL_NON_EXISTENT, [])
           else case holder_index e c of
                  None \<Rightarrow> (r, SDBUS_REL_NOT_OWNER, [])
                | Some idx \<Rightarrow>
                    (let (e', ts) = drop_holder idx c e
                     in (r\<lparr>nm_names := (nm_names r)[i := e']\<rparr>, SDBUS_REL_RELEASED, ts))))"

text \<open>The loop of the disconnect over the entries; \<^verbatim>\<open>room\<close> is what is left of the caller's
  \<^verbatim>\<open>out[max]\<close>.\<close>

fun disconnect_ents ::
    "int \<Rightarrow> nat \<Rightarrow> sdbus_name_ent list \<Rightarrow> sdbus_name_ent list \<times> sdbus_transition list" where
  "disconnect_ents c room [] = ([], [])"
| "disconnect_ents c room (e # es) =
     (case holder_index e c of
        None \<Rightarrow> (let (es', ts) = disconnect_ents c room es in (e # es', ts))
      | Some idx \<Rightarrow>
          (let (e', t) = drop_holder idx c e;
               t' = take room t;
               (es', ts) = disconnect_ents c (room - length t') es
           in (e' # es', t' @ ts)))"

definition forget_unique :: "int \<Rightarrow> sdbus_unique_ent list \<Rightarrow> sdbus_unique_ent list" where
  "forget_unique c us =
     (case first_index (\<lambda>u. ue_conn u = c) us of None \<Rightarrow> us | Some i \<Rightarrow> swap_remove i us)"

definition sdbus_names_disconnect ::
    "sdbus_names \<Rightarrow> int \<Rightarrow> nat \<Rightarrow> sdbus_names \<times> sdbus_transition list" where
  "sdbus_names_disconnect r c mx =
     (let (es, ts) = disconnect_ents c mx (nm_names r)
      in (r\<lparr>nm_names := es, nm_uniques := forget_unique c (nm_uniques r)\<rparr>, ts))"

definition sdbus_names_list :: "sdbus_names \<Rightarrow> string list" where
  "sdbus_names_list r = map ne_name (filter (\<lambda>e. holders e \<noteq> []) (nm_names r))"

definition sdbus_names_owned_by :: "sdbus_names \<Rightarrow> int \<Rightarrow> string list" where
  "sdbus_names_owned_by r c =
     map ne_name (filter (\<lambda>e. holders e \<noteq> [] \<and> h_conn (holders e ! 0) = c) (nm_names r))"

definition ent_held_by :: "int \<Rightarrow> sdbus_name_ent \<Rightarrow> bool" where
  "ent_held_by c e \<longleftrightarrow> (\<exists>h\<in>set (holders e). h_conn h = c)"

definition sdbus_names_holds :: "sdbus_names \<Rightarrow> int \<Rightarrow> string \<Rightarrow> bool" where
  "sdbus_names_holds r c n =
     (case name_find r n of None \<Rightarrow> False | Some i \<Rightarrow> ent_held_by c (nm_names r ! i))"

definition sdbus_names_count_held :: "sdbus_names \<Rightarrow> int \<Rightarrow> nat" where
  "sdbus_names_count_held r c = length (filter (ent_held_by c) (nm_names r))"

definition sdbus_names_unique :: "sdbus_names \<Rightarrow> int \<Rightarrow> string option" where
  "sdbus_names_unique r c =
     map_option ue_unique (List.find (\<lambda>u. ue_conn u = c) (nm_uniques r))"

section \<open>Invariant\<close>

text \<open>Every entry has its own name, no connection stands twice in a queue, and the holders are
  connection ids, so that \<^verbatim>\<open>-1\<close> always means that nobody owns the name.\<close>

definition ent_ok :: "sdbus_name_ent \<Rightarrow> bool" where
  "ent_ok e \<longleftrightarrow> distinct (map h_conn (holders e)) \<and> (\<forall>h\<in>set (holders e). 0 \<le> h_conn h)"

definition names_ok :: "sdbus_names \<Rightarrow> bool" where
  "names_ok r \<longleftrightarrow> distinct (map ne_name (nm_names r)) \<and> (\<forall>e\<in>set (nm_names r). ent_ok e)"

lemma names_ok_new: "names_ok sdbus_names_new"
  by (simp add: names_ok_def sdbus_names_new_def)

named_theorems ent_defs
lemmas [ent_defs] = request_ent_def holder_insert_def holder_remove_def holder_set_flags_def
  drop_holder_def ent_ok_def ent_owner_def holder_index_def ent_held_by_def

text \<open>An operation on one entry is announced faithfully: no transition and the same owner, or one
  transition from the owner before to a different owner after.\<close>

definition ent_feed :: "sdbus_name_ent \<Rightarrow> sdbus_name_ent \<Rightarrow> sdbus_transition list \<Rightarrow> bool" where
  "ent_feed e e' ts \<longleftrightarrow> ne_name e' = ne_name e \<and>
     (if ent_owner e' = ent_owner e then ts = []
      else ts = [\<lparr>tr_name = ne_name e, old_owner = ent_owner e, new_owner = ent_owner e'\<rparr>])"

lemma distinct_take_drop:
  "distinct xs \<Longrightarrow> distinct (take i xs @ drop (Suc i) xs)"
  by (simp add: set_take_disj_set_drop_if_distinct)

lemma holder_remove_ok:
  assumes "ent_ok e"
  shows "ent_ok (holder_remove i e)"
proof -
  have "distinct (map h_conn (take i (holders e) @ drop (Suc i) (holders e)))"
    using assms distinct_take_drop [of "map h_conn (holders e)" i]
    by (simp add: ent_ok_def take_map drop_map)
  then show ?thesis using assms
    by (auto simp: ent_ok_def holder_remove_def dest: in_set_takeD in_set_dropD)
qed

lemma holder_remove_gone:
  assumes "ent_ok e" "holder_index e c = Some i"
  shows "\<not> ent_held_by c (holder_remove i e)"
proof
  assume "ent_held_by c (holder_remove i e)"
  then obtain h where h: "h \<in> set (take i (holders e) @ drop (Suc i) (holders e))" "h_conn h = c"
    by (auto simp: ent_held_by_def holder_remove_def)
  have i: "i < length (holders e)" "h_conn (holders e ! i) = c"
    using first_index_SomeD [OF assms(2) [unfolded holder_index_def]] by auto
  then have "holders e = take i (holders e) @ holders e ! i # drop (Suc i) (holders e)"
    by (simp add: id_take_nth_drop)
  then have "distinct (map h_conn (take i (holders e) @ holders e ! i # drop (Suc i) (holders e)))"
    using assms(1) by (simp add: ent_ok_def)
  then show False using h i(2) by auto
qed

lemma ent_ok_owner: "ent_ok e \<Longrightarrow> - 1 \<le> ent_owner e"
  by (auto simp: ent_ok_def ent_owner_def split: list.splits)

lemma drop_holder_feed:
  assumes "ent_ok e" "holder_index e c = Some i" "drop_holder i c e = (e', ts)"
  shows "ent_feed e e' ts \<and> ent_ok e' \<and> \<not> ent_held_by c e'"
proof -
  have e': "e' = holder_remove i e" using assms(3) by (simp add: drop_holder_def Let_def)
  have i: "i < length (holders e)" "h_conn (holders e ! i) = c"
    using first_index_SomeD [OF assms(2) [unfolded holder_index_def]] by auto
  have "ent_feed e e' ts"
  proof (cases i)
    case 0
    then have "ent_owner e = c" "0 \<le> c" using i assms(1)
      by (auto simp: ent_owner_def ent_ok_def split: list.splits)
    moreover have "ent_owner e' \<noteq> c" using holder_remove_gone [OF assms(1,2)] \<open>0 \<le> c\<close> e'
      by (auto simp: ent_owner_def ent_held_by_def split: list.splits)
    ultimately show ?thesis using assms(3) 0
      by (auto simp: ent_feed_def drop_holder_def Let_def holder_remove_def)
  next
    case (Suc k)
    then have "ent_owner e' = ent_owner e" using i e'
      by (cases "holders e") (auto simp: ent_owner_def holder_remove_def)
    then show ?thesis using assms(3) Suc
      by (auto simp: ent_feed_def drop_holder_def Let_def holder_remove_def)
  qed
  then show ?thesis using e' holder_remove_ok holder_remove_gone assms by blast
qed

lemma holder_set_flags_feed:
  assumes "ent_ok e" "i < length (holders e)"
  shows "ent_feed e (holder_set_flags i f e) [] \<and> ent_ok (holder_set_flags i f e)"
proof -
  have m: "map h_conn (holders (holder_set_flags i f e)) = map h_conn (holders e)"
    using assms(2) by (simp add: holder_set_flags_def map_update) (metis list_update_id nth_map)
  then have "h_conn ` set (holders (holder_set_flags i f e)) = h_conn ` set (holders e)"
    by (metis set_map)
  then have "ent_ok (holder_set_flags i f e)" using assms(1) m
    by (simp add: ent_ok_def) (metis (no_types, lifting) imageE imageI)
  moreover have "ent_owner (holder_set_flags i f e) = ent_owner e"
    using m by (cases "holders (holder_set_flags i f e)"; cases "holders e") (auto simp: ent_owner_def)
  ultimately show ?thesis by (simp add: ent_feed_def holder_set_flags_def)
qed

lemma holder_insert_ok:
  assumes "ent_ok e" "\<not> ent_held_by c e" "0 \<le> c"
  shows "ent_ok (holder_insert i c f e)"
proof -
  have "distinct (map h_conn (take i (holders e)) @ map h_conn (drop i (holders e)))"
    using assms(1) by (simp add: ent_ok_def flip: map_append)
  then show ?thesis using assms
    by (auto simp: ent_ok_def holder_insert_def ent_held_by_def dest: in_set_takeD in_set_dropD)
qed

lemma holder_index_None: "holder_index e c = None \<longleftrightarrow> \<not> ent_held_by c e"
  by (auto simp: holder_index_def ent_held_by_def)

lemma request_ent_feed:
  assumes ok: "ent_ok e" and c: "0 \<le> c" and req: "request_ent c f e = (e', rc, ts)"
  shows "ent_feed e e' ts \<and> ent_ok e'"
proof (cases "holders e")
  case Nil
  then show ?thesis using req c
    by (auto simp: request_ent_def ent_feed_def ent_ok_def ent_owner_def holder_insert_def)
next
  case (Cons h hs)
  show ?thesis
  proof (cases "holder_index e c")
    case (Some i)
    have "i < length (holders e)"
      using first_index_SomeD [OF Some [unfolded holder_index_def]] by simp
    moreover have "e' = holder_set_flags i f e" "ts = []"
      using req Cons Some by (auto simp: request_ent_def split: nat.splits)
    ultimately show ?thesis using holder_set_flags_feed [OF ok] by simp
  next
    case None
    then have n: "\<not> ent_held_by c e" by (simp add: holder_index_None)
    then have n0: "\<not> ent_held_by c (holder_remove 0 e)"
      by (auto simp: ent_held_by_def holder_remove_def dest: in_set_dropD)
    have own: "ent_owner e = h_conn h" "h_conn h \<noteq> c"
      using Cons n by (auto simp: ent_owner_def ent_held_by_def)
    note oks = holder_insert_ok [OF ok n c] holder_insert_ok [OF holder_remove_ok [OF ok] n0 c] ok
    have "ent_ok e'" using req Cons None oks by (auto simp: request_ent_def split: if_splits)
    moreover have "ent_feed e e' ts" using req Cons None own
      by (auto simp: request_ent_def ent_feed_def ent_owner_def holder_insert_def holder_remove_def
          split: if_splits)
    ultimately show ?thesis by simp
  qed
qed

section \<open>The owner map\<close>

text \<open>The owner of a name as a function of the entries, and how one updated entry changes it.\<close>

definition own :: "sdbus_name_ent list \<Rightarrow> string \<Rightarrow> int" where
  "own es n = (case first_index (\<lambda>e. ne_name e = n) es of None \<Rightarrow> -1 | Some i \<Rightarrow> ent_owner (es ! i))"

lemma sdbus_names_owner_own: "sdbus_names_owner r n = own (nm_names r) n"
  by (simp add: sdbus_names_owner_def own_def name_find_def)

lemma own_Nil [simp]: "own [] n = - 1"
  by (simp add: own_def)

lemma own_Cons [simp]: "own (e # es) n = (if ne_name e = n then ent_owner e else own es n)"
  by (cases "first_index (\<lambda>e. ne_name e = n) es") (simp_all add: own_def del: first_index_None)

lemma own_absent: "n \<notin> ne_name ` set es \<Longrightarrow> own es n = - 1"
  by (induction es) auto

lemma own_snoc: "own (es @ [\<lparr>ne_name = n, holders = []\<rparr>]) = own es"
  by (rule ext, induction es) (auto simp: ent_owner_def)

lemma own_update:
  assumes "distinct (map ne_name es)" "i < length es" "ne_name e' = ne_name (es ! i)"
  shows "own (es[i := e']) = (own es)(ne_name e' := ent_owner e')"
  using assms
proof (induction es arbitrary: i)
  case Nil
  then show ?case by simp
next
  case (Cons e es)
  show ?case
  proof (cases i)
    case 0
    with Cons.prems show ?thesis by (auto simp: fun_eq_iff)
  next
    case (Suc k)
    with Cons.prems have "own (es[k := e']) = (own es)(ne_name e' := ent_owner e')"
      by (intro Cons.IH) auto
    moreover have "ne_name e \<noteq> ne_name e'" using Suc Cons.prems by auto
    ultimately show ?thesis using Suc by (auto simp: fun_eq_iff)
  qed
qed

lemma own_ent_feed:
  assumes "distinct (map ne_name es)" "i < length es" "ent_feed (es ! i) e' ts"
  shows "own (es[i := e']) = (own es)(ne_name e' := ent_owner e')"
    and "own es (ne_name e') = ent_owner (es ! i)"
proof -
  have n: "ne_name e' = ne_name (es ! i)" using assms(3) by (simp add: ent_feed_def)
  show "own (es[i := e']) = (own es)(ne_name e' := ent_owner e')"
    using own_update [OF assms(1,2) n] .
  have "own (es[i := es ! i]) = (own es)(ne_name (es ! i) := ent_owner (es ! i))"
    using own_update [OF assms(1,2), of "es ! i"] by simp
  then show "own es (ne_name e') = ent_owner (es ! i)" using n by (metis fun_upd_same list_update_id)
qed

text \<open>What a listener that applies the announced transitions in order believes.\<close>

fun replay :: "sdbus_transition list \<Rightarrow> (string \<Rightarrow> int) \<Rightarrow> string \<Rightarrow> int" where
  "replay [] v = v"
| "replay (t # ts) v = replay ts (v(tr_name t := new_owner t))"

lemma replay_append [simp]: "replay (ts @ us) v = replay us (replay ts v)"
  by (induction ts arbitrary: v) auto

lemma replay_other: "n \<notin> tr_name ` set ts \<Longrightarrow> replay ts v n = v n"
  by (induction ts arbitrary: v) auto

lemma replay_cong: "v n = w n \<Longrightarrow> replay ts v n = replay ts w n"
proof (induction ts arbitrary: v w)
  case (Cons t ts)
  have "replay ts (v(tr_name t := new_owner t)) n = replay ts (w(tr_name t := new_owner t)) n"
    using Cons.prems by (intro Cons.IH) simp
  then show ?case by simp
qed simp

lemma ent_feed_replay:
  "ent_feed e e' ts \<Longrightarrow> v (ne_name e) = ent_owner e \<Longrightarrow> replay ts v = v(ne_name e' := ent_owner e')"
  by (auto simp: ent_feed_def split: if_splits)

text \<open>A transition is truthful for the owners before it: it names the owner there was and a
  different one.\<close>

fun truthful :: "sdbus_transition list \<Rightarrow> (string \<Rightarrow> int) \<Rightarrow> bool" where
  "truthful [] v = True"
| "truthful (t # ts) v =
     (old_owner t = v (tr_name t) \<and> new_owner t \<noteq> old_owner t \<and> truthful ts (v(tr_name t := new_owner t)))"

lemma truthful_append [simp]: "truthful (ts @ us) v \<longleftrightarrow> truthful ts v \<and> truthful us (replay ts v)"
  by (induction ts arbitrary: v) auto

lemma truthful_cong: "(\<And>t. t \<in> set ts \<Longrightarrow> v (tr_name t) = w (tr_name t)) \<Longrightarrow> truthful ts v = truthful ts w"
proof (induction ts arbitrary: v w)
  case (Cons t ts)
  have "truthful ts (v(tr_name t := new_owner t)) = truthful ts (w(tr_name t := new_owner t))"
    using Cons.prems by (intro Cons.IH) simp
  then show ?case using Cons.prems [of t] by simp
qed simp

lemma ent_feed_truthful:
  "ent_feed e e' ts \<Longrightarrow> v (ne_name e) = ent_owner e \<Longrightarrow> truthful ts v"
  by (auto simp: ent_feed_def split: if_splits)

lemma disconnect_ents_feed:
  assumes "distinct (map ne_name es)" "\<forall>e\<in>set es. ent_ok e" "length es \<le> room"
    "disconnect_ents c room es = (es', ts)"
  shows "map ne_name es' = map ne_name es \<and> (\<forall>e\<in>set es'. ent_ok e \<and> \<not> ent_held_by c e) \<and>
    tr_name ` set ts \<subseteq> ne_name ` set es \<and> own es' = replay ts (own es) \<and> truthful ts (own es)"
  using assms
proof (induction es arbitrary: room es' ts)
  case Nil
  then show ?case by simp
next
  case (Cons e es)
  show ?case
  proof (cases "holder_index e c")
    case None
    obtain es1 ts1 where r: "disconnect_ents c room es = (es1, ts1)" by fastforce
    with Cons.prems have IH: "map ne_name es1 = map ne_name es \<and> (\<forall>e\<in>set es1. ent_ok e \<and> \<not> ent_held_by c e) \<and>
        tr_name ` set ts1 \<subseteq> ne_name ` set es \<and> own es1 = replay ts1 (own es) \<and> truthful ts1 (own es)"
      by (intro Cons.IH) auto
    have eq: "es' = e # es1" "ts = ts1" using None r Cons.prems by auto
    have out: "ne_name e \<notin> tr_name ` set ts1" using IH Cons.prems(1) by auto
    have "replay ts1 (own (e # es)) = own (e # es1)"
    proof
      fix n
      show "replay ts1 (own (e # es)) n = own (e # es1) n"
        using IH out replay_other [of n ts1 "own (e # es)"] replay_cong [of "own (e # es)" n "own es" ts1]
        by (cases "ne_name e = n") auto
    qed
    moreover have "truthful ts1 (own (e # es))"
      using IH out truthful_cong [of ts1 "own (e # es)" "own es"] by force
    ultimately show ?thesis using IH eq None Cons.prems(2)
      by (auto simp: holder_index_None simp del: own_Cons)
  next
    case (Some i)
    obtain e1 t where d: "drop_holder i c e = (e1, t)" by fastforce
    have feed: "ent_feed e e1 t \<and> ent_ok e1 \<and> \<not> ent_held_by c e1"
      using drop_holder_feed [OF _ Some d] Cons.prems(2) by simp
    then have lt: "take room t = t" using Cons.prems(3) by (auto simp: ent_feed_def split: if_splits)
    have lt1: "length t \<le> 1" using feed by (auto simp: ent_feed_def split: if_splits)
    obtain es1 ts1 where r: "disconnect_ents c (room - length t) es = (es1, ts1)" by fastforce
    with Cons.prems lt1 have IH: "map ne_name es1 = map ne_name es \<and> (\<forall>e\<in>set es1. ent_ok e \<and> \<not> ent_held_by c e) \<and>
        tr_name ` set ts1 \<subseteq> ne_name ` set es \<and> own es1 = replay ts1 (own es) \<and> truthful ts1 (own es)"
      by (intro Cons.IH) auto
    have eq: "es' = e1 # es1" "ts = t @ ts1" using Some r d lt Cons.prems(4) by auto
    have nm: "ne_name e1 = ne_name e" using feed by (simp add: ent_feed_def)
    have out: "ne_name e \<notin> tr_name ` set ts1" using IH Cons.prems(1) by auto
    have first: "replay t (own (e # es)) = (own (e # es))(ne_name e := ent_owner e1)"
      using ent_feed_replay [of e e1 t "own (e # es)"] feed nm by simp
    have "replay ts (own (e # es)) = own es'"
    proof
      fix n
      show "replay ts (own (e # es)) n = own es' n"
        using IH out first eq nm replay_other [of n ts1 "replay t (own (e # es))"]
          replay_cong [of "replay t (own (e # es))" n "own es" ts1]
        by (cases "ne_name e = n") auto
    qed
    moreover have "truthful ts (own (e # es))"
      using IH out first eq feed ent_feed_truthful [of e e1 t "own (e # es)"]
        truthful_cong [of ts1 "replay t (own (e # es))" "own es"] by force
    moreover have "tr_name ` set t \<subseteq> {ne_name e}" using feed by (auto simp: ent_feed_def split: if_splits)
    ultimately show ?thesis using IH eq nm feed by (auto simp del: own_Cons)
  qed
qed

section \<open>The operations keep the invariant and announce what they do\<close>

lemma name_intern_ok:
  assumes "names_ok r" "name_intern r n = (r1, i)"
  shows "names_ok r1 \<and> i < length (nm_names r1) \<and> ne_name (nm_names r1 ! i) = n \<and>
    own (nm_names r1) = own (nm_names r) \<and> nm_uniques r1 = nm_uniques r \<and> next_unique r1 = next_unique r"
proof (cases "name_find r n")
  case None
  then have "n \<notin> ne_name ` set (nm_names r)" by (auto simp: name_find_def)
  then show ?thesis using None assms
    by (auto simp: name_intern_def names_ok_def own_snoc ent_ok_def)
next
  case (Some j)
  then show ?thesis using assms first_index_SomeD [OF Some [unfolded name_find_def]]
    by (auto simp: name_intern_def)
qed

lemma names_ok_update:
  assumes "names_ok r" "i < length (nm_names r)" "ent_feed (nm_names r ! i) e ts" "ent_ok e"
  shows "names_ok (r\<lparr>nm_names := (nm_names r)[i := e]\<rparr>)"
proof -
  have "map ne_name ((nm_names r)[i := e]) = map ne_name (nm_names r)"
    using assms(2,3) by (simp add: map_update ent_feed_def) (metis list_update_id nth_map)
  then show ?thesis using assms set_update_subset_insert [of "nm_names r" i e]
    by (auto simp: names_ok_def)
qed

lemma update_feed:
  assumes "names_ok r" "i < length (nm_names r)" "ent_feed (nm_names r ! i) e ts"
  shows "own ((nm_names r)[i := e]) = replay ts (own (nm_names r)) \<and> truthful ts (own (nm_names r))"
proof -
  have d: "distinct (map ne_name (nm_names r))" using assms(1) by (simp add: names_ok_def)
  note o = own_ent_feed [OF d assms(2,3)]
  have n: "own (nm_names r) (ne_name (nm_names r ! i)) = ent_owner (nm_names r ! i)"
    using o(2) assms(3) by (simp add: ent_feed_def)
  show ?thesis using o(1) n assms(3)
      ent_feed_replay [of "nm_names r ! i" e ts "own (nm_names r)"]
      ent_feed_truthful [of "nm_names r ! i" e ts "own (nm_names r)"] by simp
qed

lemma request_feed:
  assumes "names_ok r" "0 \<le> c" "sdbus_names_request r c n f = (r', rc, ts)"
  shows "names_ok r' \<and> own (nm_names r') = replay ts (own (nm_names r)) \<and> truthful ts (own (nm_names r))"
proof -
  obtain r1 i where i: "name_intern r n = (r1, i)" by fastforce
  obtain e rc1 ts1 where e: "request_ent c f (nm_names r1 ! i) = (e, rc1, ts1)"
    by (cases "request_ent c f (nm_names r1 ! i)")
  note int = name_intern_ok [OF assms(1) i]
  have ok: "ent_ok (nm_names r1 ! i)" using int by (auto simp: names_ok_def)
  note feed = request_ent_feed [OF ok assms(2) e]
  have "r' = r1\<lparr>nm_names := (nm_names r1)[i := e]\<rparr>" "ts = ts1" using assms(3) i e
    by (auto simp: sdbus_names_request_def)
  then show ?thesis using names_ok_update [of r1 i e ts1] update_feed [of r1 i e ts1] int feed by simp
qed

lemma release_feed:
  assumes "names_ok r" "sdbus_names_release r c n = (r', rc, ts)"
  shows "names_ok r' \<and> own (nm_names r') = replay ts (own (nm_names r)) \<and> truthful ts (own (nm_names r))"
proof (cases "name_find r n")
  case None
  then show ?thesis using assms by (simp add: sdbus_names_release_def)
next
  case (Some i)
  let ?e = "nm_names r ! i"
  have i: "i < length (nm_names r)" using first_index_SomeD [OF Some [unfolded name_find_def]] by simp
  then have ok: "ent_ok ?e" using assms(1) by (simp add: names_ok_def)
  show ?thesis
  proof (cases "holder_index ?e c")
    case None
    then show ?thesis using assms Some by (auto simp: sdbus_names_release_def Let_def split: if_splits)
  next
    case (Some idx)
    obtain e' ts1 where d: "drop_holder idx c ?e = (e', ts1)" by fastforce
    note feed = drop_holder_feed [OF ok Some d]
    have "r' = r \<and> ts = [] \<or> r' = r\<lparr>nm_names := (nm_names r)[i := e']\<rparr> \<and> ts = ts1"
      using assms(2) Some \<open>name_find r n = Some i\<close> d
      by (auto simp: sdbus_names_release_def Let_def split: if_splits)
    then show ?thesis using names_ok_update [of r i e' ts1] update_feed [of r i e' ts1] assms(1) i feed
      by auto
  qed
qed

lemma disconnect_feed:
  assumes "names_ok r" "length (nm_names r) \<le> mx" "sdbus_names_disconnect r c mx = (r', ts)"
  shows "names_ok r' \<and> own (nm_names r') = replay ts (own (nm_names r)) \<and> truthful ts (own (nm_names r)) \<and>
    (\<forall>e\<in>set (nm_names r'). \<not> ent_held_by c e)"
proof -
  obtain es us where d: "disconnect_ents c mx (nm_names r) = (es, us)" by fastforce
  have "nm_names r' = es" "ts = us" using assms(3) d by (auto simp: sdbus_names_disconnect_def)
  then show ?thesis using disconnect_ents_feed [OF _ _ assms(2) d] assms(1) by (auto simp: names_ok_def)
qed

section \<open>A registry whose announcements can be followed\<close>

text \<open>The contract between the registry and those who listen to it: every step keeps the
  invariant, its transitions are truthful, and applying them to the owners before gives the owners
  after. A listener that knows the owners once knows them after any history.\<close>

locale owner_feed =
  fixes ok :: "'r \<Rightarrow> bool"
    and valid :: "'op \<Rightarrow> bool"
    and owner :: "'r \<Rightarrow> string \<Rightarrow> int"
    and step :: "'op \<Rightarrow> 'r \<Rightarrow> 'r \<times> sdbus_transition list"
  assumes step_ok: "ok r \<Longrightarrow> valid x \<Longrightarrow> ok (fst (step x r))"
    and step_owner: "ok r \<Longrightarrow> valid x \<Longrightarrow> owner (fst (step x r)) = replay (snd (step x r)) (owner r)"
    and step_truthful: "ok r \<Longrightarrow> valid x \<Longrightarrow> truthful (snd (step x r)) (owner r)"
begin

fun run :: "'op list \<Rightarrow> 'r \<Rightarrow> 'r \<times> sdbus_transition list" where
  "run [] r = (r, [])"
| "run (x # xs) r = (let (r1, ts) = step x r; (r2, us) = run xs r1 in (r2, ts @ us))"

lemma run_ok: "ok r \<Longrightarrow> list_all valid xs \<Longrightarrow> ok (fst (run xs r))"
proof (induction xs arbitrary: r)
  case (Cons x xs)
  then show ?case using Cons.IH [of "fst (step x r)"] step_ok [of r x] by (simp add: split_beta)
qed simp

lemma run_follows:
  "ok r \<Longrightarrow> list_all valid xs \<Longrightarrow>
     owner (fst (run xs r)) = replay (snd (run xs r)) (owner r) \<and> truthful (snd (run xs r)) (owner r)"
proof (induction xs arbitrary: r)
  case (Cons x xs)
  then show ?case
    using Cons.IH [of "fst (step x r)"] step_ok [of r x] step_owner [of r x] step_truthful [of r x]
    by (simp add: split_beta)
qed simp

end

text \<open>The operations the broker calls: the driver's RequestName, ReleaseName and Hello, and the
  disconnect, whose buffer the broker sizes to the number of entries.\<close>

datatype name_op = NRequest int string u32 | NRelease int string | NDisconnect int | NHello int

fun name_step :: "name_op \<Rightarrow> sdbus_names \<Rightarrow> sdbus_names \<times> sdbus_transition list" where
  "name_step (NRequest c n f) r = (let (r', rc, ts) = sdbus_names_request r c n f in (r', ts))"
| "name_step (NRelease c n) r = (let (r', rc, ts) = sdbus_names_release r c n in (r', ts))"
| "name_step (NDisconnect c) r = sdbus_names_disconnect r c (length (nm_names r))"
| "name_step (NHello c) r = (let (r', u) = sdbus_names_alloc_unique r c in (r', []))"

fun name_op_conn :: "name_op \<Rightarrow> int" where
  "name_op_conn (NRequest c n f) = c"
| "name_op_conn (NRelease c n) = c"
| "name_op_conn (NDisconnect c) = c"
| "name_op_conn (NHello c) = c"

fun name_run :: "name_op list \<Rightarrow> sdbus_names \<Rightarrow> sdbus_names \<times> sdbus_transition list" where
  "name_run [] r = (r, [])"
| "name_run (x # xs) r = (let (r1, ts) = name_step x r; (r2, us) = name_run xs r1 in (r2, ts @ us))"

lemma name_step_feed:
  assumes "names_ok r" "0 \<le> name_op_conn x"
  shows "names_ok (fst (name_step x r)) \<and>
    sdbus_names_owner (fst (name_step x r)) = replay (snd (name_step x r)) (sdbus_names_owner r) \<and>
    truthful (snd (name_step x r)) (sdbus_names_owner r)"
proof -
  have o: "sdbus_names_owner s = own (nm_names s)" for s by (simp add: fun_eq_iff sdbus_names_owner_own)
  show ?thesis
  proof (cases x)
    case (NRequest c n f)
    obtain r' rc ts where "sdbus_names_request r c n f = (r', rc, ts)" by (metis prod_cases3)
    then show ?thesis using assms NRequest request_feed [of r c n f r' rc ts] by (simp add: o)
  next
    case (NRelease c n)
    obtain r' rc ts where "sdbus_names_release r c n = (r', rc, ts)" by (metis prod_cases3)
    then show ?thesis using assms NRelease release_feed [of r c n r' rc ts] by (simp add: o)
  next
    case (NDisconnect c)
    obtain r' ts where "sdbus_names_disconnect r c (length (nm_names r)) = (r', ts)" by fastforce
    then show ?thesis using assms NDisconnect disconnect_feed [of r "length (nm_names r)" c r' ts]
      by (simp add: o)
  next
    case (NHello c)
    then show ?thesis using assms by (simp add: o names_ok_def sdbus_names_alloc_unique_def Let_def)
  qed
qed

interpretation registry: owner_feed names_ok "\<lambda>x. 0 \<le> name_op_conn x" sdbus_names_owner name_step
  by unfold_locales (use name_step_feed in blast)+

lemma registry_run: "registry.run xs r = name_run xs r"
  by (induction xs arbitrary: r) (simp_all add: split_beta)

section \<open>Unique names\<close>

text \<open>The unique names a history hands out, in order.\<close>

fun hello_names :: "name_op list \<Rightarrow> sdbus_names \<Rightarrow> string list" where
  "hello_names [] r = []"
| "hello_names (x # xs) r =
     (case x of NHello c \<Rightarrow> [snd (sdbus_names_alloc_unique r c)] | _ \<Rightarrow> []) @ hello_names xs (fst (name_step x r))"

definition is_hello :: "name_op \<Rightarrow> bool" where
  "is_hello x \<longleftrightarrow> (case x of NHello c \<Rightarrow> True | _ \<Rightarrow> False)"

lemma name_step_next_unique:
  "next_unique (fst (name_step x r)) = (if is_hello x then next_unique r + 1 else next_unique r)"
  by (cases x)
     (auto simp: is_hello_def sdbus_names_request_def name_intern_def sdbus_names_release_def Let_def
        sdbus_names_disconnect_def sdbus_names_alloc_unique_def split: prod.splits option.splits if_splits)

lemma show_nat_inj: "show_nat m = show_nat n \<Longrightarrow> m = n"
  using scan_digits_show_nat [of m "[]"] scan_digits_show_nat [of n "[]"] by simp

lemma hello_names_range:
  "unat (next_unique r) + length xs < 2 ^ 32 \<Longrightarrow>
     \<exists>k\<le>length xs. hello_names xs r =
       map (\<lambda>j. '':1.'' @ show_nat j) [unat (next_unique r)..<unat (next_unique r) + k]"
proof (induction xs arbitrary: r)
  case (Cons x xs)
  let ?r = "fst (name_step x r)"
  have lt: "unat (next_unique r) + 1 < 2 ^ 32" using Cons.prems by simp
  have un: "unat (next_unique r + 1) = unat (next_unique r) + 1"
    using lt by (simp add: unat_word_ariths)
  show ?case
  proof (cases "is_hello x")
    case True
    then have nu: "unat (next_unique ?r) = unat (next_unique r) + 1"
      using un by (simp add: name_step_next_unique)
    obtain k where k: "k \<le> length xs" "hello_names xs ?r =
        map (\<lambda>j. '':1.'' @ show_nat j) [unat (next_unique ?r)..<unat (next_unique ?r) + k]"
      using Cons.IH [of ?r] Cons.prems nu by auto
    have "hello_names (x # xs) r = ('':1.'' @ show_nat (unat (next_unique r))) # hello_names xs ?r"
      using True by (auto simp: is_hello_def sdbus_names_alloc_unique_def Let_def split: name_op.splits)
    also have "\<dots> = map (\<lambda>j. '':1.'' @ show_nat j) [unat (next_unique r)..<unat (next_unique r) + Suc k]"
      using k(2) nu by (simp add: upt_conv_Cons del: upt_Suc)
    finally show ?thesis using k(1) by (intro exI [of _ "Suc k"]) simp
  next
    case False
    then have nu: "next_unique ?r = next_unique r" by (simp add: name_step_next_unique)
    then obtain k where "k \<le> length xs" "hello_names xs ?r =
        map (\<lambda>j. '':1.'' @ show_nat j) [unat (next_unique r)..<unat (next_unique r) + k]"
      using Cons.IH [of ?r] Cons.prems by auto
    then show ?thesis using False by (intro exI [of _ k]) (auto simp: is_hello_def split: name_op.splits)
  qed
qed simp

text \<open>A departed connection has no unique name any more, since a connection gets one at most.\<close>

definition uniques_ok :: "sdbus_names \<Rightarrow> bool" where
  "uniques_ok r \<longleftrightarrow> distinct (map ue_conn (nm_uniques r))"

lemma set_swap_remove:
  assumes "i < length xs"
  shows "set (swap_remove i xs) \<subseteq> set (take i xs @ drop (Suc i) xs)"
  by (rule swap_remove_split [OF assms]) auto

lemma forget_unique_gone:
  assumes "distinct (map ue_conn us)"
  shows "c \<notin> ue_conn ` set (forget_unique c us)"
proof (cases "first_index (\<lambda>u. ue_conn u = c) us")
  case None
  then have "forget_unique c us = us" by (simp add: forget_unique_def del: first_index_None)
  then show ?thesis using None by auto
next
  case (Some i)
  note i = first_index_SomeD [OF Some]
  have "us = take i us @ us ! i # drop (Suc i) us" using i by (simp add: id_take_nth_drop)
  then have "distinct (map ue_conn (take i us @ us ! i # drop (Suc i) us))" using assms by simp
  then have "c \<notin> ue_conn ` set (take i us @ drop (Suc i) us)" using i by auto
  then show ?thesis using set_swap_remove [of i us] i Some by (auto simp: forget_unique_def)
qed

section \<open>Properties\<close>

text \<open>C29. Whatever sequence of requests, releases, disconnects and Hellos the bus serves, a listener
  that starts with no owners and applies the announced transitions in order knows exactly the owner
  the registry has for every name, and every announced transition is real: its old owner is the owner
  at that moment and its new owner a different one.\<close>

theorem registry_announces_owners:
  assumes "\<And>x. x \<in> set xs \<Longrightarrow> 0 \<le> name_op_conn x"
    and "name_run xs sdbus_names_new = (r, ts)"
  shows "sdbus_names_owner r = replay ts (\<lambda>n. -1) \<and> truthful ts (\<lambda>n. -1)"
proof -
  have o: "sdbus_names_owner sdbus_names_new = (\<lambda>n. -1)"
    by (simp add: fun_eq_iff sdbus_names_owner_own sdbus_names_new_def)
  have "list_all (\<lambda>x. 0 \<le> name_op_conn x) xs" using assms(1) by (auto simp: list_all_iff)
  then show ?thesis using registry.run_follows [of sdbus_names_new xs] names_ok_new assms(2) o
    by (simp add: registry_run)
qed

theorem registry_announces_owners_witness:
  "let (r, ts) = name_run [NRequest 1 ''a.b'' 1, NRequest 2 ''a.b'' 0, NRequest 3 ''a.b'' 2, NDisconnect 3]
        sdbus_names_new
   in length ts = 3 \<and> sdbus_names_owner r = replay ts (\<lambda>n. -1) \<and> sdbus_names_owner r ''a.b'' = 1"
proof -
  let ?xs = "[NRequest 1 ''a.b'' 1, NRequest 2 ''a.b'' 0, NRequest 3 ''a.b'' 2, NDisconnect 3]"
  have "length (snd (name_run ?xs sdbus_names_new)) = 3 \<and>
      sdbus_names_owner (fst (name_run ?xs sdbus_names_new)) ''a.b'' = 1" by code_simp
  moreover have "0 \<le> name_op_conn x" if "x \<in> set ?xs" for x using that by auto
  ultimately show ?thesis
    using registry_announces_owners [of ?xs "fst (name_run ?xs sdbus_names_new)"
        "snd (name_run ?xs sdbus_names_new)"] by (auto simp: split_beta)
qed



text \<open>C39. No unique name is handed out twice in the first 2^32 - 2 operations of a bus, not even
  after the connection that had it is gone; the counter wraps only after that.\<close>

theorem unique_names_not_reissued:
  assumes "length xs < 2 ^ 32 - 1"
  shows "distinct (hello_names xs sdbus_names_new)"
proof -
  have "unat (next_unique sdbus_names_new) + length xs < 2 ^ 32"
    using assms by (simp add: sdbus_names_new_def)
  then show ?thesis using hello_names_range [of sdbus_names_new xs]
    by (auto simp: distinct_map inj_on_def dest: show_nat_inj)
qed

theorem unique_names_not_reissued_witness:
  "hello_names [NHello 1, NDisconnect 1, NHello 1] sdbus_names_new = ['':1.1'', '':1.2''] \<and>
   distinct (hello_names [NHello 1, NDisconnect 1, NHello 1] sdbus_names_new)"
proof -
  have "hello_names [NHello 1, NDisconnect 1, NHello 1] sdbus_names_new = ['':1.1'', '':1.2'']" by code_simp
  then show ?thesis
    using unique_names_not_reissued [of "[NHello 1, NDisconnect 1, NHello 1]"] by simp
qed

end
