(* ===== verification/SD_Policy.thy ===== *)
theory SD_Policy
  imports SI_Prelude
begin

text \<open>
  The policy engine of the message bus, \<^verbatim>\<open>src/sdbus_policy.h\<close>: the parser of the dissolved policy
  text, the test of one rule against a request, and the verdict. The user and group data bases
  (\<^verbatim>\<open>getpwnam\<close>, \<^verbatim>\<open>getgrnam\<close>) are the parameters \<^verbatim>\<open>uid_of\<close> and \<^verbatim>\<open>gid_of\<close>, \<^verbatim>\<open>-1\<close> for an unknown
  name; the verdict \<^verbatim>\<open>"allow"\<close> is \<^const>\<open>True\<close>.
\<close>

section \<open>Data\<close>

record sdbus_req =
  rq_op :: "string option"
  rq_uid :: int
  rq_gids :: "int list"
  rq_interface :: "string option"
  rq_member :: "string option"
  rq_msgtype :: "string option"
  rq_path :: "string option"
  rq_destination :: "string option"
  rq_dest_names :: "string list"
  rq_name :: "string option"
  rq_has_reply_serial :: bool
  rq_sender_name :: "string option"
  rq_sender_names :: "string list"

definition sdbus_req_zero :: sdbus_req where
  "sdbus_req_zero = \<lparr>rq_op = None, rq_uid = 0, rq_gids = [], rq_interface = None, rq_member = None,
     rq_msgtype = None, rq_path = None, rq_destination = None, rq_dest_names = [], rq_name = None,
     rq_has_reply_serial = False, rq_sender_name = None, rq_sender_names = []\<rparr>"

type_synonym sdbus_pred = "string \<times> string"

record sdbus_rule =
  ru_allow :: bool
  ru_preds :: "sdbus_pred list"

datatype sdbus_ctx_kind = CTX_DEFAULT | CTX_MANDATORY | CTX_USER | CTX_GROUP

record sdbus_ctx_sel =
  wildcard :: bool
  selector_id :: int

record sdbus_ctx =
  cx_kind :: sdbus_ctx_kind
  cx_sel :: sdbus_ctx_sel
  cx_rules :: "sdbus_rule list"

record sdbus_policy =
  po_ctxs :: "sdbus_ctx list"
  has_recv_rule :: bool

section \<open>The parser\<close>

definition sdbus_trim :: "string \<Rightarrow> string" where
  "sdbus_trim s = rev (dropWhile c_isspace (rev (dropWhile c_isspace s)))"

definition sdbus_is_int :: "string \<Rightarrow> int option" where
  "sdbus_is_int s = (if s = [] then None else (let (v, r) = strtol s in if r = [] then Some v else None))"

definition resolve_sel ::
    "(string \<Rightarrow> int) \<Rightarrow> (string \<Rightarrow> int) \<Rightarrow> sdbus_ctx_kind \<Rightarrow> string \<Rightarrow> sdbus_ctx_sel" where
  "resolve_sel uid_of gid_of kind selector =
     (if kind = CTX_DEFAULT \<or> kind = CTX_MANDATORY \<or> selector = []
      then \<lparr>wildcard = True, selector_id = -1\<rparr>
      else \<lparr>wildcard = False, selector_id =
             (case sdbus_is_int selector of
                Some v \<Rightarrow> c_int v
              | None \<Rightarrow> if kind = CTX_USER then uid_of selector else gid_of selector)\<rparr>)"

text \<open>\<^verbatim>\<open>strchr(s, c)\<close> used as Python's \<^verbatim>\<open>partition\<close>: the part before the first \<^verbatim>\<open>c\<close> and the part
  after it, empty when there is none; and the split at every \<^verbatim>\<open>c\<close>.\<close>

definition partition_at :: "char \<Rightarrow> string \<Rightarrow> string \<times> string" where
  "partition_at c s = (takeWhile (\<lambda>x. x \<noteq> c) s, tl (dropWhile (\<lambda>x. x \<noteq> c) s))"

fun split_on :: "char \<Rightarrow> string \<Rightarrow> string list" where
  "split_on c [] = [[]]"
| "split_on c (x # s) =
     (if x = c then [] # split_on c s
      else (case split_on c s of [] \<Rightarrow> [[x]] | p # ps \<Rightarrow> (x # p) # ps))"

definition parse_pred :: "string \<Rightarrow> sdbus_pred" where
  "parse_pred pt = (let (a, v) = partition_at (CHR '':'') pt in (sdbus_trim a, sdbus_trim v))"

definition parse_preds :: "string \<Rightarrow> sdbus_pred list" where
  "parse_preds value =
     map parse_pred (filter (\<lambda>pt. pt \<noteq> []) (map sdbus_trim (split_on (CHR '','') value)))"

definition ctx_kind_of :: "string \<Rightarrow> sdbus_ctx_kind option" where
  "ctx_kind_of k =
     (if k = ''default'' then Some CTX_DEFAULT
      else if k = ''mandatory'' then Some CTX_MANDATORY
      else if k = ''user'' then Some CTX_USER
      else if k = ''group'' then Some CTX_GROUP
      else None)"

definition add_rule :: "sdbus_rule \<Rightarrow> sdbus_ctx list \<Rightarrow> sdbus_ctx list" where
  "add_rule r cs = butlast cs @ [(last cs)\<lparr>cx_rules := cx_rules (last cs) @ [r]\<rparr>]"

definition policy_line ::
    "(string \<Rightarrow> int) \<Rightarrow> (string \<Rightarrow> int) \<Rightarrow> string \<Rightarrow> sdbus_policy \<Rightarrow> sdbus_policy option" where
  "policy_line uid_of gid_of line pol =
     (let l = sdbus_trim (takeWhile (\<lambda>c. c \<noteq> CHR ''#'') line);
          (k, v) = partition_at (CHR ''='') l;
          key = sdbus_trim k; value = sdbus_trim v
      in if l = [] then Some pol
         else if key = ''context'' then
           (let (ks, ss) = partition_at (CHR '':'') value in
            case ctx_kind_of (sdbus_trim ks) of
              None \<Rightarrow> None
            | Some kind \<Rightarrow>
                Some (pol\<lparr>po_ctxs := po_ctxs pol @
                  [\<lparr>cx_kind = kind, cx_sel = resolve_sel uid_of gid_of kind (sdbus_trim ss), cx_rules = []\<rparr>]\<rparr>))
         else if key = ''allow'' \<or> key = ''deny'' then
           (if po_ctxs pol = [] then None
            else (let ps = parse_preds value in
              Some (pol\<lparr>po_ctxs := add_rule \<lparr>ru_allow = (key = ''allow''), ru_preds = ps\<rparr> (po_ctxs pol),
                    has_recv_rule := has_recv_rule pol \<or> list_ex (\<lambda>p. starts_with ''receive_'' (fst p)) ps\<rparr>)))
         else None)"

fun policy_lines ::
    "(string \<Rightarrow> int) \<Rightarrow> (string \<Rightarrow> int) \<Rightarrow> string list \<Rightarrow> sdbus_policy \<Rightarrow> sdbus_policy option" where
  "policy_lines uid_of gid_of [] pol = Some pol"
| "policy_lines uid_of gid_of (l # ls) pol =
     (case policy_line uid_of gid_of l pol of
        None \<Rightarrow> None
      | Some pol' \<Rightarrow> policy_lines uid_of gid_of ls pol')"

definition sdbus_policy_parse ::
    "(string \<Rightarrow> int) \<Rightarrow> (string \<Rightarrow> int) \<Rightarrow> string \<Rightarrow> sdbus_policy option" where
  "sdbus_policy_parse uid_of gid_of text =
     policy_lines uid_of gid_of (split_on (CHR 0x0A) text) \<lparr>po_ctxs = [], has_recv_rule = False\<rparr>"

definition SDBUS_NO_POLICY_FILE_DEFAULT :: string where
  "SDBUS_NO_POLICY_FILE_DEFAULT =
     ''context = default'' @ [CHR 0x0A] @ ''allow = send_destination:*'' @ [CHR 0x0A] @
     ''allow = send_type:signal'' @ [CHR 0x0A] @ ''allow = own:*'' @ [CHR 0x0A]"

section \<open>The verdict\<close>

definition field_matches :: "string option \<Rightarrow> string \<Rightarrow> bool" where
  "field_matches field value = (if value = ''*'' then field \<noteq> None else field = Some value)"

text \<open>Membership in the owned names, the raw name standing in when there are none.\<close>

definition names_match :: "string list \<Rightarrow> string option \<Rightarrow> string \<Rightarrow> bool" where
  "names_match names raw value =
     (if value = ''*'' then names \<noteq> [] \<or> raw \<noteq> None
      else value \<in> set names \<or> names = [] \<and> raw = Some value)"

definition pred_matches :: "sdbus_req \<Rightarrow> sdbus_pred \<Rightarrow> bool" where
  "pred_matches req p =
     (let attr = fst p; value = snd p in
      if attr = ''user'' \<or> attr = ''group'' then value = ''*''
      else if attr = ''own'' then
        rq_op req = Some ''own'' \<and> (value = ''*'' \<or> value = (case rq_name req of None \<Rightarrow> [] | Some n \<Rightarrow> n))
      else if attr = ''own_prefix'' then
        rq_op req = Some ''own'' \<and> starts_with value (case rq_name req of None \<Rightarrow> [] | Some n \<Rightarrow> n)
      else if attr = ''send_destination'' then
        rq_op req = Some ''send'' \<and> names_match (rq_dest_names req) (rq_destination req) value
      else if attr = ''send_interface'' then rq_op req = Some ''send'' \<and> field_matches (rq_interface req) value
      else if attr = ''send_member'' then rq_op req = Some ''send'' \<and> field_matches (rq_member req) value
      else if attr = ''send_type'' then rq_op req = Some ''send'' \<and> field_matches (rq_msgtype req) value
      else if attr = ''send_path'' then rq_op req = Some ''send'' \<and> field_matches (rq_path req) value
      else if attr = ''receive_sender'' then
        rq_op req = Some ''receive'' \<and> names_match (rq_sender_names req) (rq_sender_name req) value
      else if attr = ''receive_interface'' then rq_op req = Some ''receive'' \<and> field_matches (rq_interface req) value
      else if attr = ''receive_member'' then rq_op req = Some ''receive'' \<and> field_matches (rq_member req) value
      else if attr = ''receive_type'' then rq_op req = Some ''receive'' \<and> field_matches (rq_msgtype req) value
      else if attr = ''receive_path'' then rq_op req = Some ''receive'' \<and> field_matches (rq_path req) value
      else False)"

definition rule_matches :: "sdbus_req \<Rightarrow> sdbus_rule \<Rightarrow> bool" where
  "rule_matches req rule = list_all (pred_matches req) (ru_preds rule)"

definition sdbus_applicable :: "sdbus_req \<Rightarrow> sdbus_ctx \<Rightarrow> bool" where
  "sdbus_applicable req ctx =
     (case cx_kind ctx of
        CTX_DEFAULT \<Rightarrow> True
      | CTX_MANDATORY \<Rightarrow> True
      | CTX_USER \<Rightarrow> 0 \<le> rq_uid req \<and> (wildcard (cx_sel ctx) \<or> selector_id (cx_sel ctx) = rq_uid req)
      | CTX_GROUP \<Rightarrow> rq_gids req \<noteq> [] \<and>
          (wildcard (cx_sel ctx) \<or> selector_id (cx_sel ctx) \<in> set (rq_gids req)))"

definition is_requested_reply :: "sdbus_req \<Rightarrow> bool" where
  "is_requested_reply req \<longleftrightarrow> rq_op req = Some ''send'' \<and> rq_has_reply_serial req \<and>
     (rq_msgtype req = Some ''method_return'' \<or> rq_msgtype req = Some ''error'')"

fun eval_rules :: "sdbus_req \<Rightarrow> sdbus_rule list \<Rightarrow> bool \<Rightarrow> bool" where
  "eval_rules req [] verdict = verdict"
| "eval_rules req (r # rs) verdict =
     eval_rules req rs (if rule_matches req r then ru_allow r else verdict)"

fun eval_ctxs :: "sdbus_req \<Rightarrow> sdbus_ctx_kind \<Rightarrow> sdbus_ctx list \<Rightarrow> bool \<Rightarrow> bool" where
  "eval_ctxs req kind [] verdict = verdict"
| "eval_ctxs req kind (c # cs) verdict =
     eval_ctxs req kind cs
       (if cx_kind c \<noteq> kind \<or> \<not> sdbus_applicable req c then verdict
        else eval_rules req (cx_rules c) verdict)"

definition ctx_order :: "sdbus_ctx_kind list" where
  "ctx_order = [CTX_DEFAULT, CTX_GROUP, CTX_USER, CTX_MANDATORY]"

definition sdbus_policy_eval :: "sdbus_policy \<Rightarrow> sdbus_req \<Rightarrow> bool" where
  "sdbus_policy_eval pol req =
     (is_requested_reply req \<or> fold (\<lambda>k. eval_ctxs req k (po_ctxs pol)) ctx_order False)"

section \<open>The verdict as the last word of an ordered rule list\<close>

definition kind_rules :: "sdbus_req \<Rightarrow> sdbus_policy \<Rightarrow> sdbus_ctx_kind \<Rightarrow> sdbus_rule list" where
  "kind_rules req pol k =
     concat (map cx_rules (filter (\<lambda>c. cx_kind c = k \<and> sdbus_applicable req c) (po_ctxs pol)))"

definition last_word :: "sdbus_req \<Rightarrow> sdbus_rule list \<Rightarrow> bool \<Rightarrow> bool" where
  "last_word req rs dflt =
     (case rev (filter (rule_matches req) rs) of [] \<Rightarrow> dflt | r # _ \<Rightarrow> ru_allow r)"

lemma last_word_Nil [simp]: "last_word req [] d = d"
  by (simp add: last_word_def)

lemma last_word_Cons [simp]:
  "last_word req (r # rs) d = last_word req rs (if rule_matches req r then ru_allow r else d)"
  by (auto simp: last_word_def split: list.splits)

lemma last_word_append: "last_word req (rs @ us) d = last_word req us (last_word req rs d)"
  by (induction rs arbitrary: d) simp_all

lemma eval_rules_last_word: "eval_rules req rs v = last_word req rs v"
  by (induction rs arbitrary: v) simp_all

lemma eval_ctxs_last_word:
  "eval_ctxs req k cs v =
     last_word req (concat (map cx_rules (filter (\<lambda>c. cx_kind c = k \<and> sdbus_applicable req c) cs))) v"
proof (induction cs arbitrary: v)
  case (Cons c cs)
  then show ?case by (auto simp: eval_rules_last_word last_word_append)
qed simp

lemma policy_eval_last_word:
  "sdbus_policy_eval pol req \<longleftrightarrow> is_requested_reply req \<or>
     last_word req (kind_rules req pol CTX_DEFAULT @ kind_rules req pol CTX_GROUP @
       kind_rules req pol CTX_USER @ kind_rules req pol CTX_MANDATORY) False"
  by (simp add: sdbus_policy_eval_def ctx_order_def eval_ctxs_last_word last_word_append kind_rules_def)

lemma last_word_matches:
  "\<exists>r\<in>set rs. rule_matches req r \<Longrightarrow> last_word req rs d = last_word req rs d'"
  by (induction rs arbitrary: d d') auto

section \<open>Properties\<close>

text \<open>C37. The verdict is the last word of the rules in the order default, group, user, mandatory: apart
  from requested replies, which are always allowed, a request is allowed exactly when the last rule in
  that order whose context applies and whose predicates all hold says allow, and denied when there is
  none. In particular, when some mandatory rule matches, the mandatory rules alone decide.\<close>

theorem policy_last_match_wins:
  assumes "\<not> is_requested_reply req"
  shows "(sdbus_policy_eval pol req \<longleftrightarrow>
      last_word req (concat (map (kind_rules req pol) [CTX_DEFAULT, CTX_GROUP, CTX_USER, CTX_MANDATORY])) False) \<and>
    ((\<exists>r\<in>set (kind_rules req pol CTX_MANDATORY). rule_matches req r) \<longrightarrow>
      sdbus_policy_eval pol req = last_word req (kind_rules req pol CTX_MANDATORY) False)"
proof -
  have "sdbus_policy_eval pol req = last_word req (kind_rules req pol CTX_MANDATORY) False"
    if "\<exists>r\<in>set (kind_rules req pol CTX_MANDATORY). rule_matches req r"
    using assms last_word_matches [OF that] by (simp add: policy_eval_last_word last_word_append)
  then show ?thesis using assms by (simp add: policy_eval_last_word)
qed

theorem policy_last_match_wins_witness:
  "let pol = the (sdbus_policy_parse (\<lambda>n. -1) (\<lambda>n. -1)
        (''context=mandatory'' @ [CHR 0x0A] @ ''deny=own:a.b'' @ [CHR 0x0A] @
         ''context=user:7'' @ [CHR 0x0A] @ ''allow=own:*''));
       req = sdbus_req_zero\<lparr>rq_op := Some ''own'', rq_uid := 7, rq_name := Some ''a.b''\<rparr>
   in \<not> sdbus_policy_eval pol req \<and> sdbus_policy_eval pol (req\<lparr>rq_name := Some ''a.c''\<rparr>)"
proof -
  define pol where "pol = the (sdbus_policy_parse (\<lambda>n. -1) (\<lambda>n. -1)
        (''context=mandatory'' @ [CHR 0x0A] @ ''deny=own:a.b'' @ [CHR 0x0A] @
         ''context=user:7'' @ [CHR 0x0A] @ ''allow=own:*''))"
  define req where "req = sdbus_req_zero\<lparr>rq_op := Some ''own'', rq_uid := 7, rq_name := Some ''a.b''\<rparr>"
  have a: "\<not> is_requested_reply req" "list_ex (rule_matches req) (kind_rules req pol CTX_MANDATORY)"
    "\<not> last_word req (kind_rules req pol CTX_MANDATORY) False"
    unfolding req_def pol_def by code_simp+
  have b: "\<not> is_requested_reply (req\<lparr>rq_name := Some ''a.c''\<rparr>)"
    "last_word (req\<lparr>rq_name := Some ''a.c''\<rparr>) (concat (map (kind_rules (req\<lparr>rq_name := Some ''a.c''\<rparr>) pol)
       [CTX_DEFAULT, CTX_GROUP, CTX_USER, CTX_MANDATORY])) False"
    unfolding req_def pol_def by code_simp+
  have "\<exists>r\<in>set (kind_rules req pol CTX_MANDATORY). rule_matches req r" using a(2) by (simp add: list_ex_iff)
  then have "\<not> sdbus_policy_eval pol req" using policy_last_match_wins [OF a(1), of pol] a(3) by blast
  moreover have "sdbus_policy_eval pol (req\<lparr>rq_name := Some ''a.c''\<rparr>)"
    using policy_last_match_wins [OF b(1), of pol] b(2) by blast
  ultimately show ?thesis unfolding Let_def req_def pol_def by blast
qed

text \<open>The policy used when no policy file is given parses, has no receive rule, and denies nothing
  that a session bus needs: every message with a destination, every signal, with or without a
  destination, and every request to own a name is allowed, whoever asks.\<close>

theorem default_policy_allows:
  assumes "sdbus_policy_parse uid_of gid_of SDBUS_NO_POLICY_FILE_DEFAULT = Some pol"
    and "rq_op req = Some ''send'' \<and> (rq_destination req \<noteq> None \<or> rq_msgtype req = Some ''signal'') \<or>
      rq_op req = Some ''own''"
  shows "sdbus_policy_eval pol req \<and> \<not> has_recv_rule pol"
proof -
  have p: "sdbus_policy_parse uid_of gid_of SDBUS_NO_POLICY_FILE_DEFAULT =
     Some \<lparr>po_ctxs = [\<lparr>cx_kind = CTX_DEFAULT, cx_sel = \<lparr>wildcard = True, selector_id = -1\<rparr>,
        cx_rules = [\<lparr>ru_allow = True, ru_preds = [(''send_destination'', ''*'')]\<rparr>,
          \<lparr>ru_allow = True, ru_preds = [(''send_type'', ''signal'')]\<rparr>,
          \<lparr>ru_allow = True, ru_preds = [(''own'', ''*'')]\<rparr>]\<rparr>], has_recv_rule = False\<rparr>"
    by code_simp
  then show ?thesis using assms
    by (auto simp: policy_eval_last_word kind_rules_def sdbus_applicable_def rule_matches_def
        pred_matches_def names_match_def field_matches_def)
qed

theorem default_policy_allows_witness:
  "\<exists>pol. sdbus_policy_parse (\<lambda>n. -1) (\<lambda>n. -1) SDBUS_NO_POLICY_FILE_DEFAULT = Some pol \<and>
     sdbus_policy_eval pol (sdbus_req_zero\<lparr>rq_op := Some ''send'', rq_msgtype := Some ''signal''\<rparr>)"
proof -
  have "sdbus_policy_parse (\<lambda>n. -1) (\<lambda>n. -1) SDBUS_NO_POLICY_FILE_DEFAULT \<noteq> None" by code_simp
  then obtain pol where p: "sdbus_policy_parse (\<lambda>n. -1) (\<lambda>n. -1) SDBUS_NO_POLICY_FILE_DEFAULT = Some pol" by auto
  show ?thesis
    using default_policy_allows [OF p, of "sdbus_req_zero\<lparr>rq_op := Some ''send'', rq_msgtype := Some ''signal''\<rparr>"] p
    by auto
qed

end
