(* ===== verification/SD_Reply.thy ===== *)
theory SD_Reply
  imports SI_Prelude "HOL-Library.Multiset"
begin

text \<open>
  The pending-reply table of the message bus, \<^verbatim>\<open>src/sdbus_reply.h\<close>: which connection awaits the
  answer of which other one. The reading of the monotonic clock is an argument. Entries are never
  removed from the array, only marked dead and reused; what the table means is the multiset of its
  live entries, and the contract of the table is stated over that.
\<close>

section \<open>The table\<close>

definition SDBUS_REPLY_TIMEOUT_MS :: int where "SDBUS_REPLY_TIMEOUT_MS = 120000"

record sdbus_reply_ent =
  re_callee :: int
  re_caller :: int
  re_serial :: u32
  re_live :: bool
  re_deadline :: int

type_synonym sdbus_replies = "sdbus_reply_ent list"

definition sdbus_replies_record :: "sdbus_replies \<Rightarrow> int \<Rightarrow> u32 \<Rightarrow> int \<Rightarrow> int \<Rightarrow> sdbus_replies" where
  "sdbus_replies_record t callee serial caller now =
     (let e = \<lparr>re_callee = callee, re_caller = caller, re_serial = serial, re_live = True,
               re_deadline = now + SDBUS_REPLY_TIMEOUT_MS\<rparr>
      in case first_index (\<lambda>e. \<not> re_live e) t of
           Some i \<Rightarrow> t[i := e]
         | None \<Rightarrow> t @ [e])"

definition reply_answers :: "int \<Rightarrow> u32 \<Rightarrow> int \<Rightarrow> sdbus_reply_ent \<Rightarrow> bool" where
  "reply_answers from serial want e \<longleftrightarrow>
     re_live e \<and> re_callee e = from \<and> re_serial e = serial \<and> (want < 0 \<or> re_caller e = want)"

definition sdbus_replies_match ::
    "sdbus_replies \<Rightarrow> int \<Rightarrow> u32 \<Rightarrow> int \<Rightarrow> sdbus_replies \<times> int" where
  "sdbus_replies_match t from serial want =
     (case first_index (reply_answers from serial want) t of
        Some i \<Rightarrow> (t[i := (t ! i)\<lparr>re_live := False\<rparr>], re_caller (t ! i))
      | None \<Rightarrow> (t, -1))"

definition sdbus_replies_pending_on :: "sdbus_replies \<Rightarrow> int \<Rightarrow> int \<Rightarrow> nat \<Rightarrow> (int \<times> u32) list" where
  "sdbus_replies_pending_on t callee excpt mx =
     take mx (map (\<lambda>e. (re_caller e, re_serial e))
       (filter (\<lambda>e. re_live e \<and> re_callee e = callee \<and> re_caller e \<noteq> excpt) t))"

definition earlier_deadline :: "sdbus_reply_ent \<Rightarrow> int \<Rightarrow> int" where
  "earlier_deadline e best = (if re_live e \<and> (best < 0 \<or> re_deadline e < best) then re_deadline e else best)"

definition sdbus_replies_next_deadline :: "sdbus_replies \<Rightarrow> int" where
  "sdbus_replies_next_deadline t = fold earlier_deadline t (-1)"

fun sdbus_replies_reap_expired ::
    "sdbus_replies \<Rightarrow> int \<Rightarrow> nat \<Rightarrow> sdbus_replies \<times> (int \<times> u32) list" where
  "sdbus_replies_reap_expired [] now room = ([], [])"
| "sdbus_replies_reap_expired (e # t) now room =
     (if re_live e \<and> re_deadline e \<le> now
      then (let (t', out) = sdbus_replies_reap_expired t now (room - 1)
            in (e\<lparr>re_live := False\<rparr> # t', if 0 < room then (re_caller e, re_serial e) # out else out))
      else (let (t', out) = sdbus_replies_reap_expired t now room in (e # t', out)))"

definition sdbus_replies_purge :: "sdbus_replies \<Rightarrow> int \<Rightarrow> sdbus_replies" where
  "sdbus_replies_purge t c =
     map (\<lambda>e. if re_live e \<and> (re_caller e = c \<or> re_callee e = c) then e\<lparr>re_live := False\<rparr> else e) t"

section \<open>What the table means\<close>

type_synonym call = "int \<times> u32 \<times> int"

definition call_of :: "sdbus_reply_ent \<Rightarrow> call" where
  "call_of e = (re_callee e, re_serial e, re_caller e)"

definition pend :: "sdbus_replies \<Rightarrow> call multiset" where
  "pend t = image_mset call_of (mset (filter re_live t))"

lemma pend_Nil [simp]: "pend [] = {#}"
  by (simp add: pend_def)

lemma pend_Cons [simp]: "pend (e # t) = (if re_live e then add_mset (call_of e) (pend t) else pend t)"
  by (simp add: pend_def)

lemma pend_append [simp]: "pend (t @ u) = pend t + pend u"
  by (simp add: pend_def)

lemma call_of_live [simp]: "call_of (e\<lparr>re_live := b\<rparr>) = call_of e"
  by (simp add: call_of_def)

lemma pend_update_dead:
  "i < length t \<Longrightarrow> \<not> re_live (t ! i) \<Longrightarrow> re_live e \<Longrightarrow> pend (t[i := e]) = add_mset (call_of e) (pend t)"
proof (induction t arbitrary: i)
  case (Cons x t)
  then show ?case by (cases i) auto
qed simp

lemma pend_update_live:
  "i < length t \<Longrightarrow> re_live (t ! i) \<Longrightarrow> \<not> re_live e \<Longrightarrow>
     pend t = add_mset (call_of (t ! i)) (pend (t[i := e]))"
proof (induction t arbitrary: i)
  case (Cons x t)
  then show ?case by (cases i) (auto simp: add_mset_commute)
qed simp

lemma pend_record: "pend (sdbus_replies_record t c s k now) = add_mset (c, s, k) (pend t)"
proof (cases "first_index (\<lambda>e. \<not> re_live e) t")
  case None
  then show ?thesis by (simp add: sdbus_replies_record_def Let_def call_of_def del: first_index_None)
next
  case (Some i)
  then show ?thesis using first_index_SomeD [OF Some]
    by (simp add: sdbus_replies_record_def Let_def pend_update_dead call_of_def)
qed

lemma in_pend: "x \<in># pend t \<longleftrightarrow> (\<exists>e\<in>set t. re_live e \<and> call_of e = x)"
  by (auto simp: pend_def)

lemma pend_match:
  assumes "sdbus_replies_match t f s w = (t', k)"
  shows "k = -1 \<and> t' = t \<and> (\<forall>b. (f, s, b) \<in># pend t \<longrightarrow> \<not> (w < 0 \<or> b = w)) \<or>
    (w < 0 \<or> k = w) \<and> pend t = add_mset (f, s, k) (pend t')"
proof (cases "first_index (reply_answers f s w) t")
  case None
  then have "\<forall>e\<in>set t. \<not> reply_answers f s w e" by simp
  then have "\<forall>b. (f, s, b) \<in># pend t \<longrightarrow> \<not> (w < 0 \<or> b = w)"
    by (auto simp: in_pend reply_answers_def call_of_def)
  then show ?thesis using None assms by (simp add: sdbus_replies_match_def del: first_index_None)
next
  case (Some i)
  note i = first_index_SomeD [OF Some]
  have "pend t = add_mset (call_of (t ! i)) (pend t')"
    using pend_update_live [of i t "(t ! i)\<lparr>re_live := False\<rparr>"] i Some assms
    by (auto simp: sdbus_replies_match_def reply_answers_def)
  then show ?thesis using i Some assms
    by (auto simp: sdbus_replies_match_def reply_answers_def call_of_def)
qed

lemma pend_reap:
  "pend (fst (sdbus_replies_reap_expired t now room)) =
     image_mset call_of (mset (filter (\<lambda>e. re_live e \<and> now < re_deadline e) t))"
proof (induction t now room rule: sdbus_replies_reap_expired.induct)
  case (2 e t now room)
  then show ?case by (auto simp: split_beta)
qed simp

lemma pend_purge:
  "pend (sdbus_replies_purge t c) = filter_mset (\<lambda>(a, s, b). a \<noteq> c \<and> b \<noteq> c) (pend t)"
  by (induction t) (auto simp: sdbus_replies_purge_def call_of_def)

section \<open>The contract of a table of pending calls\<close>

locale pending_calls =
  fixes pending :: "'t \<Rightarrow> call multiset"
    and record_call :: "'t \<Rightarrow> int \<Rightarrow> u32 \<Rightarrow> int \<Rightarrow> int \<Rightarrow> 't"
    and match_reply :: "'t \<Rightarrow> int \<Rightarrow> u32 \<Rightarrow> int \<Rightarrow> 't \<times> int"
    and reap :: "'t \<Rightarrow> int \<Rightarrow> 't"
    and purge :: "'t \<Rightarrow> int \<Rightarrow> 't"
  assumes record_adds: "pending (record_call t c s k now) = add_mset (c, s, k) (pending t)"
    and match_takes: "match_reply t f s w = (t', k) \<Longrightarrow>
      k = -1 \<and> t' = t \<and> (\<forall>b. (f, s, b) \<in># pending t \<longrightarrow> \<not> (w < 0 \<or> b = w)) \<or>
      (w < 0 \<or> k = w) \<and> pending t = add_mset (f, s, k) (pending t')"
    and reap_only_removes: "pending (reap t now) \<subseteq># pending t"
    and purge_removes: "pending (purge t c) = filter_mset (\<lambda>(a, s, b). a \<noteq> c \<and> b \<noteq> c) (pending t)"
begin

lemma match_delivers:
  "match_reply t f s w = (t', k) \<Longrightarrow> 0 \<le> k \<Longrightarrow> pending t = add_mset (f, s, k) (pending t')"
  using match_takes [of t f s w t' k] by auto

lemma match_none:
  "match_reply t f s w = (t', k) \<Longrightarrow> k < 0 \<Longrightarrow> pending t' \<subseteq># pending t"
  using match_takes [of t f s w t' k] by (auto simp: subset_mset.less_imp_le)

lemma purge_only_removes: "pending (purge t c) \<subseteq># pending t"
  by (simp add: purge_removes)

end

section \<open>Histories\<close>

text \<open>What the broker does with the table, and the calls a history delivered a reply for.\<close>

datatype reply_op =
  RRecord int u32 int int
| RMatch int u32 int
| RReap int nat
| RPurge int

fun reply_step :: "reply_op \<Rightarrow> sdbus_replies \<Rightarrow> sdbus_replies \<times> call list" where
  "reply_step (RRecord c s k now) t = (sdbus_replies_record t c s k now, [])"
| "reply_step (RMatch f s w) t =
     (let (t', k) = sdbus_replies_match t f s w in (t', if k < 0 then [] else [(f, s, k)]))"
| "reply_step (RReap now room) t = (fst (sdbus_replies_reap_expired t now room), [])"
| "reply_step (RPurge c) t = (sdbus_replies_purge t c, [])"

fun reply_run :: "reply_op list \<Rightarrow> sdbus_replies \<Rightarrow> sdbus_replies \<times> call list" where
  "reply_run [] t = (t, [])"
| "reply_run (x # xs) t = (let (t1, d) = reply_step x t; (t2, e) = reply_run xs t1 in (t2, d @ e))"

fun recorded :: "reply_op list \<Rightarrow> call list" where
  "recorded [] = []"
| "recorded (RRecord c s k now # xs) = (c, s, k) # recorded xs"
| "recorded (x # xs) = recorded xs"

interpretation replies: pending_calls pend sdbus_replies_record sdbus_replies_match
  "\<lambda>t now. fst (sdbus_replies_reap_expired t now room)" sdbus_replies_purge for room
proof unfold_locales
  show "pend (fst (sdbus_replies_reap_expired t now room)) \<subseteq># pend t" for t now
    unfolding pend_reap unfolding pend_def mset_filter
    by (intro image_mset_subseteq_mono) (simp add: subseteq_mset_def)
qed (rule pend_record, erule pend_match, rule pend_purge)

lemma reply_step_conserves:
  assumes "reply_step x t = (t', d)"
  shows "mset d + pend t' \<subseteq># mset (recorded [x]) + pend t"
proof (cases x)
  case (RMatch f s w)
  obtain t1 k where m: "sdbus_replies_match t f s w = (t1, k)" by fastforce
  then show ?thesis using assms RMatch replies.match_delivers [OF m] replies.match_none [OF m]
    by (cases "k < 0") auto
next
  case (RReap now room)
  then show ?thesis using assms replies.reap_only_removes [of t now room] by auto
qed (use assms in \<open>auto simp: pend_record replies.purge_only_removes\<close>)

lemma recorded_Cons: "recorded (x # xs) = recorded [x] @ recorded xs"
  by (cases x) auto

lemma reply_run_conserves:
  "reply_run xs t = (t', d) \<Longrightarrow> mset d + pend t' \<subseteq># mset (recorded xs) + pend t"
proof (induction xs arbitrary: t t' d)
  case (Cons x xs)
  obtain t1 d1 where s: "reply_step x t = (t1, d1)" by fastforce
  obtain d2 where r: "reply_run xs t1 = (t', d2)" "d = d1 @ d2"
    using Cons.prems s by (auto split: prod.splits)
  have "mset d2 + pend t' \<subseteq># mset (recorded xs) + pend t1" using Cons.IH [OF r(1)] .
  then have "mset d + pend t' \<subseteq># mset (recorded xs) + (mset d1 + pend t1)"
    using r(2) by (simp add: ac_simps)
  also have "\<dots> \<subseteq># mset (recorded xs) + (mset (recorded [x]) + pend t)"
    using reply_step_conserves [OF s] by simp
  finally show ?case using recorded_Cons [of x xs] by (simp add: ac_simps)
qed simp

section \<open>Deadlines\<close>

definition live_deadlines :: "sdbus_replies \<Rightarrow> int list" where
  "live_deadlines t = map re_deadline (filter re_live t)"

lemma earlier_deadline_cases:
  "\<not> re_live e \<Longrightarrow> earlier_deadline e b = b"
  "re_live e \<Longrightarrow> b < 0 \<Longrightarrow> earlier_deadline e b = re_deadline e"
  "re_live e \<Longrightarrow> 0 \<le> b \<Longrightarrow> earlier_deadline e b = min b (re_deadline e)"
  by (simp_all add: earlier_deadline_def)

lemma next_deadline_fold:
  assumes "\<forall>d\<in>set (live_deadlines t). 0 \<le> d" "0 \<le> b" "r = fold earlier_deadline t b"
  shows "0 \<le> r \<and> r \<le> b \<and> (\<forall>d\<in>set (live_deadlines t). r \<le> d) \<and> (r = b \<or> r \<in> set (live_deadlines t))"
  using assms
proof (induction t arbitrary: b)
  case (Cons e t)
  show ?case
  proof (cases "re_live e")
    case True
    then have r: "r = fold earlier_deadline t (min b (re_deadline e))" "0 \<le> re_deadline e"
      using Cons.prems by (simp_all add: earlier_deadline_cases live_deadlines_def)
    then have "0 \<le> r \<and> r \<le> min b (re_deadline e) \<and> (\<forall>d\<in>set (live_deadlines t). r \<le> d) \<and>
        (r = min b (re_deadline e) \<or> r \<in> set (live_deadlines t))"
      using Cons.prems by (intro Cons.IH) (auto simp: live_deadlines_def)
    then show ?thesis using True by (auto simp: live_deadlines_def min_def split: if_splits)
  next
    case False
    then show ?thesis using Cons by (simp add: earlier_deadline_cases live_deadlines_def)
  qed
qed (simp add: live_deadlines_def)

lemma next_deadline_from_none:
  assumes "\<forall>d\<in>set (live_deadlines t). 0 \<le> d" "r = fold earlier_deadline t (-1)"
  shows "(live_deadlines t = [] \<longrightarrow> r = -1) \<and>
    (live_deadlines t \<noteq> [] \<longrightarrow> r \<in> set (live_deadlines t) \<and> (\<forall>d\<in>set (live_deadlines t). r \<le> d))"
  using assms
proof (induction t)
  case (Cons e t)
  show ?case
  proof (cases "re_live e")
    case True
    then show ?thesis using Cons.prems next_deadline_fold [of t "re_deadline e" r]
      by (auto simp: live_deadlines_def earlier_deadline_cases)
  next
    case False
    then show ?thesis using Cons by (auto simp: live_deadlines_def earlier_deadline_cases)
  qed
qed (simp add: live_deadlines_def)

lemma reap_reports:
  "snd (sdbus_replies_reap_expired t now room) =
     take room (map (\<lambda>e. (re_caller e, re_serial e)) (filter (\<lambda>e. re_live e \<and> re_deadline e \<le> now) t))"
proof (induction t now room rule: sdbus_replies_reap_expired.induct)
  case (2 e t now room)
  then show ?case by (cases room) (auto simp: split_beta)
qed simp

section \<open>Properties\<close>

text \<open>C30. Replies cannot be forged or repeated: over any history of calls, replies, timeouts and
  disconnects, starting from an empty table, the replies delivered for a call (callee, serial,
  caller), together with the calls still pending, are at most the calls recorded. So a reply reaches
  a connection only if that connection called the sender with that serial, at most once per call.\<close>

theorem replies_answer_recorded_calls:
  assumes "reply_run xs [] = (t, delivered)"
  shows "mset delivered + pend t \<subseteq># mset (recorded xs)"
  using reply_run_conserves [OF assms] by simp

theorem replies_answer_recorded_calls_witness:
  "let xs = [RRecord 7 5 3 0, RRecord 7 5 4 0, RMatch 7 5 4, RMatch 7 5 4, RMatch 8 5 3]
   in snd (reply_run xs []) = [(7, 5, 4)] \<and>
      mset (snd (reply_run xs [])) + pend (fst (reply_run xs [])) \<subseteq># mset (recorded xs)"
proof -
  let ?xs = "[RRecord 7 5 3 0, RRecord 7 5 4 0, RMatch 7 5 4, RMatch 7 5 4, RMatch 8 5 3]"
  have "snd (reply_run ?xs []) = [(7, 5, 4)]" by code_simp
  moreover have "reply_run ?xs [] = (fst (reply_run ?xs []), snd (reply_run ?xs []))" by (rule prod.collapse [symmetric])
  ultimately show ?thesis
    using replies_answer_recorded_calls [of ?xs "fst (reply_run ?xs [])" "snd (reply_run ?xs [])"]
    unfolding Let_def by blast
qed

text \<open>The deadline the event loop sleeps until is exact: it is -1 when no call is pending, and
  otherwise the earliest pending deadline. Waking then, the reap with a buffer as long as the table
  reports every expired call and leaves exactly the calls whose deadline is still ahead.\<close>

theorem replies_deadline_exact:
  assumes "\<forall>d\<in>set (live_deadlines t). 0 \<le> d"
  shows "(sdbus_replies_next_deadline t = -1 \<longleftrightarrow> pend t = {#}) \<and>
    (pend t \<noteq> {#} \<longrightarrow> sdbus_replies_next_deadline t \<in> set (live_deadlines t) \<and>
       (\<forall>d\<in>set (live_deadlines t). sdbus_replies_next_deadline t \<le> d)) \<and>
    pend (fst (sdbus_replies_reap_expired t now (length t))) =
      image_mset call_of (mset (filter (\<lambda>e. re_live e \<and> now < re_deadline e) t)) \<and>
    mset (snd (sdbus_replies_reap_expired t now (length t))) =
      image_mset (\<lambda>e. (re_caller e, re_serial e)) (mset (filter (\<lambda>e. re_live e \<and> re_deadline e \<le> now) t))"
proof -
  have f: "sdbus_replies_next_deadline t = fold earlier_deadline t (-1)"
    by (simp add: sdbus_replies_next_deadline_def)
  have e: "live_deadlines t = [] \<longleftrightarrow> pend t = {#}" by (auto simp: live_deadlines_def pend_def filter_empty_conv)
  have l: "length (filter (\<lambda>e. re_live e \<and> re_deadline e \<le> now) t) \<le> length t" by simp
  show ?thesis using next_deadline_from_none [OF assms f] assms e l
    by (auto simp: pend_reap reap_reports)
qed

theorem replies_deadline_exact_witness:
  "let t = fst (reply_run [RRecord 7 5 3 10, RRecord 7 6 4 0, RMatch 7 6 4, RRecord 8 1 2 50] [])
   in length t = 2 \<and> sdbus_replies_next_deadline t = 120010 \<and> pend t \<noteq> {#} \<and>
      pend (fst (sdbus_replies_reap_expired t 120010 (length t))) = mset [(8, 1, 2)]"
proof -
  define t where "t = fst (reply_run [RRecord 7 5 3 10, RRecord 7 6 4 0, RMatch 7 6 4, RRecord 8 1 2 50] [])"
  define us where "us = filter (\<lambda>e. re_live e \<and> 120010 < re_deadline e) t"
  have t: "length t = 2" "sdbus_replies_next_deadline t = 120010" "\<forall>d\<in>set (live_deadlines t). 0 \<le> d"
    unfolding t_def by code_simp+
  have "map call_of us = [(8, 1, 2)]" unfolding us_def t_def by code_simp
  then have "image_mset call_of (mset us) = mset [(8, 1, 2)]" by (metis mset_map)
  then show ?thesis using replies_deadline_exact [of t 120010] t
    unfolding t_def [symmetric] us_def Let_def by auto
qed

end
