(* ===== verification/SD_Route.thy ===== *)
theory SD_Route
  imports SD_Names SD_Policy SD_Reply SD_Conn
begin

text \<open>
  The routing decision, \<^verbatim>\<open>src/sdbus_route.h\<close>: where a parsed message goes, given the registry, the
  connections, the policy and the table of pending replies. The caller's \<^verbatim>\<open>targets[]\<close>, \<^verbatim>\<open>*denied\<close> and
  \<^verbatim>\<open>*synth_error\<close> are the components of the result, next to the updated table.
\<close>

section \<open>Routing\<close>

definition sdbus_type_str :: "u8 \<Rightarrow> string option" where
  "sdbus_type_str t =
     (if t = SDBUS_TYPE_METHOD_CALL then Some ''method_call''
      else if t = SDBUS_TYPE_METHOD_RETURN then Some ''method_return''
      else if t = SDBUS_TYPE_ERROR then Some ''error''
      else if t = SDBUS_TYPE_SIGNAL then Some ''signal''
      else None)"

definition route_resolve :: "sdbus_names \<Rightarrow> sdbus_conn list \<Rightarrow> string option \<Rightarrow> int" where
  "route_resolve names all dest =
     (case dest of
        None \<Rightarrow> -1
      | Some d \<Rightarrow>
          (case List.find (\<lambda>c. cn_unique c = Some d) all of
             Some c \<Rightarrow> cn_id c
           | None \<Rightarrow> sdbus_names_owner names d))"

text \<open>\<^verbatim>\<open>(int)c->uid\<close>.\<close>

definition conn_uid_int :: "sdbus_conn \<Rightarrow> int" where
  "conn_uid_int c = sint (cn_uid c)"

definition recv_req :: "sdbus_wire_msg \<Rightarrow> string list \<Rightarrow> string option \<Rightarrow> sdbus_conn \<Rightarrow> sdbus_req" where
  "recv_req msg snames sender_unique rcpt =
     sdbus_req_zero\<lparr>rq_op := Some ''receive'', rq_uid := conn_uid_int rcpt, rq_gids := cn_gids rcpt,
       rq_interface := w_interface msg, rq_member := w_member msg,
       rq_msgtype := sdbus_type_str (w_type msg), rq_path := w_path msg,
       rq_sender_names := snames, rq_sender_name := sender_unique\<rparr>"

definition recv_allowed ::
    "sdbus_policy \<Rightarrow> sdbus_wire_msg \<Rightarrow> string list \<Rightarrow> string option \<Rightarrow> sdbus_conn \<Rightarrow> bool" where
  "recv_allowed pol msg snames sender_unique rcpt =
     sdbus_policy_eval pol (recv_req msg snames sender_unique rcpt)"

definition send_req :: "sdbus_wire_msg \<Rightarrow> sdbus_conn \<Rightarrow> string list \<Rightarrow> sdbus_req" where
  "send_req msg sender dnames =
     sdbus_req_zero\<lparr>rq_op := Some ''send'', rq_uid := conn_uid_int sender, rq_gids := cn_gids sender,
       rq_interface := w_interface msg, rq_member := w_member msg,
       rq_msgtype := sdbus_type_str (w_type msg), rq_path := w_path msg,
       rq_destination := w_destination msg, rq_dest_names := dnames,
       rq_has_reply_serial := w_has_reply_serial msg\<rparr>"

record route_result =
  rt_targets :: "int list"
  rt_denied :: bool
  rt_synth_error :: bool
  rt_replies :: sdbus_replies

definition rt_none :: "sdbus_replies \<Rightarrow> route_result" where
  "rt_none replies = \<lparr>rt_targets = [], rt_denied = False, rt_synth_error = False, rt_replies = replies\<rparr>"

definition broadcast_takes ::
    "sdbus_policy \<Rightarrow> sdbus_wire_msg \<Rightarrow> sdbus_conn \<Rightarrow> string list \<Rightarrow> sdbus_conn \<Rightarrow> bool" where
  "broadcast_takes pol msg sender snames cc \<longleftrightarrow>
     cn_id cc \<noteq> cn_id sender \<and>
     (case cn_matches cc of
        None \<Rightarrow> False
      | Some m \<Rightarrow> sdbus_match_signal m (w_interface msg) (w_member msg) (w_path msg)
                   (cn_unique sender) snames (w_arg0 msg)) \<and>
     (has_recv_rule pol \<longrightarrow> recv_allowed pol msg snames (cn_unique sender) cc)"

definition route_signal ::
    "sdbus_wire_msg \<Rightarrow> sdbus_conn \<Rightarrow> sdbus_names \<Rightarrow> sdbus_conn list \<Rightarrow> sdbus_policy \<Rightarrow> sdbus_replies \<Rightarrow>
     nat \<Rightarrow> int \<Rightarrow> route_result" where
  "route_signal msg sender names all pol replies mx dest_owner =
     (let snames = sdbus_names_owned_by names (cn_id sender) in
      if w_destination msg \<noteq> None then
        (if dest_owner < 0 \<or> mx < 1 then rt_none replies
         else if has_recv_rule pol \<and>
                 (case List.find (\<lambda>c. cn_id c = dest_owner) all of
                    None \<Rightarrow> True
                  | Some rc \<Rightarrow> \<not> recv_allowed pol msg snames (cn_unique sender) rc)
              then rt_none replies
              else (rt_none replies)\<lparr>rt_targets := [dest_owner]\<rparr>)
      else (rt_none replies)\<lparr>rt_targets :=
              take mx (map cn_id (filter (broadcast_takes pol msg sender snames) all))\<rparr>)"

definition is_reply_msg :: "sdbus_wire_msg \<Rightarrow> bool" where
  "is_reply_msg msg \<longleftrightarrow>
     (w_type msg = SDBUS_TYPE_METHOD_RETURN \<or> w_type msg = SDBUS_TYPE_ERROR) \<and> w_has_reply_serial msg"

definition sdbus_route_targets ::
    "sdbus_wire_msg \<Rightarrow> sdbus_conn \<Rightarrow> sdbus_names \<Rightarrow> sdbus_conn list \<Rightarrow> sdbus_policy \<Rightarrow> sdbus_replies \<Rightarrow>
     nat \<Rightarrow> int \<Rightarrow> route_result" where
  "sdbus_route_targets msg sender names all pol replies mx now =
     (let dest_owner = route_resolve names all (w_destination msg) in
      if is_reply_msg msg then
        (let (replies', caller) = sdbus_replies_match replies (cn_id sender) (w_reply_serial msg) dest_owner in
         if caller < 0 \<or> mx < 1 then rt_none replies'
         else (rt_none replies')\<lparr>rt_targets := [caller]\<rparr>)
      else
        (let dnames = (if dest_owner \<ge> 0 then sdbus_names_owned_by names dest_owner else []) in
         if \<not> sdbus_policy_eval pol (send_req msg sender dnames) then (rt_none replies)\<lparr>rt_denied := True\<rparr>
         else if w_type msg = SDBUS_TYPE_SIGNAL then route_signal msg sender names all pol replies mx dest_owner
         else if dest_owner < 0 then (rt_none replies)\<lparr>rt_synth_error := True\<rparr>
         else if mx < 1 then rt_none replies
         else \<lparr>rt_targets = [dest_owner], rt_denied = False, rt_synth_error = False,
               rt_replies =
                 (if w_type msg = SDBUS_TYPE_METHOD_CALL \<and> w_flags msg AND SDBUS_FLAG_NO_REPLY = 0
                  then sdbus_replies_record replies dest_owner (w_serial msg) (cn_id sender) now
                  else replies)\<rparr>))"

section \<open>Lemmas\<close>

lemma rt_none_simps [simp]:
  "rt_targets (rt_none r) = []" "\<not> rt_denied (rt_none r)" "\<not> rt_synth_error (rt_none r)" "rt_replies (rt_none r) = r"
  by (simp_all add: rt_none_def)

lemma route_signal_targets:
  "x \<in> set (rt_targets (route_signal msg sender names all pol replies mx ow)) \<Longrightarrow>
     (case w_destination msg of
        None \<Rightarrow> \<exists>c\<in>set all. cn_id c = x \<and>
          broadcast_takes pol msg sender (sdbus_names_owned_by names (cn_id sender)) c
      | Some d \<Rightarrow> x = ow \<and> 0 \<le> ow \<and> (has_recv_rule pol \<longrightarrow>
          (\<exists>c\<in>set all. cn_id c = x \<and>
             recv_allowed pol msg (sdbus_names_owned_by names (cn_id sender)) (cn_unique sender) c)))"
proof (cases "w_destination msg")
  case None
  assume "x \<in> set (rt_targets (route_signal msg sender names all pol replies mx ow))"
  then show ?thesis using None by (auto simp: route_signal_def Let_def dest!: in_set_takeD)
next
  case (Some d)
  assume x: "x \<in> set (rt_targets (route_signal msg sender names all pol replies mx ow))"
  have f: "c \<in> set all \<and> cn_id c = ow" if "List.find (\<lambda>c. cn_id c = ow) all = Some c" for c
    using that by (auto simp: find_Some_iff in_set_conv_nth)
  show ?thesis using x Some f
    by (fastforce simp: route_signal_def Let_def split: if_splits option.splits)
qed

text \<open>A recorded call is found by the reply that names its caller.\<close>

lemma match_finds:
  assumes "(f, s, k) \<in># pend t" "0 \<le> k"
  shows "snd (sdbus_replies_match t f s k) = k"
proof -
  obtain t' r where m: "sdbus_replies_match t f s k = (t', r)" by fastforce
  then show ?thesis using pend_match [OF m] assms by auto
qed

lemma route_call:
  assumes "rt_targets (sdbus_route_targets msg sender names all pol replies mx now) = [b]"
    and "w_type msg = SDBUS_TYPE_METHOD_CALL" "w_flags msg AND SDBUS_FLAG_NO_REPLY = 0"
  shows "rt_replies (sdbus_route_targets msg sender names all pol replies mx now) =
    sdbus_replies_record replies b (w_serial msg) (cn_id sender) now"
  using assms
  by (auto simp: sdbus_route_targets_def Let_def is_reply_msg_def SDBUS_TYPE_METHOD_CALL_def
      SDBUS_TYPE_METHOD_RETURN_def SDBUS_TYPE_ERROR_def SDBUS_TYPE_SIGNAL_def split: if_splits)

lemma route_reply:
  assumes "is_reply_msg msg" "x \<in> set (rt_targets (sdbus_route_targets msg sender names all pol replies mx now))"
  shows "pend replies = add_mset (cn_id sender, w_reply_serial msg, x)
    (pend (rt_replies (sdbus_route_targets msg sender names all pol replies mx now)))"
proof -
  let ?want = "route_resolve names all (w_destination msg)"
  obtain r' k where m: "sdbus_replies_match replies (cn_id sender) (w_reply_serial msg) ?want = (r', k)" by fastforce
  then have "x = k" "0 \<le> k" "rt_replies (sdbus_route_targets msg sender names all pol replies mx now) = r'"
    using assms by (auto simp: sdbus_route_targets_def Let_def split: if_splits)
  then show ?thesis using pend_match [OF m] by auto
qed

lemma route_targets_max:
  "length (rt_targets (sdbus_route_targets msg sender names all pol replies mx now)) \<le> mx"
  by (auto simp: sdbus_route_targets_def route_signal_def Let_def split: prod.splits)

text \<open>Two connections, a call of the first to the second and its return.\<close>

definition example_conn :: "int \<Rightarrow> string \<Rightarrow> sdbus_conn" where
  "example_conn i u = conn_zero\<lparr>cn_id := i, cn_unique := Some u\<rparr>"

definition example_conns :: "sdbus_conn list" where
  "example_conns = [example_conn 1 '':1.1'', example_conn 2 '':1.2'']"

definition example_policy :: sdbus_policy where
  "example_policy = the (sdbus_policy_parse (\<lambda>n. -1) (\<lambda>n. -1) SDBUS_NO_POLICY_FILE_DEFAULT)"

definition example_msg :: sdbus_wire_msg where
  "example_msg = wire_msg_zero\<lparr>w_type := 1, w_serial := 5, w_destination := Some '':1.2''\<rparr>"

definition example_ret :: sdbus_wire_msg where
  "example_ret = wire_msg_zero\<lparr>w_type := 2, w_has_reply_serial := True, w_reply_serial := 5,
     w_destination := Some '':1.1''\<rparr>"

section \<open>Properties\<close>

text \<open>C33. Nothing is delivered that the rules do not allow, and never more than the target array
  holds. A reply reaches only a connection whose call to the sender with that serial is pending, and
  consumes that call. Any other message is delivered only if the send policy allows it for the
  sender; a broadcast signal then only to other connections with a rule that matches and whose receive
  policy, where there is one, allows it; everything else only to the connection its destination
  resolves to, a directed signal only if the receive policy, where there is one, allows it there.\<close>

theorem route_delivers_only_allowed:
  assumes "res = sdbus_route_targets msg sender names all pol replies mx now" "x \<in> set (rt_targets res)"
    and "ow = route_resolve names all (w_destination msg)"
    and "sn = sdbus_names_owned_by names (cn_id sender)"
  shows "length (rt_targets res) \<le> mx \<and>
    (if is_reply_msg msg
     then pend replies = add_mset (cn_id sender, w_reply_serial msg, x) (pend (rt_replies res))
     else sdbus_policy_eval pol (send_req msg sender (if 0 \<le> ow then sdbus_names_owned_by names ow else [])) \<and>
       (if w_type msg = SDBUS_TYPE_SIGNAL \<and> w_destination msg = None
        then \<exists>c\<in>set all. cn_id c = x \<and> x \<noteq> cn_id sender \<and>
          (\<exists>m. cn_matches c = Some m \<and> sdbus_match_signal m (w_interface msg) (w_member msg) (w_path msg)
             (cn_unique sender) sn (w_arg0 msg)) \<and>
          (has_recv_rule pol \<longrightarrow> sdbus_policy_eval pol (recv_req msg sn (cn_unique sender) c))
        else x = ow \<and> 0 \<le> ow \<and> (w_type msg = SDBUS_TYPE_SIGNAL \<and> has_recv_rule pol \<longrightarrow>
          (\<exists>c\<in>set all. cn_id c = x \<and> sdbus_policy_eval pol (recv_req msg sn (cn_unique sender) c)))))"
proof (cases "is_reply_msg msg")
  case True
  then show ?thesis using route_reply [OF True] route_targets_max assms by simp
next
  case False
  let ?ok = "sdbus_policy_eval pol (send_req msg sender (if 0 \<le> ow then sdbus_names_owned_by names ow else []))"
  have ok: ?ok using False assms(1,2) unfolding assms(3)
    by (auto simp: sdbus_route_targets_def Let_def split: if_splits)
  show ?thesis
  proof (cases "w_type msg = SDBUS_TYPE_SIGNAL")
    case True
    then have "res = route_signal msg sender names all pol replies mx ow"
      using ok False assms(1) unfolding assms(3) by (simp add: sdbus_route_targets_def Let_def)
    then show ?thesis using route_signal_targets [of x msg sender names all pol replies mx ow] assms(2) ok False True
        route_targets_max [of msg sender names all pol replies mx now] assms(1,4)
      by (cases "w_destination msg") (auto simp: broadcast_takes_def recv_allowed_def split: option.splits)
  next
    case ns: False
    then have "x = ow \<and> 0 \<le> ow" using ok False assms(1,2) unfolding assms(3)
      by (auto simp: sdbus_route_targets_def Let_def split: if_splits)
    then show ?thesis using ok False ns route_targets_max [of msg sender names all pol replies mx now] assms(1) by simp
  qed
qed

theorem route_delivers_only_allowed_witness:
  "rt_targets (sdbus_route_targets example_msg (example_conn 1 '':1.1'') sdbus_names_new example_conns
       example_policy [] 1 0) = [2] \<and>
   sdbus_policy_eval example_policy (send_req example_msg (example_conn 1 '':1.1'') [])"
proof -
  define res where "res = sdbus_route_targets example_msg (example_conn 1 '':1.1'') sdbus_names_new example_conns
    example_policy [] 1 0"
  have r: "rt_targets res = [2]" unfolding res_def by code_simp
  have s: "\<not> is_reply_msg example_msg" "route_resolve sdbus_names_new example_conns (w_destination example_msg) = 2"
    "sdbus_names_owned_by sdbus_names_new 2 = []" by code_simp+
  have x: "(2 :: int) \<in> set (rt_targets res)" using r by simp
  have "sdbus_policy_eval example_policy (send_req example_msg (example_conn 1 '':1.1'')
      (if 0 \<le> (2 :: int) then sdbus_names_owned_by sdbus_names_new 2 else []))"
    using route_delivers_only_allowed [OF res_def x s(2) [symmetric]] s(1) by (metis (no_types))
  then show ?thesis using r s(3) unfolding res_def by simp
qed

text \<open>C36. A call gets its answer: when a method call that expects a reply was routed to a connection,
  that connection's return with the call's serial, addressed to a name that resolves to the caller, is
  delivered to the caller and to nobody else, whatever the policy is by then and whatever other calls
  were recorded in between, calls with the same serial included.\<close>

theorem call_gets_its_reply:
  assumes "res = sdbus_route_targets call caller names all pol replies mx now" "rt_targets res = [cn_id callee]"
    and "w_type call = SDBUS_TYPE_METHOD_CALL" "w_flags call AND SDBUS_FLAG_NO_REPLY = 0"
    and "pend (rt_replies res) \<subseteq># pend replies2"
    and "w_type ret = SDBUS_TYPE_METHOD_RETURN" "w_has_reply_serial ret" "w_reply_serial ret = w_serial call"
    and "route_resolve names2 all2 (w_destination ret) = cn_id caller" "0 \<le> cn_id caller" "1 \<le> mx2"
  shows "rt_targets (sdbus_route_targets ret callee names2 all2 pol2 replies2 mx2 now2) = [cn_id caller]"
proof -
  have "(cn_id callee, w_serial call, cn_id caller) \<in># pend (rt_replies res)"
    using route_call [of call caller names all pol replies mx now "cn_id callee"] assms(1-4) by (simp add: pend_record)
  then have "(cn_id callee, w_serial call, cn_id caller) \<in># pend replies2"
    using assms(5) by (rule mset_subset_eqD [rotated])
  then have m: "snd (sdbus_replies_match replies2 (cn_id callee) (w_serial call) (cn_id caller)) = cn_id caller"
    using match_finds assms(10) by blast
  have "is_reply_msg ret" using assms(6,7) by (simp add: is_reply_msg_def)
  then show ?thesis using m assms(8-11) by (simp add: sdbus_route_targets_def Let_def split_beta)
qed

theorem call_gets_its_reply_witness:
  "let a = example_conn 1 '':1.1''; b = example_conn 2 '':1.2'';
       res = sdbus_route_targets example_msg a sdbus_names_new example_conns example_policy [] 256 0;
       t2 = sdbus_replies_record (rt_replies res) 2 5 3 1
   in rt_targets res = [2] \<and>
      rt_targets (sdbus_route_targets example_ret b sdbus_names_new example_conns example_policy t2 256 2) = [1]"
proof -
  define a where "a = example_conn 1 '':1.1''"
  define b where "b = example_conn 2 '':1.2''"
  define res where "res = sdbus_route_targets example_msg a sdbus_names_new example_conns example_policy [] 256 0"
  have r: "rt_targets res = [cn_id b]" "w_type example_msg = SDBUS_TYPE_METHOD_CALL"
    "w_flags example_msg AND SDBUS_FLAG_NO_REPLY = 0" "w_type example_ret = SDBUS_TYPE_METHOD_RETURN"
    "w_has_reply_serial example_ret" "w_reply_serial example_ret = w_serial example_msg"
    "route_resolve sdbus_names_new example_conns (w_destination example_ret) = cn_id a" "0 \<le> cn_id a"
    unfolding res_def a_def b_def by code_simp+
  have i: "cn_id a = 1" "cn_id b = 2" by (simp_all add: a_def b_def example_conn_def)
  have p: "pend (rt_replies res) \<subseteq># pend (sdbus_replies_record (rt_replies res) 2 5 3 1)" by (simp add: pend_record)
  show ?thesis
    using call_gets_its_reply [OF res_def r(1-3) p r(4-8), of 256 example_policy 2] r(1) i
    unfolding a_def [symmetric] b_def [symmetric] res_def [symmetric] Let_def by simp
qed

end
