(* ===== verification/Spec2Isabelle.thy ===== *)
theory Spec2Isabelle
  imports SI_Deps SI_Shutdown SI_Config SD_Auth SD_Route
begin

text \<open>
  \<^bold>\<open>Verification of schema-init\<close>

  schema-init is a process supervisor that runs as PID 1, with its own message bus daemon. This
  development translates its C sources into executable HOL functions and proves what the code
  promises about them.

  \<^bold>\<open>The parts and how they interact.\<close>
  PID 1 (\<^verbatim>\<open>init.c\<close>, \<^verbatim>\<open>engine.c\<close>) loads a directory of service files (\<^verbatim>\<open>service.c\<close>) into a table, then
  loops: it reaps dead children, steps a weight-state machine (\<^verbatim>\<open>schema.c\<close>) for each service, spawns
  and stops processes, reads readiness datagrams (\<^verbatim>\<open>notify.h\<close>), keeps descriptors of restarting daemons
  (\<^verbatim>\<open>fdstore.h\<close>), and evicts processes whose service has left the table. The bus daemon
  (\<^verbatim>\<open>schema-dbus.c\<close> and the \<^verbatim>\<open>sdbus_*.h\<close> headers) authenticates peers, owns the name registry, checks
  policy, and routes messages and replies.

  \<^bold>\<open>Conventions of the model.\<close>
  A C string is a character list without its NUL, a byte buffer a list of bytes. Small counters and
  flag sets that wrap in C are words (\<^verbatim>\<open>u8\<close>, \<^verbatim>\<open>u32\<close>); time and pids are \<^typ>\<open>int\<close>. A fixed C array is a
  list, with the bound the code checks written as the guard of the operation and proved as an
  invariant. A function that mutates through a pointer returns the new value. What the kernel and
  the C library answer (\<^verbatim>\<open>fork\<close>, \<^verbatim>\<open>waitpid\<close>, \<^verbatim>\<open>stat\<close>, clocks, cgroup files, \<^verbatim>\<open>getpwnam\<close>) is an argument: the
  record \<^typ>\<open>sysenv\<close> for the engine, function arguments elsewhere, so each theorem holds for every
  answer. What the engine does to the outside is appended to the \<^verbatim>\<open>trace\<close> of \<^typ>\<open>engine\<close> as values of
  \<^typ>\<open>effect\<close>. One call of a step function sees one answer per question, which is the granularity at
  which the code samples the clock and the kernel.

  \<^bold>\<open>The supervisor.\<close>
  \<^item> \<^verbatim>\<open>SI_Prelude\<close>: C strings and integers, \<^verbatim>\<open>strtol\<close>, \<^verbatim>\<open>struct timespec\<close>, and the list lemmas the others
    share.
  \<^item> \<^verbatim>\<open>SI_Schema\<close> (\<^verbatim>\<open>schema.h\<close>, \<^verbatim>\<open>schema.c\<close>): the weight-state machine.
  \<^item> \<^verbatim>\<open>SI_Lines\<close> (\<^verbatim>\<open>svc_dropins.h\<close>): the bounded line reader and the drop-in rules; a line is delivered
    whole or refused, whatever the buffer.
  \<^item> \<^verbatim>\<open>SI_Group\<close> (\<^verbatim>\<open>group.c\<close>): group files and the aggregate of their members.
  \<^item> \<^verbatim>\<open>SI_Timing\<close> (\<^verbatim>\<open>service.h\<close>): calendars, memory pressure hysteresis, wake-up arithmetic; the next
    calendar time is the earliest that matches.
  \<^item> \<^verbatim>\<open>SI_Service\<close> (\<^verbatim>\<open>service.h\<close>): the service record, its log line, the restart hold, and the records
    \<^verbatim>\<open>sysenv\<close> and \<^verbatim>\<open>effect\<close> of the outside world.
  \<^item> \<^verbatim>\<open>SI_Probe\<close>, \<^verbatim>\<open>SI_Cpuset\<close>, \<^verbatim>\<open>SI_Spawn\<close>, \<^verbatim>\<open>SI_Deps\<close> (\<^verbatim>\<open>service.c\<close>): readiness of dependencies and
    conditions, cpu lists and cgroup limits, listening sockets and the parent's half of a spawn,
    and the cycle search, proved to find a cycle exactly when there is one.
  \<^item> \<^verbatim>\<open>SI_Words\<close>, \<^verbatim>\<open>SI_Parse\<close>, \<^verbatim>\<open>SI_Load\<close>, \<^verbatim>\<open>SI_Config\<close> (\<^verbatim>\<open>service.c\<close>): command lines and environment files,
    the service file parser with its drop-ins and hardening checks, the invariant that every
    field fits its array, and what a loaded table guarantees.
  \<^item> \<^verbatim>\<open>SI_Notify\<close>, \<^verbatim>\<open>SI_Fdstore\<close> (\<^verbatim>\<open>notify.h\<close>, \<^verbatim>\<open>fdstore.h\<close>): the readiness datagram, the test that a sender
    belongs to a service's cgroup, and the descriptor store.
  \<^item> \<^verbatim>\<open>SI_Evict\<close>, \<^verbatim>\<open>SI_Life\<close>, \<^verbatim>\<open>SI_Reap\<close>, \<^verbatim>\<open>SI_Tick\<close> (\<^verbatim>\<open>engine.c\<close>): the eviction table, the life-cycle steps on
    the record \<^verbatim>\<open>engine\<close> (restart budget, breaker, fallbacks, stop commands, \<^verbatim>\<open>bind=\<close>), the reaper with
    the timers, and one pass of \<^verbatim>\<open>tick_service\<close> with the monitors. The theorems say exactly when a
    pass forks, why it gives up on a service, what each exit leads to, that a dead service is
    retried, and that a reaped process is never signalled.
  \<^item> \<^verbatim>\<open>SI_Example\<close>: a concrete host and table for the witnesses.

  \<^bold>\<open>The message bus.\<close>
  \<^item> \<^verbatim>\<open>SD_Names\<close>, \<^verbatim>\<open>SD_Match\<close>, \<^verbatim>\<open>SD_Reply\<close>, \<^verbatim>\<open>SD_Policy\<close> (the headers of the same names): the name registry
    refines a map from names to owner queues and announces every change of owner; match rules;
    the table of awaited replies, which accepts only answers to recorded calls; the policy
    engine, where the last matching rule wins.
  \<^item> \<^verbatim>\<open>SD_Wire\<close>, \<^verbatim>\<open>SD_Conn\<close>, \<^verbatim>\<open>SD_Auth\<close>: the header parser, which never reads outside its buffer, and
    the rewrite that only sets the sender; the outbound queue as a stream of bytes; the SASL
    handshake, which authenticates only the peer's own identity.
  \<^item> \<^verbatim>\<open>SD_Route\<close>: the routing decision over all of these; only allowed messages are delivered, and a
    delivered call gets its reply.

  \<^bold>\<open>Bounds and fuel.\<close>
  No function of the model takes fuel. Loops over arrays and text are structural, or are
  \<^verbatim>\<open>function\<close>s whose \<^verbatim>\<open>termination\<close> proof is part of the development: the recursion of
  \<^verbatim>\<open>binders_loop\<close> ends because each binder it enters is first marked held, the sweeps that swap the
  last entry into a hole because the table shrinks, the depth-first search because it colours a
  node before it descends, and the text scanners because each step consumes input. Array capacities (\<^verbatim>\<open>MAX_DEPS\<close>,
  \<^verbatim>\<open>MAX_SERVICES\<close>, \<^verbatim>\<open>FDSTORE_MAX_TOTAL\<close> and so on) are those of the headers.

  \<^bold>\<open>Not modelled.\<close>
  The child's half of a spawn, mounts, console and hardware set-up of PID 1, namespaces,
  capabilities and landlock calls: they are system calls in sequence whose effect lies in the
  kernel. Descriptor passing (\<^verbatim>\<open>fdclose.h\<close>, \<^verbatim>\<open>fdstore_place_fds\<close>) and the poll loops are I/O around the
  modelled decisions. The re-exec snapshot, the control socket, the bus driver, activation
  and snapshot, the device manager and the client programs are separate parts not covered here.
\<close>

end
